(* ===== verification/Prelude.thy ===== *)
theory Prelude
  imports Main "HOL-Library.Word" "HOL-Library.Monad_Syntax"
begin

unbundle bit_operations_syntax

text \<open>
  Shared vocabulary of the development: the fixed-width integers of the C++ sources, bytes
  and strings, spans whose accesses are checked, results that can be errors, and the counted
  loop that every container decoder of the program runs.

  A \<open>std::span\<close> or \<open>std::vector<std::byte>\<close> is a list of bytes.  C++ leaves
  an access outside a span undefined, so a span operation here returns an option and
  \<^const>\<open>None\<close> stands for undefined behaviour.  A decoder of the program returns
  \<open>std::expected<T, E>\<close>; its model returns a checked result, \<open>('e + 'a) option\<close>:
  \<open>Some (Inr x)\<close> is the value, \<open>Some (Inl e)\<close> the error, and \<^const>\<open>None\<close> a read out
  of bounds.  That no input leads to \<^const>\<open>None\<close> is a theorem about each decoder.
\<close>

section \<open>Integers, bytes and strings\<close>

type_synonym u8 = "8 word"
type_synonym u16 = "16 word"
type_synonym u32 = "32 word"
type_synonym u64 = "64 word"
type_synonym byte = "8 word"
type_synonym bytes = "byte list"

type_synonym ('e, 'a) checked = "('e + 'a) option"

named_theorems span_simps \<open>checked span accesses evaluated on bytes of known shape\<close>
named_theorems codec_simps \<open>reads of freshly written integers, and the converse\<close>
named_theorems codec_defs \<open>unfolding the decoders of one message\<close>

text \<open>
  A \<open>char\<close> of a \<open>std::string\<close> is an 8-bit pattern; casting it to
  \<open>unsigned char\<close> and then to \<open>std::byte\<close> keeps the pattern.
\<close>

definition byte_of_char :: "char \<Rightarrow> byte" where
  "byte_of_char c = of_char c"

definition char_of_byte :: "byte \<Rightarrow> char" where
  "char_of_byte b = char_of (unat b)"

lemma unat_byte_of_char: "unat (byte_of_char c) = of_char c"
proof -
  have "(of_char c :: nat) < 256" by simp
  moreover have "byte_of_char c = word_of_nat (of_char c)"
    by (simp add: byte_of_char_def of_nat_of_char)
  ultimately show ?thesis by (simp add: unat_of_nat take_bit_eq_mod)
qed

lemma char_of_byte_of_char [simp]: "char_of_byte (byte_of_char c) = c"
  by (simp add: char_of_byte_def unat_byte_of_char)

lemma byte_of_char_of_byte [simp]: "byte_of_char (char_of_byte b) = b"
proof -
  have "unat b < 2 ^ LENGTH(8)" by (rule unsigned_less)
  then have "unat b mod 256 = unat b" by simp
  then have "unat (byte_of_char (char_of_byte b)) = unat b"
    by (simp add: unat_byte_of_char char_of_byte_def)
  then show ?thesis by (simp only: word_unat_eq_iff)
qed

lemma map_char_byte [simp]: "map char_of_byte (map byte_of_char s) = s"
  by (simp add: map_idI)

lemma map_byte_char [simp]: "map byte_of_char (map char_of_byte bs) = bs"
  by (simp add: map_idI)

lemma word_of_nat_inverse16 [simp]: "n \<le> 65535 \<Longrightarrow> unat (word_of_nat n :: u16) = n"
  by (simp add: unat_of_nat take_bit_eq_mod)

lemma word_of_nat_inverse8 [simp]: "n \<le> 255 \<Longrightarrow> unat (word_of_nat n :: u8) = n"
  by (simp add: unat_of_nat take_bit_eq_mod)

lemma word_of_nat_inverse32: "n < 4294967296 \<Longrightarrow> unat (word_of_nat n :: u32) = n"
  by (simp add: unat_of_nat take_bit_eq_mod)

lemma unat_less_power: "unat (w :: 'n::len word) < 2 ^ LENGTH('n)"
  by (rule unsigned_less)

lemma unat_u16_le [simp]: "unat (w :: u16) \<le> 65535"
  using unat_less_power [of w] by simp

lemma unat_u8_le [simp]: "unat (w :: u8) \<le> 255"
  using unat_less_power [of w] by simp

lemma unat_u32_less: "unat (w :: u32) < 4294967296"
  using unat_less_power [of w] by simp

section \<open>Spans\<close>

definition span_first :: "nat \<Rightarrow> 'a list \<Rightarrow> 'a list option" where
  "span_first n bs = (if n \<le> length bs then Some (take n bs) else None)"

definition span_from :: "nat \<Rightarrow> 'a list \<Rightarrow> 'a list option" where
  "span_from off bs = (if off \<le> length bs then Some (drop off bs) else None)"

definition span_sub :: "nat \<Rightarrow> nat \<Rightarrow> 'a list \<Rightarrow> 'a list option" where
  "span_sub off n bs = (if off + n \<le> length bs then Some (take n (drop off bs)) else None)"

definition span_at :: "nat \<Rightarrow> 'a list \<Rightarrow> 'a option" where
  "span_at i bs = (if i < length bs then Some (bs ! i) else None)"

text \<open>The accesses in bounds, for a span whose length is known.\<close>

lemma span_first_in [span_simps]: "n \<le> length bs \<Longrightarrow> span_first n bs = Some (take n bs)"
  and span_from_in [span_simps]: "n \<le> length bs \<Longrightarrow> span_from n bs = Some (drop n bs)"
  and span_sub_in [span_simps]:
    "off + n \<le> length bs \<Longrightarrow> span_sub off n bs = Some (take n (drop off bs))"
  and span_at_in [span_simps]: "n < length bs \<Longrightarrow> span_at n bs = Some (bs ! n)"
  by (simp_all add: span_first_def span_from_def span_sub_def span_at_def)

lemma span_from_then_first:
  "Option.bind (span_from off bs) (span_first n) = span_sub off n bs"
  by (auto simp: span_from_def span_first_def span_sub_def)

text \<open>Slicing a concatenation whose parts have known lengths.\<close>

lemma take_append_exact: "length xs = n \<Longrightarrow> take n (xs @ ys) = xs"
  by simp

lemma take_drop_append_exact: "length xs = m \<Longrightarrow> take n (drop m (xs @ ys)) = take n ys"
  by simp

lemma take_drop_join: "m = n + k \<Longrightarrow> take k (drop n bs) @ drop m bs = drop n bs"
  by (metis append_take_drop_id drop_drop add.commute)

lemma take_drop_all: "length bs \<le> n + k \<Longrightarrow> take k (drop n bs) = drop n bs"
  by simp

text \<open>The \<open>i\<close>-th block of a run of blocks of equal length.\<close>

lemma take_drop_block:
  assumes "\<And>x. x \<in> set es \<Longrightarrow> length (f x) = n" and "i < length es"
  shows "take n (drop (i * n) (concat (map f es))) = f (es ! i)"
  using assms
proof (induction es arbitrary: i)
  case (Cons e es)
  then show ?case by (cases i) (simp_all add: add.commute)
qed simp

lemma length_concat_blocks:
  "(\<And>x. x \<in> set es \<Longrightarrow> length (f x) = n) \<Longrightarrow> length (concat (map f es)) = length es * n"
  by (induction es) simp_all

section \<open>Results\<close>

text \<open>
  \<open>and_then r f\<close> is the pattern \<open>if (!r.has_value()) return std::unexpected(r.error());\<close>
  followed by the use of the value.
\<close>

definition and_then :: "('e, 'a) checked \<Rightarrow> ('a \<Rightarrow> ('e, 'b) checked) \<Rightarrow> ('e, 'b) checked" where
  "and_then r f =
     (case r of None \<Rightarrow> None | Some (Inl e) \<Rightarrow> Some (Inl e) | Some (Inr x) \<Rightarrow> f x)"

lemma and_then_simps [simp]:
  "and_then None f = None"
  "and_then (Some (Inl e)) f = Some (Inl e)"
  "and_then (Some (Inr x)) f = f x"
  by (simp_all add: and_then_def)

lemma and_then_Ok:
  "and_then r f = Some (Inr y) \<longleftrightarrow> (\<exists>x. r = Some (Inr x) \<and> f x = Some (Inr y))"
  by (auto simp: and_then_def split: option.splits sum.splits)

lemma and_then_safe:
  assumes "r \<noteq> None" and "\<And>x. r = Some (Inr x) \<Longrightarrow> f x \<noteq> None"
  shows "and_then r f \<noteq> None"
  using assms by (cases r) (auto simp: and_then_def split: sum.splits)

section \<open>The counted decoding loop\<close>

text \<open>
  Every container decoder runs \<open>for (i = 0; i < count; ++i)\<close> over a shrinking span: it
  decodes one element from the front, keeps the rest of the span, and returns the first
  error.  \<open>read_many item n bs\<close> is that loop with the body \<open>item\<close>.
\<close>

fun read_many :: "(bytes \<Rightarrow> ('e, 'a \<times> bytes) checked) \<Rightarrow> nat \<Rightarrow> bytes
    \<Rightarrow> ('e, 'a list \<times> bytes) checked" where
  "read_many item 0 bs = Some (Inr ([], bs))"
| "read_many item (Suc n) bs =
     and_then (item bs) (\<lambda>(x, rest).
       and_then (read_many item n rest) (\<lambda>(xs, rest'). Some (Inr (x # xs, rest'))))"

lemma read_many_safe:
  assumes "\<And>bs. item bs \<noteq> None"
  shows "read_many item n bs \<noteq> None"
proof (induction n arbitrary: bs)
  case (Suc n)
  have "and_then (read_many item n rest) (\<lambda>(xs, rest'). Some (Inr (x # xs, rest'))) \<noteq> None"
    for x rest
    by (rule and_then_safe [OF Suc.IH]) auto
  then show ?case
    unfolding read_many.simps by (intro and_then_safe [OF assms]) (auto split: prod.split)
qed simp

lemma read_many_length:
  "read_many item n bs = Some (Inr (xs, rest)) \<Longrightarrow> length xs = n"
  by (induction n arbitrary: bs xs) (auto simp: and_then_Ok)

end
