(* ===== verification/Codec.thy ===== *)
theory Codec
  imports Prelude
begin

text \<open>
  The error codes of the codecs (\<open>appwarrior/core/decode_error.h\<close>,
  \<open>encode_error.h\<close>) and the contracts the codecs of the program share, as locales: a
  message codec, one whose accepted byte strings are exactly its encodings, one with a fixed
  size, and the codec of an element inside a container.  Each component interprets the
  locales on its own encode and decode functions.
\<close>

datatype DecodeError =
    truncated
  | trailing_bytes
  | invalid_integer_field_size
  | wrong_format_tag
  | unsupported_version

datatype EncodeError =
    element_too_large
  | count_too_large
  | string_too_long

section \<open>Message codecs\<close>

locale codec =
  fixes enc :: "'a \<Rightarrow> EncodeError + bytes"
    and dec :: "bytes \<Rightarrow> (DecodeError, 'a) checked"
    and ok :: "'a \<Rightarrow> bool"
  assumes enc_total: "ok x \<Longrightarrow> \<exists>bs. enc x = Inr bs"
    and dec_enc: "ok x \<Longrightarrow> enc x = Inr bs \<Longrightarrow> dec bs = Some (Inr x)"
    and dec_safe: "dec bs \<noteq> None"
    and dec_extended: "ok x \<Longrightarrow> enc x = Inr bs \<Longrightarrow> xs \<noteq> []
      \<Longrightarrow> dec (bs @ xs) = Some (Inl trailing_bytes)"
begin

lemma enc_inj: "ok x \<Longrightarrow> ok y \<Longrightarrow> enc x = Inr bs \<Longrightarrow> enc y = Inr bs \<Longrightarrow> x = y"
  using dec_enc by (metis option.inject sum.inject(2))

lemma enc_prefix_free:
  assumes "ok x" "ok y" "enc x = Inr bs" "enc y = Inr (bs @ xs)"
  shows "xs = []"
proof (rule ccontr)
  assume "xs \<noteq> []"
  with assms have "dec (bs @ xs) = Some (Inl trailing_bytes)" by (blast intro: dec_extended)
  moreover from assms have "dec (bs @ xs) = Some (Inr y)" by (blast intro: dec_enc)
  ultimately show False by simp
qed

end

text \<open>
  A canonical codec accepts no byte string but the encodings: every accepted message has one
  wire form, so a message cut short is always rejected.
\<close>

locale canonical_codec = codec +
  assumes enc_dec: "dec bs = Some (Inr x) \<Longrightarrow> ok x \<and> enc x = Inr bs"
begin

lemma accepts_iff: "dec bs = Some (Inr x) \<longleftrightarrow> ok x \<and> enc x = Inr bs"
  using dec_enc enc_dec by blast

lemma cut_short_rejected:
  assumes "ok x" "enc x = Inr (bs @ xs)" "xs \<noteq> []"
  shows "\<exists>e. dec bs = Some (Inl e)"
proof (cases "dec bs")
  case None
  then show ?thesis using dec_safe by blast
next
  case (Some r)
  show ?thesis
  proof (cases r)
    case (Inl e)
    with Some show ?thesis by blast
  next
    case (Inr y)
    with Some have "ok y" "enc y = Inr bs" using enc_dec by blast+
    with assms have "xs = []" by (blast intro: enc_prefix_free)
    with assms(3) show ?thesis by blast
  qed
qed

end

section \<open>Fixed-size codecs\<close>

text \<open>
  The fixed-size messages (transaction header, handshakes, access mask, time stamp, GUID)
  all have a total encoder into exactly \<open>n\<close> bytes, a total decoder from exactly \<open>n\<close>
  bytes, and a dynamic-size decoder that checks the size first.
\<close>

definition try_fixed :: "nat \<Rightarrow> (bytes \<Rightarrow> 'a) \<Rightarrow> bytes \<Rightarrow> (DecodeError, 'a) checked" where
  "try_fixed n decode bs =
     (if length bs < n then Some (Inl truncated)
      else if length bs > n then Some (Inl trailing_bytes)
      else do { b \<leftarrow> span_first n bs; Some (Inr (decode b)) })"

lemma try_fixed_exact: "length bs = n \<Longrightarrow> try_fixed n decode bs = Some (Inr (decode bs))"
  by (simp add: try_fixed_def span_simps)

lemma try_fixed_Ok: "try_fixed n decode bs = Some (Inr x) \<longleftrightarrow> length bs = n \<and> x = decode bs"
  by (auto simp: try_fixed_def span_simps)

locale fixed_codec =
  fixes n :: nat and encode :: "'a \<Rightarrow> bytes" and decode :: "bytes \<Rightarrow> 'a"
    and ok :: "'a \<Rightarrow> bool"
  assumes length_encode: "ok x \<Longrightarrow> length (encode x) = n"
    and decode_encode: "ok x \<Longrightarrow> decode (encode x) = x"
    and ok_decode: "length bs = n \<Longrightarrow> ok (decode bs)"
    and encode_decode: "length bs = n \<Longrightarrow> encode (decode bs) = bs"

sublocale fixed_codec \<subseteq> fixed: canonical_codec
  "\<lambda>x. Inr (encode x)" "try_fixed n decode" ok
proof (unfold_locales, goal_cases)
  case (1 x)
  then show ?case by simp
next
  case (2 x bs)
  then show ?case by (auto simp: try_fixed_Ok length_encode decode_encode)
next
  case (3 bs)
  then show ?case by (simp add: try_fixed_def span_first_def)
next
  case (4 x bs xs)
  then have "length bs = n" using length_encode by auto
  then show ?case using 4 by (simp add: try_fixed_def)
next
  case (5 bs x)
  then show ?case by (auto simp: try_fixed_Ok ok_decode encode_decode)
qed

context fixed_codec
begin

lemma accepts_exactly: "try_fixed n decode bs = Some (Inr x) \<longleftrightarrow> ok x \<and> bs = encode x"
  using fixed.accepts_iff by auto

lemma error_cases:
  "try_fixed n decode bs = Some (Inl e) \<longleftrightarrow>
     (length bs < n \<and> e = truncated) \<or> (length bs > n \<and> e = trailing_bytes)"
  by (auto simp: try_fixed_def span_simps)

end

section \<open>Elements of a container\<close>

text \<open>
  The body of a decoding loop: it takes one element off the front of the span and leaves the
  rest.  \<open>element\<close> is the contract the round trip of a container needs, and
  \<open>canonical_element\<close> adds that nothing but encoded elements is accepted.
\<close>

locale element =
  fixes emit :: "'a \<Rightarrow> bytes"
    and item :: "bytes \<Rightarrow> (DecodeError, 'a \<times> bytes) checked"
    and ok :: "'a \<Rightarrow> bool"
  assumes item_emit: "ok x \<Longrightarrow> item (emit x @ rest) = Some (Inr (x, rest))"
    and item_safe: "item bs \<noteq> None"
begin

lemma many_emit:
  "list_all ok xs \<Longrightarrow>
   read_many item (length xs) (concat (map emit xs) @ rest) = Some (Inr (xs, rest))"
  by (induction xs) (simp_all add: item_emit)

lemma many_emit_all:
  "list_all ok xs \<Longrightarrow> read_many item (length xs) (concat (map emit xs)) = Some (Inr (xs, []))"
  using many_emit [of xs "[]"] by simp

lemma many_safe: "read_many item n bs \<noteq> None"
  by (rule read_many_safe) (rule item_safe)

end

locale canonical_element = element +
  assumes item_inv: "item bs = Some (Inr (x, rest)) \<Longrightarrow> ok x \<and> bs = emit x @ rest"
begin

lemma many_inv:
  "read_many item n bs = Some (Inr (xs, rest)) \<Longrightarrow>
   list_all ok xs \<and> length xs = n \<and> bs = concat (map emit xs) @ rest"
  by (induction n arbitrary: bs xs) (auto simp: and_then_Ok dest!: item_inv)

end

end
