(* ===== verification/Endian.thy ===== *)
theory Endian
  imports Codec
begin

unbundle bit_operations_syntax

text \<open>
  The byte-order helpers of \<open>appwarrior/core/endian.h\<close>.  A fixed-extent span argument
  \<open>std::span<const std::byte, n>\<close> is a list that the callers pass with length \<open>n\<close>;
  writing into an \<open>n\<close>-byte output span returns the \<open>n\<close> bytes.  The lemmas say that
  reading undoes writing, that writing undoes reading, and how long the output is; they are
  the rewrite rules of every codec above.
\<close>

section \<open>Reads and writes\<close>

definition read_u16be :: "bytes \<Rightarrow> u16" where
  "read_u16be b = push_bit 8 (ucast (b ! 0)) OR ucast (b ! 1)"

definition read_u32be :: "bytes \<Rightarrow> u32" where
  "read_u32be b =
     push_bit 24 (ucast (b ! 0)) OR push_bit 16 (ucast (b ! 1)) OR
     push_bit 8 (ucast (b ! 2)) OR ucast (b ! 3)"

definition read_u64be :: "bytes \<Rightarrow> u64" where
  "read_u64be b =
     push_bit 32 (ucast (read_u32be (take 4 b))) OR ucast (read_u32be (take 4 (drop 4 b)))"

definition read_u32le :: "bytes \<Rightarrow> u32" where
  "read_u32le b =
     ucast (b ! 0) OR push_bit 8 (ucast (b ! 1)) OR
     push_bit 16 (ucast (b ! 2)) OR push_bit 24 (ucast (b ! 3))"

definition write_u16be :: "u16 \<Rightarrow> bytes" where
  "write_u16be v = [ucast (drop_bit 8 v AND 0xFF), ucast (v AND 0xFF)]"

definition write_u32be :: "u32 \<Rightarrow> bytes" where
  "write_u32be v =
     [ucast (drop_bit 24 v AND 0xFF), ucast (drop_bit 16 v AND 0xFF),
      ucast (drop_bit 8 v AND 0xFF), ucast (v AND 0xFF)]"

definition write_u64be :: "u64 \<Rightarrow> bytes" where
  "write_u64be v = write_u32be (ucast (drop_bit 32 v)) @ write_u32be (ucast (v AND 0xFFFFFFFF))"

definition write_u32le :: "u32 \<Rightarrow> bytes" where
  "write_u32le v =
     [ucast (v AND 0xFF), ucast (drop_bit 8 v AND 0xFF),
      ucast (drop_bit 16 v AND 0xFF), ucast (drop_bit 24 v AND 0xFF)]"

definition four_cc :: "char \<Rightarrow> char \<Rightarrow> char \<Rightarrow> char \<Rightarrow> u32" where
  "four_cc c0 c1 c2 c3 =
     push_bit 24 (ucast (byte_of_char c0)) OR push_bit 16 (ucast (byte_of_char c1)) OR
     push_bit 8 (ucast (byte_of_char c2)) OR ucast (byte_of_char c3)"

section \<open>Lengths and round trips\<close>

lemma length_write [simp]:
  "length (write_u16be v) = 2" "length (write_u32be w) = 4"
  "length (write_u64be x) = 8" "length (write_u32le w) = 4"
  by (simp_all add: write_u16be_def write_u32be_def write_u64be_def write_u32le_def)

lemma mask_low: "(0xFF :: 'n::len word) = mask 8" "(0xFFFFFFFF :: 'n::len word) = mask 32"
  by (simp_all add: mask_eq_exp_minus_1)

lemma octet_cases:
  assumes "n < LENGTH(32)"
  obtains "n < 8" | k where "k < 8" "n = 8 + k" | k where "k < 8" "n = 16 + k"
    | k where "k < 8" "n = 24 + k"
proof -
  from assms consider "n < 8" | "8 \<le> n" "n < 16" | "16 \<le> n" "n < 24" | "24 \<le> n" "n < 32"
    by force
  then show ?thesis
    using that(1) that(2) [of "n - 8"] that(3) [of "n - 16"] that(4) [of "n - 24"]
    by cases auto
qed

lemma read_write_u16be [simp]: "read_u16be (write_u16be v) = v"
  unfolding read_u16be_def write_u16be_def mask_low
  by (rule bit_word_eqI) (auto simp: bit_simps)

lemma read_write_u32be [simp]: "read_u32be (write_u32be v) = v"
  unfolding read_u32be_def write_u32be_def mask_low
  by (rule bit_word_eqI, erule octet_cases) (auto simp: bit_simps)

lemma read_write_u32le [simp]: "read_u32le (write_u32le v) = v"
  unfolding read_u32le_def write_u32le_def mask_low
  by (rule bit_word_eqI, erule octet_cases) (auto simp: bit_simps)

lemma read_write_u64be [simp]: "read_u64be (write_u64be v) = v"
  unfolding read_u64be_def write_u64be_def mask_low
  by (rule bit_word_eqI) (auto simp: bit_simps)

lemma not_bit_byte: "8 \<le> n \<Longrightarrow> \<not> bit (b :: byte) n"
  using bit_imp_le_length [of b n] by auto

lemma length2_list: "length bs = 2 \<Longrightarrow> bs = [bs ! 0, bs ! 1]"
  by (auto simp: numeral_2_eq_2 length_Suc_conv)

lemma length4_list: "length bs = 4 \<Longrightarrow> bs = [bs ! 0, bs ! 1, bs ! 2, bs ! 3]"
  by (auto simp: numeral_eq_Suc length_Suc_conv)

lemma write_read_u16be [simp]:
  assumes "length bs = 2"
  shows "write_u16be (read_u16be bs) = bs"
proof -
  have "write_u16be (read_u16be [a, b]) = [a, b]" for a b
    unfolding read_u16be_def write_u16be_def mask_low
    by (auto intro!: bit_word_eqI simp: bit_simps not_bit_byte)
  then show ?thesis using length2_list [OF assms] by metis
qed

lemma write_read_u32be [simp]:
  assumes "length bs = 4"
  shows "write_u32be (read_u32be bs) = bs"
proof -
  have "write_u32be (read_u32be [a, b, c, d]) = [a, b, c, d]" for a b c d
    unfolding read_u32be_def write_u32be_def mask_low
    by (auto intro!: bit_word_eqI simp: bit_simps not_bit_byte)
  then show ?thesis using length4_list [OF assms] by metis
qed

lemma write_read_u32le [simp]:
  assumes "length bs = 4"
  shows "write_u32le (read_u32le bs) = bs"
proof -
  have "write_u32le (read_u32le [a, b, c, d]) = [a, b, c, d]" for a b c d
    unfolding read_u32le_def write_u32le_def mask_low
    by (auto intro!: bit_word_eqI simp: bit_simps not_bit_byte)
  then show ?thesis using length4_list [OF assms] by metis
qed

lemma write_read_u64be [simp]:
  assumes "length bs = 8"
  shows "write_u64be (read_u64be bs) = bs"
proof -
  have hi: "ucast (drop_bit 32 (push_bit 32 (ucast h) OR ucast l :: u64)) = h" for h l :: u32
    by (rule bit_word_eqI) (auto simp: bit_simps dest: bit_imp_le_length)
  have lo: "ucast ((push_bit 32 (ucast h) OR ucast l :: u64) AND 0xFFFFFFFF) = l" for h l :: u32
    unfolding mask_low by (rule bit_word_eqI) (auto simp: bit_simps)
  have "write_u64be (read_u64be bs) = take 4 bs @ take 4 (drop 4 bs)"
    unfolding write_u64be_def read_u64be_def hi lo using assms by simp
  then show ?thesis using assms by (simp flip: take_add)
qed

text \<open>Little-endian and big-endian readings of the same bytes are byte reversals.\<close>

lemma read_u32le_rev: "length bs = 4 \<Longrightarrow> read_u32le (rev bs) = read_u32be bs"
  by (subst (1 2) length4_list)
    (auto simp: read_u32le_def read_u32be_def rev_nth ac_simps)

lemma byte_of_low_16 [simp]: "ucast (ucast (b :: byte) :: u16) = b"
  by (rule bit_word_eqI) (auto simp: bit_simps)

section \<open>Reads from a span, as the decoders perform them\<close>

text \<open>\<open>read_u16be(bytes.subspan(off).first<2>())\<close> and its 32-bit companions.\<close>

definition u16be_at :: "nat \<Rightarrow> bytes \<Rightarrow> u16 option" where
  "u16be_at off bs = do { s \<leftarrow> span_from off bs; t \<leftarrow> span_first 2 s; Some (read_u16be t) }"

definition u32be_at :: "nat \<Rightarrow> bytes \<Rightarrow> u32 option" where
  "u32be_at off bs = do { s \<leftarrow> span_from off bs; t \<leftarrow> span_first 4 s; Some (read_u32be t) }"

definition u32le_at :: "nat \<Rightarrow> bytes \<Rightarrow> u32 option" where
  "u32le_at off bs = do { s \<leftarrow> span_from off bs; t \<leftarrow> span_first 4 s; Some (read_u32le t) }"

lemma u16be_at_in [span_simps]:
  "off + 2 \<le> length bs \<Longrightarrow> u16be_at off bs = Some (read_u16be (take 2 (drop off bs)))"
  by (simp add: u16be_at_def span_from_def span_first_def)

lemma u32be_at_in [span_simps]:
  "off + 4 \<le> length bs \<Longrightarrow> u32be_at off bs = Some (read_u32be (take 4 (drop off bs)))"
  by (simp add: u32be_at_def span_from_def span_first_def)

lemma u32le_at_in [span_simps]:
  "off + 4 \<le> length bs \<Longrightarrow> u32le_at off bs = Some (read_u32le (take 4 (drop off bs)))"
  by (simp add: u32le_at_def span_from_def span_first_def)

text \<open>Slices that end where a written integer ends.\<close>

lemma take_write [simp]:
  "take 2 (write_u16be v @ ys) = write_u16be v" "take 4 (write_u32be w @ ys) = write_u32be w"
  "take 8 (write_u64be x @ ys) = write_u64be x" "take 4 (write_u32le w @ ys) = write_u32le w"
  "take 2 (write_u16be v) = write_u16be v" "take 4 (write_u32be w) = write_u32be w"
  "take 8 (write_u64be x) = write_u64be x" "take 4 (write_u32le w) = write_u32le w"
  by (simp_all add: take_append_exact)

end
