(* ===== verification/Net_Address.thy ===== *)
theory Net_Address
  imports Endian
begin

unbundle bit_operations_syntax

text \<open>
  IP addresses and their text form (\<open>appwarrior/net/address.h\<close>, \<open>address.cpp\<close>) and the
  error codes of the networking layer (\<open>net_error.h\<close>).  A \<open>std::string_view\<close> is a
  \<open>string\<close>; \<open>npos\<close> is \<^const>\<open>None\<close>.
\<close>

datatype NetError =
    would_block
  | interrupted
  | connection_closed
  | connection_refused
  | address_in_use
  | invalid_argument
  | net_system

datatype Family = Ipv4 | Ipv6

record ip_address =
  ip_family :: Family
  ip_bytes :: "u8 list"
  ip_port :: u16
  ip_scope_id :: u32

text \<open>\<open>std::array<std::uint8_t, 16> bytes_\<close> has sixteen elements; the IPv4 constructor fills four.\<close>

definition ipv4_address :: "u8 \<Rightarrow> u8 \<Rightarrow> u8 \<Rightarrow> u8 \<Rightarrow> u16 \<Rightarrow> ip_address" where
  "ipv4_address a b c d port = \<lparr> ip_family = Ipv4, ip_bytes = [a, b, c, d] @ replicate 12 0,
     ip_port = port, ip_scope_id = 0 \<rparr>"

definition ipv6_address :: "u8 list \<Rightarrow> u16 \<Rightarrow> u32 \<Rightarrow> ip_address" where
  "ipv6_address bs port scope_id = \<lparr> ip_family = Ipv6, ip_bytes = bs, ip_port = port,
     ip_scope_id = scope_id \<rparr>"

definition ip_octets :: "ip_address \<Rightarrow> u8 list" where
  "ip_octets a = [ip_bytes a ! 0, ip_bytes a ! 1, ip_bytes a ! 2, ip_bytes a ! 3]"

definition network_address :: "ip_address \<Rightarrow> u32" where
  "network_address a =
     push_bit 24 (ucast (ip_bytes a ! 0)) OR push_bit 16 (ucast (ip_bytes a ! 1)) OR
     push_bit 8 (ucast (ip_bytes a ! 2)) OR ucast (ip_bytes a ! 3)"

section \<open>Parsing\<close>

definition digit_value :: "char \<Rightarrow> nat option" where
  "digit_value c =
     (if 48 \<le> (of_char c :: nat) \<and> (of_char c :: nat) \<le> 57 then Some (of_char c - 48) else None)"

text \<open>\<open>std::from_chars\<close> on an unsigned integer reads the longest run of decimal digits; the
  caller accepts it only when it ends at the end of the text, so the run is the whole text.\<close>

fun decimal_value :: "nat \<Rightarrow> string \<Rightarrow> nat option" where
  "decimal_value acc [] = Some acc"
| "decimal_value acc (c # cs) =
     (case digit_value c of None \<Rightarrow> None | Some d \<Rightarrow> decimal_value (acc * 10 + d) cs)"

definition parse_port :: "string \<Rightarrow> nat option" where
  "parse_port text =
     (if text = [] \<or> length text > 5 then None
      else case decimal_value 0 text of
             None \<Rightarrow> None
           | Some out \<Rightarrow> (if out \<le> 65535 then Some out else None))"

text \<open>The loop over the characters of a dotted host; the array of octets grows by one per dot.\<close>

fun ipv4_loop :: "string \<Rightarrow> u8 list \<Rightarrow> nat \<Rightarrow> bool \<Rightarrow> u8 list option" where
  "ipv4_loop [] octets value in_number =
     (if \<not> in_number \<or> length octets \<noteq> 3 then None else Some (octets @ [word_of_nat value]))"
| "ipv4_loop (c # cs) octets value in_number =
     (if c = CHR ''.'' then
        (if \<not> in_number \<or> length octets \<ge> 3 then None
         else ipv4_loop cs (octets @ [word_of_nat value]) 0 False)
      else case digit_value c of
             None \<Rightarrow> None
           | Some d \<Rightarrow> (let value = value * 10 + d in
               if value > 255 then None else ipv4_loop cs octets value True))"

definition parse_ipv4_host :: "string \<Rightarrow> u8 list option" where
  "parse_ipv4_host host = ipv4_loop host [] 0 False"

definition hex_value :: "char \<Rightarrow> nat option" where
  "hex_value c =
     (let n = (of_char c :: nat) in
      if 48 \<le> n \<and> n \<le> 57 then Some (n - 48)
      else if 97 \<le> n \<and> n \<le> 102 then Some (n - 97 + 10)
      else if 65 \<le> n \<and> n \<le> 70 then Some (n - 65 + 10)
      else None)"

fun group_value :: "u16 \<Rightarrow> string \<Rightarrow> u16 option" where
  "group_value value [] = Some value"
| "group_value value (c # cs) =
     (case hex_value c of None \<Rightarrow> None
      | Some nibble \<Rightarrow> group_value (push_bit 4 value OR word_of_nat nibble) cs)"

text \<open>
  \<open>parse_groups\<close>: one turn of the loop takes the text up to the next colon.  The groups read
  so far stand for the array and its count.
\<close>

function groups_loop :: "string \<Rightarrow> u16 list \<Rightarrow> u16 list option" where
  "groups_loop part groups =
     (let group = takeWhile (\<lambda>c. c \<noteq> CHR '':'') part;
          after = dropWhile (\<lambda>c. c \<noteq> CHR '':'') part in
      if group = [] \<or> length group > 4 then None
      else if length groups \<ge> 8 then None
      else case group_value 0 group of
             None \<Rightarrow> None
           | Some value \<Rightarrow>
               (case after of
                  [] \<Rightarrow> Some (groups @ [value])
                | colon # rest \<Rightarrow> if rest = [] then None else groups_loop rest (groups @ [value])))"
  by pat_completeness auto
termination
proof (relation "measure (\<lambda>(part, groups). length part)", goal_cases)
  case (2 part groups group after v colon rest)
  have "length after \<le> length part" unfolding 2(2) by (rule length_dropWhile_le)
  then show ?case using 2(6) by simp
qed simp

declare groups_loop.simps [simp del]

definition parse_groups :: "string \<Rightarrow> u16 list option" where
  "parse_groups part = (if part = [] then Some [] else groups_loop part [])"

text \<open>\<open>host.find("::")\<close>: the text before the first occurrence and the text after it.\<close>

fun split_compression :: "string \<Rightarrow> (string \<times> string) option" where
  "split_compression (a # b # cs) =
     (if a = CHR '':'' \<and> b = CHR '':'' then Some ([], cs)
      else map_option (\<lambda>(h, t). (a # h, t)) (split_compression (b # cs)))"
| "split_compression s = None"

definition group_bytes :: "u16 list \<Rightarrow> u8 list" where
  "group_bytes gs = concat (map (\<lambda>g. [ucast (drop_bit 8 g), ucast (g AND 0xFF)]) gs)"

definition parse_ipv6_host :: "string \<Rightarrow> u8 list option" where
  "parse_ipv6_host host =
     (case split_compression host of
        None \<Rightarrow>
          (case parse_groups host of
             None \<Rightarrow> None
           | Some gs \<Rightarrow> if length gs \<noteq> 8 then None else Some (group_bytes gs))
      | Some (head, tail) \<Rightarrow>
          (case parse_groups head of
             None \<Rightarrow> None
           | Some hs \<Rightarrow>
               (case parse_groups tail of
                  None \<Rightarrow> None
                | Some ts \<Rightarrow>
                    if length hs + length ts > 7 then None
                    else Some (group_bytes (hs @ replicate (8 - length hs - length ts) 0 @ ts)))))"

text \<open>\<open>text.find(c)\<close>: the text before the first \<open>c\<close> and the text after it.\<close>

definition split_first :: "char \<Rightarrow> string \<Rightarrow> (string \<times> string) option" where
  "split_first c s =
     (case dropWhile (\<lambda>x. x \<noteq> c) s of [] \<Rightarrow> None | _ # after \<Rightarrow> Some (takeWhile (\<lambda>x. x \<noteq> c) s, after))"

text \<open>\<open>text.rfind(c)\<close>: the text before the last \<open>c\<close> and the text after it.\<close>

definition split_last :: "char \<Rightarrow> string \<Rightarrow> (string \<times> string) option" where
  "split_last c s = map_option (\<lambda>(a, b). (rev b, rev a)) (split_first c (rev s))"

definition from_text :: "string \<Rightarrow> NetError + ip_address" where
  "from_text text =
     (if take 1 text = ''['' then
        (case split_first CHR '']'' text of
           None \<Rightarrow> Inl invalid_argument
         | Some (pre, remainder) \<Rightarrow>
             (let host = drop 1 pre;
                  port = (if remainder = [] then Some 0
                    else if take 1 remainder \<noteq> '':'' then None else parse_port (drop 1 remainder)) in
              case port of
                None \<Rightarrow> Inl invalid_argument
              | Some p \<Rightarrow>
                  (case parse_ipv6_host host of
                     None \<Rightarrow> Inl invalid_argument
                   | Some bs \<Rightarrow> Inr (ipv6_address bs (word_of_nat p) 0))))
      else
        (let host_port =
           (case split_last CHR '':'' text of
              None \<Rightarrow> Some (text, 0)
            | Some (pre, suffix) \<Rightarrow>
                if suffix \<noteq> [] \<and> (\<forall>c\<in>set suffix. digit_value c \<noteq> None) \<and> CHR '':'' \<notin> set pre then
                  (case parse_port suffix of None \<Rightarrow> None | Some p \<Rightarrow> Some (pre, p))
                else Some (text, 0)) in
         case host_port of
           None \<Rightarrow> Inl invalid_argument
         | Some (host, port) \<Rightarrow>
             if CHR ''.'' \<in> set host then
               (case parse_ipv4_host host of
                  None \<Rightarrow> Inl invalid_argument
                | Some o4 \<Rightarrow> Inr (ipv4_address (o4 ! 0) (o4 ! 1) (o4 ! 2) (o4 ! 3) (word_of_nat port)))
             else
               (case parse_ipv6_host host of
                  None \<Rightarrow> Inl invalid_argument
                | Some bs \<Rightarrow> Inr (ipv6_address bs (word_of_nat port) 0))))"

section \<open>Printing\<close>

text \<open>\<open>std::format("{}", n)\<close> and \<open>std::format("{:x}", n)\<close>.\<close>

definition digit_char :: "nat \<Rightarrow> char" where
  "digit_char d = char_of (if d < 10 then 48 + d else 87 + d)"

fun digits_in :: "nat \<Rightarrow> nat \<Rightarrow> string" where
  "digits_in base n =
     (if base < 2 \<or> n < base then [digit_char n] else digits_in base (n div base) @ [digit_char (n mod base)])"

declare digits_in.simps [simp del]

definition address_groups :: "u8 list \<Rightarrow> u16 list" where
  "address_groups bs = map (\<lambda>i. push_bit 8 (ucast (bs ! (i * 2))) OR ucast (bs ! (i * 2 + 1))) [0..<8]"

text \<open>The search for the longest run of zero groups: \<open>(best_start, best_length)\<close>.\<close>

function longest_zero_run :: "u16 list \<Rightarrow> nat \<Rightarrow> nat \<times> nat \<Rightarrow> nat \<times> nat" where
  "longest_zero_run groups run_start best =
     (if run_start \<ge> 8 then best
      else if groups ! run_start \<noteq> 0 then longest_zero_run groups (run_start + 1) best
      else
        (let run_length = length (takeWhile (\<lambda>g. g = 0) (drop run_start groups));
             best' = (if run_length > snd best then (run_start, run_length) else best)
         in longest_zero_run groups (run_start + max 1 run_length) best'))"
  by pat_completeness auto
termination by (relation "measure (\<lambda>(groups, run_start, best). 8 - run_start)") auto

declare longest_zero_run.simps [simp del]

definition compressed_run :: "u16 list \<Rightarrow> nat \<times> nat" where
  "compressed_run groups =
     (let best = longest_zero_run groups 0 (0, 0) in if snd best < 2 then (8, 0) else best)"

function groups_text :: "u16 list \<Rightarrow> nat \<times> nat \<Rightarrow> nat \<Rightarrow> string" where
  "groups_text groups best i =
     (if i \<ge> 8 then []
      else if i = fst best then ''::'' @ groups_text groups best (i + max 1 (snd best))
      else (if i \<noteq> 0 \<and> i \<noteq> fst best + snd best then '':'' else []) @
        digits_in 16 (unat (groups ! i)) @ groups_text groups best (i + 1))"
  by pat_completeness auto
termination by (relation "measure (\<lambda>(groups, best, i). 8 - i)") auto

declare groups_text.simps [simp del]

definition to_text :: "ip_address \<Rightarrow> string" where
  "to_text a =
     (if ip_family a = Ipv4 then
        digits_in 10 (unat (ip_bytes a ! 0)) @ ''.'' @ digits_in 10 (unat (ip_bytes a ! 1)) @ ''.'' @
        digits_in 10 (unat (ip_bytes a ! 2)) @ ''.'' @ digits_in 10 (unat (ip_bytes a ! 3)) @ '':'' @
        digits_in 10 (unat (ip_port a))
      else
        (let groups = address_groups (ip_bytes a)
         in ''['' @ groups_text groups (compressed_run groups) 0 @ '']:'' @ digits_in 10 (unat (ip_port a))))"

end
