(* ===== verification/Net_Socket.thy ===== *)
theory Net_Socket
  imports Net_Address
begin

unbundle bit_operations_syntax

text \<open>
  Non-blocking sockets and listeners on POSIX (\<open>appwarrior/net/socket.h\<close>, the POSIX half of
  \<open>socket.cpp\<close>).  The operating system is not part of the program: a \<open>kernel\<close> is an
  arbitrary script of system-call results, handed out one per call, together with the trace of the
  calls made; when the script is used up every call fails with \<open>EAGAIN\<close>.  A statement about
  all kernels is a statement about every finite behaviour of the system.
\<close>

section \<open>System calls\<close>

datatype errno =
    EAGAIN | EINPROGRESS | EINTR | ECONNRESET | EPIPE | ENOTCONN | ECONNREFUSED | EADDRINUSE
  | EINVAL | EAFNOSUPPORT | Other_errno int

text \<open>A socket address as the code fills and reads it: \<open>sin_port\<close> and \<open>s_addr\<close> are the
  integers a host reads from the network-order memory.\<close>

datatype sockaddr =
    Sockaddr_in u16 u32
  | Sockaddr_in6 u16 "u8 list" u32

datatype sock_kind = Stream | Dgram
datatype socket_option = Tcp_no_delay bool | Ipv6_only bool | Reuse_addr bool

datatype sys_call =
    Call_socket Family sock_kind
  | Call_getfl int
  | Call_setfl int int
  | Call_setsockopt int socket_option
  | Call_bind int sockaddr
  | Call_connect int sockaddr
  | Call_listen int int
  | Call_accept int
  | Call_send int bytes
  | Call_recv int nat
  | Call_sendto int bytes sockaddr
  | Call_recvfrom int nat
  | Call_getsockname int
  | Call_getpeername int
  | Call_shutdown int
  | Call_close int
  | Call_socketpair
  | Call_poll "(int \<times> int) list" int

text \<open>A failed call and its \<open>errno\<close>, or a non-negative result with the bytes and the address
  the call stores, and further integers (descriptors, event masks).\<close>

datatype sys_result =
    Sys_error errno
  | Sys_value nat bytes sockaddr "int list"

record kernel =
  kn_little_endian :: bool
  kn_script :: "sys_result list"
  kn_trace :: "(sys_call \<times> sys_result) list"

definition sys :: "sys_call \<Rightarrow> kernel \<Rightarrow> sys_result \<times> kernel" where
  "sys call k =
     (case kn_script k of
        [] \<Rightarrow> (Sys_error EAGAIN, k\<lparr> kn_trace := kn_trace k @ [(call, Sys_error EAGAIN)] \<rparr>)
      | r # rs \<Rightarrow> (r, k\<lparr> kn_script := rs, kn_trace := kn_trace k @ [(call, r)] \<rparr>))"

definition from_error :: "errno \<Rightarrow> NetError" where
  "from_error e =
     (case e of
        EAGAIN \<Rightarrow> would_block
      | EINPROGRESS \<Rightarrow> would_block
      | EINTR \<Rightarrow> interrupted
      | ECONNRESET \<Rightarrow> connection_closed
      | EPIPE \<Rightarrow> connection_closed
      | ENOTCONN \<Rightarrow> connection_closed
      | ECONNREFUSED \<Rightarrow> connection_refused
      | EADDRINUSE \<Rightarrow> address_in_use
      | EINVAL \<Rightarrow> invalid_argument
      | EAFNOSUPPORT \<Rightarrow> invalid_argument
      | Other_errno n \<Rightarrow> net_system)"

text \<open>\<open>O_NONBLOCK\<close> of the platform is a bit of the flag word.\<close>

definition O_NONBLOCK :: int where "O_NONBLOCK = 2048"

definition set_non_blocking :: "int \<Rightarrow> kernel \<Rightarrow> (errno + unit) \<times> kernel" where
  "set_non_blocking fd k =
     (case sys (Call_getfl fd) k of
        (Sys_error e, k1) \<Rightarrow> (Inl e, k1)
      | (Sys_value flags _ _ _, k1) \<Rightarrow>
          (case sys (Call_setfl fd (int flags OR O_NONBLOCK)) k1 of
             (Sys_error e, k2) \<Rightarrow> (Inl e, k2)
           | (Sys_value _ _ _ _, k2) \<Rightarrow> (Inr (), k2)))"

section \<open>Addresses\<close>

definition swap16 :: "u16 \<Rightarrow> u16" where
  "swap16 w = push_bit 8 w OR drop_bit 8 w"

definition htons :: "bool \<Rightarrow> u16 \<Rightarrow> u16" where
  "htons little_endian w = (if little_endian then swap16 w else w)"

definition htonl :: "bool \<Rightarrow> u32 \<Rightarrow> u32" where
  "htonl little_endian w = (if little_endian then read_u32be (write_u32le w) else w)"

definition to_sockaddr :: "bool \<Rightarrow> ip_address \<Rightarrow> sockaddr" where
  "to_sockaddr le a =
     (if ip_family a = Ipv4 then Sockaddr_in (htons le (ip_port a)) (htonl le (network_address a))
      else Sockaddr_in6 (htons le (ip_port a)) (ip_bytes a) (ip_scope_id a))"

definition from_sockaddr :: "bool \<Rightarrow> sockaddr \<Rightarrow> ip_address" where
  "from_sockaddr le s =
     (case s of
        Sockaddr_in6 port bs scope \<Rightarrow> ipv6_address bs (htons le port) scope
      | Sockaddr_in port network \<Rightarrow>
          ipv4_address (ucast (network AND 0xFF)) (ucast (drop_bit 8 network AND 0xFF))
            (ucast (drop_bit 16 network AND 0xFF)) (ucast (drop_bit 24 network AND 0xFF)) (htons le port))"

section \<open>Sockets\<close>

text \<open>A \<open>Socket\<close> or \<open>Listener\<close> object is its descriptor; -1 is \<open>kInvalid\<close>.\<close>

type_synonym socket = int

definition kInvalid :: socket where "kInvalid = -1"

definition socket_is_open :: "socket \<Rightarrow> bool" where
  "socket_is_open s = (s \<noteq> kInvalid)"

text \<open>The body shared by the two \<open>create_tcp\<close>: a new descriptor is made non-blocking or closed.\<close>

definition open_descriptor :: "Family \<Rightarrow> sock_kind \<Rightarrow> kernel \<Rightarrow> (NetError + socket) \<times> kernel" where
  "open_descriptor family kind k =
     (case sys (Call_socket family kind) k of
        (Sys_error e, k1) \<Rightarrow> (Inl (from_error e), k1)
      | (Sys_value fd _ _ _, k1) \<Rightarrow>
          (case set_non_blocking (int fd) k1 of
             (Inl e, k2) \<Rightarrow> (let (_, k3) = sys (Call_close (int fd)) k2 in (Inl (from_error e), k3))
           | (Inr _, k2) \<Rightarrow> (Inr (int fd), k2)))"

definition socket_create_tcp :: "Family \<Rightarrow> kernel \<Rightarrow> (NetError + socket) \<times> kernel" where
  "socket_create_tcp family k = open_descriptor family Stream k"

definition dual_stack :: "Family \<Rightarrow> (NetError + socket) \<times> kernel \<Rightarrow> (NetError + socket) \<times> kernel" where
  "dual_stack family r =
     (case r of
        (Inl e, k) \<Rightarrow> (Inl e, k)
      | (Inr s, k) \<Rightarrow>
          if family = Ipv6 then (let (_, k') = sys (Call_setsockopt s (Ipv6_only False)) k in (Inr s, k'))
          else (Inr s, k))"

definition socket_create_udp :: "Family \<Rightarrow> kernel \<Rightarrow> (NetError + socket) \<times> kernel" where
  "socket_create_udp family k = dual_stack family (open_descriptor family Dgram k)"

definition socket_bind :: "socket \<Rightarrow> ip_address \<Rightarrow> kernel \<Rightarrow> (NetError + unit) \<times> kernel" where
  "socket_bind s a k =
     (if \<not> socket_is_open s then (Inl invalid_argument, k)
      else case sys (Call_bind s (to_sockaddr (kn_little_endian k) a)) k of
             (Sys_error e, k1) \<Rightarrow> (Inl (from_error e), k1)
           | (Sys_value _ _ _ _, k1) \<Rightarrow> (Inr (), k1))"

definition socket_connect :: "socket \<Rightarrow> ip_address \<Rightarrow> kernel \<Rightarrow> (NetError + unit) \<times> kernel" where
  "socket_connect s a k =
     (if \<not> socket_is_open s then (Inl invalid_argument, k)
      else case sys (Call_connect s (to_sockaddr (kn_little_endian k) a)) k of
             (Sys_error e, k1) \<Rightarrow> (Inl (from_error e), k1)
           | (Sys_value _ _ _ _, k1) \<Rightarrow> (Inr (), k1))"

text \<open>\<open>send\<close> and \<open>recv\<close> never report more than the size of the buffer they are given.\<close>

definition socket_send :: "socket \<Rightarrow> bytes \<Rightarrow> kernel \<Rightarrow> (NetError + nat) \<times> kernel" where
  "socket_send s buffer k =
     (if \<not> socket_is_open s \<or> buffer = [] then (Inl invalid_argument, k)
      else case sys (Call_send s buffer) k of
             (Sys_error e, k1) \<Rightarrow> (Inl (from_error e), k1)
           | (Sys_value written _ _ _, k1) \<Rightarrow> (Inr (min written (length buffer)), k1))"

text \<open>\<open>receive n\<close> fills the front of a buffer of \<open>n\<close> bytes; the result is what it filled.\<close>

definition socket_receive :: "socket \<Rightarrow> nat \<Rightarrow> kernel \<Rightarrow> (NetError + bytes) \<times> kernel" where
  "socket_receive s n k =
     (if \<not> socket_is_open s \<or> n = 0 then (Inl invalid_argument, k)
      else case sys (Call_recv s n) k of
             (Sys_error e, k1) \<Rightarrow> (Inl (from_error e), k1)
           | (Sys_value _ data _ _, k1) \<Rightarrow>
               (let got = take n data in
                if got = [] then (Inl connection_closed, k1) else (Inr got, k1)))"

definition socket_send_to :: "socket \<Rightarrow> ip_address \<Rightarrow> bytes \<Rightarrow> kernel \<Rightarrow> (NetError + nat) \<times> kernel" where
  "socket_send_to s destination buffer k =
     (if \<not> socket_is_open s then (Inl invalid_argument, k)
      else case sys (Call_sendto s buffer (to_sockaddr (kn_little_endian k) destination)) k of
             (Sys_error e, k1) \<Rightarrow> (Inl (from_error e), k1)
           | (Sys_value sent _ _ _, k1) \<Rightarrow> (Inr (min sent (length buffer)), k1))"

definition socket_receive_from :: "socket \<Rightarrow> nat \<Rightarrow> kernel \<Rightarrow> (NetError + bytes \<times> ip_address) \<times> kernel" where
  "socket_receive_from s n k =
     (if \<not> socket_is_open s \<or> n = 0 then (Inl invalid_argument, k)
      else case sys (Call_recvfrom s n) k of
             (Sys_error e, k1) \<Rightarrow> (Inl (from_error e), k1)
           | (Sys_value _ data source _, k1) \<Rightarrow>
               (Inr (take n data, from_sockaddr (kn_little_endian k) source), k1))"

definition socket_local_address :: "socket \<Rightarrow> kernel \<Rightarrow> (NetError + ip_address) \<times> kernel" where
  "socket_local_address s k =
     (case sys (Call_getsockname s) k of
        (Sys_error e, k1) \<Rightarrow> (Inl (from_error e), k1)
      | (Sys_value _ _ a _, k1) \<Rightarrow> (Inr (from_sockaddr (kn_little_endian k) a), k1))"

definition socket_remote_address :: "socket \<Rightarrow> kernel \<Rightarrow> (NetError + ip_address) \<times> kernel" where
  "socket_remote_address s k =
     (case sys (Call_getpeername s) k of
        (Sys_error e, k1) \<Rightarrow> (Inl (from_error e), k1)
      | (Sys_value _ _ a _, k1) \<Rightarrow> (Inr (from_sockaddr (kn_little_endian k) a), k1))"

definition socket_set_tcp_no_delay :: "socket \<Rightarrow> bool \<Rightarrow> kernel \<Rightarrow> kernel" where
  "socket_set_tcp_no_delay s enabled k = snd (sys (Call_setsockopt s (Tcp_no_delay enabled)) k)"

definition socket_shutdown :: "socket \<Rightarrow> kernel \<Rightarrow> kernel" where
  "socket_shutdown s k = (if socket_is_open s then snd (sys (Call_shutdown s) k) else k)"

definition socket_close :: "socket \<Rightarrow> kernel \<Rightarrow> socket \<times> kernel" where
  "socket_close s k = (if socket_is_open s then (kInvalid, snd (sys (Call_close s) k)) else (s, k))"

text \<open>Moving out of an object leaves it invalid; the result is the new object and the source.  The
  destructor closes.\<close>

definition socket_move :: "socket \<Rightarrow> socket \<times> socket" where
  "socket_move other = (other, kInvalid)"

definition socket_destroy :: "socket \<Rightarrow> kernel \<Rightarrow> kernel" where
  "socket_destroy s k = snd (socket_close s k)"

text \<open>Move assignment: the target closes what it holds and takes over the descriptor; the source
  is left invalid.  The result is target, source and kernel.\<close>

definition socket_move_assign :: "socket \<Rightarrow> socket \<Rightarrow> kernel \<Rightarrow> socket \<times> socket \<times> kernel" where
  "socket_move_assign target source k =
     (let (_, k1) = socket_close target k in (source, kInvalid, k1))"

section \<open>Listeners and pairs\<close>

definition listener_create_tcp :: "Family \<Rightarrow> kernel \<Rightarrow> (NetError + socket) \<times> kernel" where
  "listener_create_tcp family k = dual_stack family (open_descriptor family Stream k)"

definition listener_listen :: "socket \<Rightarrow> ip_address \<Rightarrow> int \<Rightarrow> kernel \<Rightarrow> (NetError + unit) \<times> kernel" where
  "listener_listen s a backlog k =
     (if s = kInvalid \<or> backlog < 1 then (Inl invalid_argument, k)
      else
        (let (_, k1) = sys (Call_setsockopt s (Reuse_addr True)) k in
         case sys (Call_bind s (to_sockaddr (kn_little_endian k) a)) k1 of
           (Sys_error e, k2) \<Rightarrow> (Inl (from_error e), k2)
         | (Sys_value _ _ _ _, k2) \<Rightarrow>
             (case sys (Call_listen s backlog) k2 of
                (Sys_error e, k3) \<Rightarrow> (Inl (from_error e), k3)
              | (Sys_value _ _ _ _, k3) \<Rightarrow> (Inr (), k3))))"

definition listener_accept :: "socket \<Rightarrow> kernel \<Rightarrow> (NetError + socket) \<times> kernel" where
  "listener_accept s k =
     (case sys (Call_accept s) k of
        (Sys_error e, k1) \<Rightarrow> (Inl (from_error e), k1)
      | (Sys_value fd _ _ _, k1) \<Rightarrow>
          (case set_non_blocking (int fd) k1 of
             (Inl e, k2) \<Rightarrow> (let (_, k3) = sys (Call_close (int fd)) k2 in (Inl (from_error e), k3))
           | (Inr _, k2) \<Rightarrow> (Inr (int fd), k2)))"

definition listener_local_address :: "socket \<Rightarrow> kernel \<Rightarrow> (NetError + ip_address) \<times> kernel" where
  "listener_local_address s k =
     (case sys (Call_getsockname s) k of
        (Sys_error e, k1) \<Rightarrow> (Inl (from_error e), k1)
      | (Sys_value _ _ a _, k1) \<Rightarrow> (Inr (from_sockaddr (kn_little_endian k) a), k1))"

definition listener_close :: "socket \<Rightarrow> kernel \<Rightarrow> socket \<times> kernel" where
  "listener_close s k = (if s \<noteq> kInvalid then (kInvalid, snd (sys (Call_close s) k)) else (s, k))"

text \<open>Listeners move and are destroyed as sockets are.\<close>

definition listener_move :: "socket \<Rightarrow> socket \<times> socket" where
  "listener_move other = (other, kInvalid)"

definition listener_move_assign :: "socket \<Rightarrow> socket \<Rightarrow> kernel \<Rightarrow> socket \<times> socket \<times> kernel" where
  "listener_move_assign target source k =
     (let (_, k1) = listener_close target k in (source, kInvalid, k1))"

definition listener_destroy :: "socket \<Rightarrow> kernel \<Rightarrow> kernel" where
  "listener_destroy s k = snd (listener_close s k)"

text \<open>\<open>!set_non_blocking(d0) || !set_non_blocking(d1)\<close> stops at the first failure.\<close>

definition make_socket_pair :: "kernel \<Rightarrow> (NetError + socket \<times> socket) \<times> kernel" where
  "make_socket_pair k =
     (case sys Call_socketpair k of
        (Sys_error e, k1) \<Rightarrow> (Inl (from_error e), k1)
      | (Sys_value d0 _ _ ds, k1) \<Rightarrow>
          (let fd0 = int d0; fd1 = hd (ds @ [-1]) in
           case (case set_non_blocking fd0 k1 of
                   (Inl e, k2) \<Rightarrow> (Inl e, k2)
                 | (Inr _, k2) \<Rightarrow> set_non_blocking fd1 k2) of
             (Inl e, k3) \<Rightarrow>
               (let (_, k4) = sys (Call_close fd0) k3; (_, k5) = sys (Call_close fd1) k4
                in (Inl (from_error e), k5))
           | (Inr _, k3) \<Rightarrow> (Inr (fd0, fd1), k3)))"

section \<open>Lemmas\<close>

lemma sys_trace: "sys c k = (r, k') \<Longrightarrow>
    kn_trace k' = kn_trace k @ [(c, r)] \<and> kn_little_endian k' = kn_little_endian k \<and>
    length (kn_script k') = length (kn_script k) - 1 \<and>
    (kn_script k = [] \<longrightarrow> r = Sys_error EAGAIN)"
  by (auto simp: sys_def split: list.splits)

lemma bit_swap: "read_u32be (write_u32le (read_u32be bs)) = read_u32le bs" if "length bs = 4"
proof -
  have "write_u32le (read_u32le (rev bs)) = rev bs" using that by simp
  then have "write_u32le (read_u32be bs) = rev bs" using that by (simp add: read_u32le_rev)
  then show ?thesis using that by (simp add: read_u32le_rev [of "rev bs", symmetric])
qed

lemma network_address_read: "network_address a = read_u32be (ip_octets a)"
  by (simp add: network_address_def read_u32be_def ip_octets_def)

lemma swap16_twice [simp]: "swap16 (swap16 w) = w"
  unfolding swap16_def by (rule bit_word_eqI) (auto simp: bit_simps dest: bit_imp_le_length)

lemma htons_twice [simp]: "htons le (htons le w) = w"
  by (simp add: htons_def)

lemma write_read_octets:
  "length bs = 4 \<Longrightarrow> [ucast (read_u32le bs AND 0xFF), ucast (drop_bit 8 (read_u32le bs) AND 0xFF),
      ucast (drop_bit 16 (read_u32le bs) AND 0xFF), ucast (drop_bit 24 (read_u32le bs) AND 0xFF)] = bs"
  using write_read_u32le [of bs] unfolding write_u32le_def .

text \<open>A well-formed address: sixteen bytes, and an IPv4 one uses four and has no scope.\<close>

definition address_ok :: "ip_address \<Rightarrow> bool" where
  "address_ok a \<longleftrightarrow> length (ip_bytes a) = 16 \<and>
     (ip_family a = Ipv4 \<longrightarrow> drop 4 (ip_bytes a) = replicate 12 0 \<and> ip_scope_id a = 0)"

lemma from_to_sockaddr:
  assumes "address_ok a"
  shows "from_sockaddr True (to_sockaddr True a) = a"
proof (cases "ip_family a")
  case Ipv4
  have oct: "ip_bytes a = ip_octets a @ replicate 12 0"
  proof -
    have "ip_octets a = take 4 (ip_bytes a)"
      using assms by (simp add: ip_octets_def address_ok_def take_Suc_conv_app_nth numeral_eq_Suc)
    then show ?thesis using assms Ipv4 append_take_drop_id [of 4 "ip_bytes a"] by (simp add: address_ok_def)
  qed
  have len: "length (ip_octets a) = 4" by (simp add: ip_octets_def)
  have "htonl True (network_address a) = read_u32le (ip_octets a)"
    unfolding htonl_def network_address_read using bit_swap [OF len] by simp
  then have "ip_bytes (from_sockaddr True (to_sockaddr True a)) = ip_octets a @ replicate 12 0"
    using Ipv4 write_read_octets [OF len]
    by (simp add: from_sockaddr_def to_sockaddr_def ipv4_address_def)
  then show ?thesis using Ipv4 assms oct
    by (simp add: from_sockaddr_def to_sockaddr_def ipv4_address_def address_ok_def)
next
  case Ipv6
  then show ?thesis by (simp add: from_sockaddr_def to_sockaddr_def ipv6_address_def)
qed

section \<open>The stream interface\<close>

text \<open>What a stream socket owes its user, whichever backend provides it: \<open>'h\<close> is the handle,
  \<open>'s\<close> the system.\<close>

locale stream_socket =
  fixes is_open :: "'h \<Rightarrow> bool"
    and send :: "'h \<Rightarrow> bytes \<Rightarrow> 's \<Rightarrow> (NetError + nat) \<times> 's"
    and receive :: "'h \<Rightarrow> nat \<Rightarrow> 's \<Rightarrow> (NetError + bytes) \<times> 's"
    and close :: "'h \<Rightarrow> 's \<Rightarrow> 'h \<times> 's"
  assumes send_bound: "send h b s = (Inr n, s') \<Longrightarrow> n \<le> length b"
    and receive_bound: "receive h m s = (Inr got, s') \<Longrightarrow> got \<noteq> [] \<and> length got \<le> m"
    and send_refused: "\<not> is_open h \<or> b = [] \<Longrightarrow> send h b s = (Inl invalid_argument, s)"
    and receive_refused: "\<not> is_open h \<or> m = 0 \<Longrightarrow> receive h m s = (Inl invalid_argument, s)"
    and close_closes: "\<not> is_open (fst (close h s))"
    and close_closed: "\<not> is_open h \<Longrightarrow> close h s = (h, s)"
begin

lemma sent_open: "send h b s = (Inr n, s') \<Longrightarrow> is_open h \<and> b \<noteq> []"
  using send_refused [of h b s] by (cases "\<not> is_open h \<or> b = []") simp_all

lemma received_open: "receive h m s = (Inr got, s') \<Longrightarrow> is_open h \<and> 0 < m"
  using receive_refused [of h m s] by (cases "\<not> is_open h \<or> m = 0") simp_all

lemma close_twice: "close h s = (h', s') \<Longrightarrow> close h' t = (h', t)"
  using close_closed [of h' t] close_closes [of h s] by simp

lemma closed_is_final:
  "close h s = (h', s') \<Longrightarrow> send h' b t = (Inl invalid_argument, t) \<and> receive h' m t = (Inl invalid_argument, t)"
  using close_closes [of h s] send_refused [of h' b t] receive_refused [of h' m t] by simp

text \<open>What is left to send after a partial send.\<close>

lemma remainder: "send h b s = (Inr n, s') \<Longrightarrow> take n b @ drop n b = b \<and> length (drop n b) + n = length b"
  using send_bound [of h b s n s'] by simp

end

interpretation posix: stream_socket socket_is_open socket_send socket_receive socket_close
proof (unfold_locales, goal_cases)
  case (1 h b s n s')
  then show ?case by (auto simp: socket_send_def split: if_splits prod.splits sys_result.splits)
next
  case (2 h m s got s')
  then show ?case
    by (auto simp: socket_receive_def Let_def split: if_splits prod.splits sys_result.splits)
qed (simp_all add: socket_send_def socket_receive_def socket_close_def socket_is_open_def)

section \<open>Descriptors opened and closed\<close>

text \<open>What a stretch of the trace opened and closed.\<close>

fun opened :: "(sys_call \<times> sys_result) list \<Rightarrow> int list" where
  "opened [] = []"
| "opened ((Call_socket f t, Sys_value fd _ _ _) # es) = int fd # opened es"
| "opened ((Call_accept s, Sys_value fd _ _ _) # es) = int fd # opened es"
| "opened ((Call_socketpair, Sys_value fd _ _ ds) # es) = int fd # hd (ds @ [-1]) # opened es"
| "opened (_ # es) = opened es"

fun closed :: "(sys_call \<times> sys_result) list \<Rightarrow> int list" where
  "closed [] = []"
| "closed ((Call_close fd, _) # es) = fd # closed es"
| "closed (_ # es) = closed es"

lemma opened_append [simp]: "opened (xs @ ys) = opened xs @ opened ys"
  by (induction xs rule: opened.induct) auto

lemma closed_append [simp]: "closed (xs @ ys) = closed xs @ closed ys"
  by (induction xs rule: closed.induct) auto

lemma sys_event: "sys c k = (r, k') \<Longrightarrow> kn_trace k' = kn_trace k @ [(c, r)]"
  using sys_trace by blast

lemma set_non_blocking_event:
  assumes "set_non_blocking fd k = (r, k')"
  shows "\<exists>d. kn_trace k' = kn_trace k @ d \<and> opened d = [] \<and> closed d = []"
  using assms
  by (auto simp: set_non_blocking_def split: prod.splits sys_result.splits dest!: sys_event)

text \<open>What a constructor of descriptors promises: one open descriptor more on success, none on
  failure.\<close>

definition accounts :: "(NetError + socket) \<times> kernel \<Rightarrow> kernel \<Rightarrow> bool" where
  "accounts r k \<longleftrightarrow> (\<exists>d. kn_trace (snd r) = kn_trace k @ d \<and>
     (case fst r of Inr s \<Rightarrow> opened d = [s] \<and> closed d = [] | Inl e \<Rightarrow> opened d = closed d))"

lemma open_descriptor_accounts: "accounts (open_descriptor family kind k) k"
proof -
  obtain r k1 where 1: "sys (Call_socket family kind) k = (r, k1)" by force
  show ?thesis
  proof (cases r)
    case (Sys_error e)
    with sys_event [OF 1] show ?thesis by (simp add: accounts_def open_descriptor_def 1)
  next
    case (Sys_value fd x y z)
    obtain q k2 where 2: "set_non_blocking (int fd) k1 = (q, k2)" by force
    obtain q3 k3 where 3: "sys (Call_close (int fd)) k2 = (q3, k3)" by force
    from set_non_blocking_event [OF 2] sys_event [OF 1] sys_event [OF 3] Sys_value show ?thesis
      by (cases q) (auto simp: accounts_def open_descriptor_def 1 2 3)
  qed
qed

lemma dual_stack_accounts: "accounts r k \<Longrightarrow> accounts (dual_stack family r) k"
proof -
  assume a: "accounts r k"
  obtain q k1 where r: "r = (q, k1)" by (cases r)
  show ?thesis
  proof (cases q)
    case (Inr s)
    obtain q2 k2 where 2: "sys (Call_setsockopt s (Ipv6_only False)) k1 = (q2, k2)" by force
    from a sys_event [OF 2] Inr show ?thesis by (auto simp: accounts_def dual_stack_def r 2)
  qed (use a in \<open>simp add: accounts_def dual_stack_def r\<close>)
qed

lemma listener_accept_accounts: "accounts (listener_accept s k) k"
proof -
  obtain r k1 where 1: "sys (Call_accept s) k = (r, k1)" by force
  show ?thesis
  proof (cases r)
    case (Sys_error e)
    with sys_event [OF 1] show ?thesis by (simp add: accounts_def listener_accept_def 1)
  next
    case (Sys_value fd x y z)
    obtain q k2 where 2: "set_non_blocking (int fd) k1 = (q, k2)" by force
    obtain q3 k3 where 3: "sys (Call_close (int fd)) k2 = (q3, k3)" by force
    from set_non_blocking_event [OF 2] sys_event [OF 1] sys_event [OF 3] Sys_value show ?thesis
      by (cases q) (auto simp: accounts_def listener_accept_def 1 2 3)
  qed
qed

section \<open>Properties\<close>

text \<open>No constructor of sockets leaks a descriptor: whatever the system answers, a call that
  succeeds leaves exactly the descriptor it returns open, and a call that fails has closed
  everything it opened.\<close>

theorem descriptors_accounted:
  "accounts (socket_create_tcp family k) k \<and> accounts (socket_create_udp family k) k \<and>
   accounts (listener_create_tcp family k) k \<and> accounts (listener_accept s k) k"
  by (simp add: socket_create_tcp_def socket_create_udp_def listener_create_tcp_def
      open_descriptor_accounts dual_stack_accounts listener_accept_accounts)

text \<open>A stream send on an open socket makes one call with the whole buffer and reports at most
  its size; a receive reports between one byte and the size of its buffer, and an orderly shutdown
  of the peer as a closed connection; on a closed socket or an empty buffer neither makes a
  call.\<close>

theorem stream_io_contract:
  "(socket_send s buffer k = (Inr n, k') \<longrightarrow>
      n \<le> length buffer \<and> (\<exists>r. kn_trace k' = kn_trace k @ [(Call_send s buffer, r)])) \<and>
   (socket_receive s m k = (Inr got, k') \<longrightarrow> got \<noteq> [] \<and> length got \<le> m) \<and>
   (sys (Call_recv s m) k = (Sys_value 0 [] a ds, k') \<longrightarrow> socket_is_open s \<longrightarrow> m \<noteq> 0 \<longrightarrow>
      socket_receive s m k = (Inl connection_closed, k')) \<and>
   (\<not> socket_is_open s \<longrightarrow> socket_send s buffer k = (Inl invalid_argument, k)
      \<and> socket_receive s m k = (Inl invalid_argument, k))"
  by (auto simp: socket_send_def socket_receive_def Let_def split: if_splits prod.splits
      sys_result.splits dest!: sys_event)

theorem stream_io_contract_witness:
  "socket_send 3 [1, 2, 3] \<lparr> kn_little_endian = True, kn_script = [Sys_value 2 [] (Sockaddr_in 0 0) []],
      kn_trace = [] \<rparr> = (Inr 2, \<lparr> kn_little_endian = True, kn_script = [],
        kn_trace = [(Call_send 3 [1, 2, 3], Sys_value 2 [] (Sockaddr_in 0 0) [])] \<rparr>) \<and> (2 :: nat) \<le> 3"
  using stream_io_contract [of 3 "[1, 2, 3]" "\<lparr> kn_little_endian = True,
      kn_script = [Sys_value 2 [] (Sockaddr_in 0 0) []], kn_trace = [] \<rparr>" 2]
  by (simp add: socket_send_def socket_is_open_def kInvalid_def sys_def)

text \<open>C37: On a little-endian host an address survives the conversion to a socket address and back.
  On a big-endian host the octets of an IPv4 address come back in reverse order: the conversion
  back takes the octets of \<open>s_addr\<close> from its low end on every host.\<close>

theorem sockaddr_conversion:
  assumes "address_ok a"
  shows "from_sockaddr True (to_sockaddr True a) = a \<and>
    (ip_family a = Ipv4 \<longrightarrow> ip_octets (from_sockaddr False (to_sockaddr False a)) = rev (ip_octets a))"
proof -
  have len: "length (rev (ip_octets a)) = 4" by (simp add: ip_octets_def)
  have "network_address a = read_u32le (rev (ip_octets a))"
    unfolding network_address_read by (rule read_u32le_rev [symmetric]) (simp add: ip_octets_def)
  then have "ip_family a = Ipv4 \<Longrightarrow>
      ip_octets (from_sockaddr False (to_sockaddr False a)) = rev (ip_octets a)"
    using write_read_octets [OF len]
    by (simp add: from_sockaddr_def to_sockaddr_def ipv4_address_def htonl_def ip_octets_def)
  then show ?thesis using from_to_sockaddr [OF assms] by simp
qed

theorem sockaddr_conversion_witness:
  "from_sockaddr True (to_sockaddr True (ipv4_address 127 0 0 1 5500)) = ipv4_address 127 0 0 1 5500 \<and>
   ip_octets (from_sockaddr False (to_sockaddr False (ipv4_address 127 0 0 1 5500))) = [1, 0, 0, 127]"
  using sockaddr_conversion [of "ipv4_address 127 0 0 1 5500"]
  by (simp add: address_ok_def ipv4_address_def ip_octets_def numeral_eq_Suc)

end
