(* ===== verification/Address_Text.thy ===== *)
theory Address_Text
  imports Net_Socket
begin

unbundle bit_operations_syntax

text \<open>
  Printing and parsing addresses are inverse: \<open>IpAddress::from_text\<close> reads back what
  \<open>IpAddress::to_text\<close> writes (\<open>appwarrior/net/address.cpp\<close>), with the zero-run
  compression of IPv6; and the texts read as IPv4 addresses are given by a grammar.
\<close>

section \<open>Digits\<close>

lemma digits_induct [case_names less step]:
  assumes "\<And>n. n < base \<Longrightarrow> P n" and "\<And>n. base \<le> n \<Longrightarrow> P (n div base) \<Longrightarrow> P n" and "2 \<le> (base :: nat)"
  shows "P n"
proof (induction n rule: less_induct)
  case (less n)
  show ?case
  proof (cases "n < base")
    case False
    then have "n div base < n" using assms(3) by (intro div_less_dividend) auto
    then show ?thesis using less assms(2) [of n] False by simp
  qed (rule assms(1))
qed

lemma digits_small: "n < base \<Longrightarrow> digits_in base n = [digit_char n]"
  by (simp add: digits_in.simps)

lemma digits_step: "2 \<le> base \<Longrightarrow> base \<le> n \<Longrightarrow>
    digits_in base n = digits_in base (n div base) @ [digit_char (n mod base)]"
  by (simp add: digits_in.simps [of base n])

lemma digits_nonempty [simp]: "digits_in base n \<noteq> []"
  by (simp add: digits_in.simps [of base n])

lemma digit_code:
  assumes "d < 16"
  shows "(of_char (digit_char d) :: nat) = (if d < 10 then 48 + d else 87 + d)"
  using assms by (simp add: digit_char_def)

lemma hex_value_digit: "d < 16 \<Longrightarrow> hex_value (digit_char d) = Some d"
  by (simp add: hex_value_def digit_code)

lemma digit_value_digit: "d < 10 \<Longrightarrow> digit_value (digit_char d) = Some d"
  by (simp add: digit_value_def digit_code)

lemma digit_char_other:
  assumes "d < 16"
  shows "digit_char d \<notin> {CHR '':'', CHR ''.'', CHR ''['', CHR '']''}"
proof
  assume "digit_char d \<in> {CHR '':'', CHR ''.'', CHR ''['', CHR '']''}"
  then have "(of_char (digit_char d) :: nat) \<in> {58, 46, 91, 93}" by auto
  then show False using assms by (auto simp: digit_code split: if_splits)
qed

lemma digits_chars:
  assumes "2 \<le> base" and "c \<in> set (digits_in base n)"
  shows "\<exists>d < base. c = digit_char d"
  using assms(2)
proof (induction n rule: digits_induct [of base])
  case (step n)
  have "n mod base < base" using assms(1) by simp
  moreover have "c \<in> set (digits_in base (n div base)) \<or> c = digit_char (n mod base)"
    using step.prems unfolding digits_step [OF assms(1) step.hyps] by auto
  ultimately show ?case using step.IH by blast
qed (use assms(1) in \<open>auto simp: digits_small\<close>)

lemma digits_no_other:
  assumes "2 \<le> base" and "base \<le> 16" and "c \<in> {CHR '':'', CHR ''.'', CHR ''['', CHR '']''}"
  shows "c \<notin> set (digits_in base n)"
proof
  assume "c \<in> set (digits_in base n)"
  then obtain d where "d < base" "c = digit_char d" using digits_chars [OF assms(1)] by blast
  then show False using digit_char_other [of d] assms(2,3) by auto
qed

lemma digits_plain [simp]:
  "CHR '':'' \<notin> set (digits_in 10 n)" "CHR ''.'' \<notin> set (digits_in 10 n)"
  "CHR ''['' \<notin> set (digits_in 10 n)" "CHR '']'' \<notin> set (digits_in 10 n)"
  "CHR '':'' \<notin> set (digits_in 16 n)" "CHR ''.'' \<notin> set (digits_in 16 n)"
  "CHR ''['' \<notin> set (digits_in 16 n)" "CHR '']'' \<notin> set (digits_in 16 n)"
  by (rule digits_no_other; simp)+

lemma digits_length: "2 \<le> base \<Longrightarrow> n < base ^ Suc k \<Longrightarrow> length (digits_in base n) \<le> Suc k"
proof (induction k arbitrary: n)
  case (Suc k)
  show ?case
  proof (cases "n < base")
    case False
    have "n div base < base ^ Suc k"
      using Suc.prems by (simp add: div_less_iff_less_mult mult.commute)
    then show ?thesis using Suc.IH [of "n div base"] Suc.prems(1) False by (simp add: digits_step)
  qed (simp add: digits_small)
qed (simp add: digits_small)

section \<open>Reading digits\<close>

lemma decimal_digits: "decimal_value 0 (digits_in 10 n @ cs) = decimal_value n cs"
proof (induction n arbitrary: cs rule: digits_induct [of 10])
  case (step n)
  then show ?case by (simp add: digits_step digit_value_digit)
qed (simp_all add: digits_small digit_value_digit)

lemma parse_port_digits:
  assumes "n < 65536"
  shows "parse_port (digits_in 10 n) = Some n"
  using digits_length [of 10 n 4] decimal_digits [of n "[]"] assms by (simp add: parse_port_def)

lemma digits_all_digits: "\<forall>c\<in>set (digits_in 10 n). digit_value c \<noteq> None"
  using digits_chars [of 10 _ n] digit_value_digit by fastforce

lemma ipv4_loop_digits:
  "n < 256 \<Longrightarrow> ipv4_loop (digits_in 10 n @ cs) os 0 False = ipv4_loop cs os n True"
proof (induction n arbitrary: cs rule: digits_induct [of 10])
  case (less n)
  then show ?case using digit_char_other [of n] by (simp add: digits_small digit_value_digit)
next
  case (step n)
  then have "n div 10 < 256" by simp
  with step.IH step.hyps step.prems digit_char_other [of "n mod 10"] show ?case
    by (simp add: digits_step digit_value_digit)
qed simp

lemma group_step: "push_bit 4 (word_of_nat (n div 16)) OR word_of_nat (n mod 16) = (word_of_nat n :: u16)"
proof (rule bit_word_eqI)
  fix i assume "i < LENGTH(16)"
  have "n div 16 = drop_bit 4 n" "n mod 16 = take_bit 4 n" by (simp_all add: drop_bit_eq_div take_bit_eq_mod)
  then show "bit (push_bit 4 (word_of_nat (n div 16)) OR word_of_nat (n mod 16) :: u16) i = bit (word_of_nat n :: u16) i"
    by (auto simp: bit_simps)
qed

lemma group_digits: "group_value 0 (digits_in 16 n @ cs) = group_value (word_of_nat n) cs"
proof (induction n arbitrary: cs rule: digits_induct [of 16])
  case (step n)
  then show ?case by (simp add: digits_step hex_value_digit group_step)
qed (simp_all add: digits_small hex_value_digit)

section \<open>Groups\<close>

abbreviation hex :: "u16 \<Rightarrow> string" where
  "hex g \<equiv> digits_in 16 (unat g)"

definition seps :: "u16 list \<Rightarrow> string" where
  "seps gs = concat (map (\<lambda>g. CHR '':'' # hex g) gs)"

definition joined :: "u16 list \<Rightarrow> string" where
  "joined gs = (case gs of [] \<Rightarrow> [] | g # gs \<Rightarrow> hex g @ seps gs)"

lemma seps_simps [simp]: "seps [] = []" "seps (g # gs) = CHR '':'' # joined (g # gs)"
  by (simp_all add: seps_def joined_def)

lemma joined_simps [simp]: "joined [] = []" "joined (g # gs) = hex g @ seps gs"
  by (simp_all add: joined_def)

declare seps_simps(2) [simp del]

lemma seps_Cons: "seps (g # gs) = CHR '':'' # hex g @ seps gs"
  by (simp add: seps_simps(2))

lemma group_hex: "length (hex g) \<le> 4" "group_value 0 (hex g) = Some g"
  using digits_length [of 16 "unat g" 3] group_digits [of "unat g" "[]"] unat_less_power [of g] by simp_all

lemma take_while_hex:
  "takeWhile (\<lambda>c. c \<noteq> CHR '':'') (hex g @ seps gs) = hex g"
  "dropWhile (\<lambda>c. c \<noteq> CHR '':'') (hex g @ seps gs) = seps gs"
proof -
  have "\<forall>c\<in>set (hex g). c \<noteq> CHR '':''" using digits_plain(5) by metis
  then show "takeWhile (\<lambda>c. c \<noteq> CHR '':'') (hex g @ seps gs) = hex g"
    "dropWhile (\<lambda>c. c \<noteq> CHR '':'') (hex g @ seps gs) = seps gs"
    by (cases gs; simp add: seps_Cons)+
qed

lemma groups_loop_joined:
  "length acc + length gs < 8 \<Longrightarrow> groups_loop (joined (g # gs)) acc = Some (acc @ g # gs)"
proof (induction gs arbitrary: g acc)
  case Nil
  have "takeWhile (\<lambda>c. c \<noteq> CHR '':'') (hex g) = hex g" "dropWhile (\<lambda>c. c \<noteq> CHR '':'') (hex g) = []"
    using take_while_hex [of g "[]"] by (simp_all only: seps_simps(1) append_Nil2)
  then show ?case using Nil group_hex [of g]
    by (subst groups_loop.simps) (simp del: takeWhile_eq_all_conv dropWhile_eq_Nil_conv add: Let_def)
next
  case (Cons h gs)
  then show ?case using take_while_hex [of g "h # gs"] group_hex [of g] Cons.IH [of "acc @ [g]" h]
    by (subst groups_loop.simps) (simp add: Let_def seps_Cons)
qed

lemma parse_groups_joined: "length gs \<le> 8 \<Longrightarrow> parse_groups (joined gs) = Some gs"
  using groups_loop_joined [of "[]" "tl gs" "hd gs"]
  by (cases gs) (simp_all add: parse_groups_def)

section \<open>The double colon\<close>

fun no_pair :: "string \<Rightarrow> bool" where
  "no_pair (a # b # cs) \<longleftrightarrow> \<not> (a = CHR '':'' \<and> b = CHR '':'') \<and> no_pair (b # cs)"
| "no_pair _ \<longleftrightarrow> True"

lemma split_no_pair: "no_pair s \<Longrightarrow> split_compression s = None"
  by (induction s rule: no_pair.induct) auto

lemma split_at_pair:
  "no_pair s \<Longrightarrow> s = [] \<or> last s \<noteq> CHR '':'' \<Longrightarrow> split_compression (s @ ''::'' @ t) = Some (s, t)"
  by (induction s rule: no_pair.induct) (auto split: if_splits)

lemma no_pair_plain: "CHR '':'' \<notin> set h \<Longrightarrow> no_pair (h @ s) \<longleftrightarrow> no_pair s"
  by (induction h) (case_tac "h @ s"; auto)+

lemma no_pair_seps: "no_pair (seps gs)"
proof (induction gs)
  case (Cons g gs)
  obtain c cs where h: "hex g = c # cs" by (cases "hex g") auto
  then have "c \<noteq> CHR '':''" using digits_plain(5) [of "unat g"] by auto
  then show ?case using Cons no_pair_plain [OF digits_plain(5), of "unat g" "seps gs"] by (simp add: seps_Cons h)
qed simp

lemma no_pair_joined: "no_pair (joined gs)"
  using no_pair_plain [OF digits_plain(5)] no_pair_seps by (cases gs) simp_all

lemma last_hex: "last (hex g) \<noteq> CHR '':''"
  using digits_plain(5) [of "unat g"] last_in_set [of "hex g"] by force

lemma last_joined: "joined gs = [] \<or> last (joined gs) \<noteq> CHR '':''"
proof -
  have *: "seps gs = [] \<or> last (seps gs) \<noteq> CHR '':''" for gs
  proof (induction gs)
    case (Cons g gs)
    then show ?case using last_hex [of g] by (cases "seps gs = []") (simp_all add: seps_Cons)
  qed simp
  show ?thesis
  proof (cases gs)
    case (Cons g hs)
    then show ?thesis using last_hex [of g] * [of hs]
      by (cases "seps hs = []") (simp_all add: joined_def)
  qed simp
qed

section \<open>The printed groups\<close>

text \<open>What \<open>to_text\<close> compresses: nothing, or at least two groups, all zero.\<close>

definition zero_run :: "u16 list \<Rightarrow> nat \<times> nat \<Rightarrow> bool" where
  "zero_run gs best \<longleftrightarrow> fst best + snd best \<le> 8 \<and> (\<forall>k. fst best \<le> k \<and> k < fst best + snd best \<longrightarrow> gs ! k = 0)"

lemma longest_zero_run_ok:
  "length gs = 8 \<Longrightarrow> zero_run gs best \<Longrightarrow> zero_run gs (longest_zero_run gs start best)"
proof (induction gs start best rule: longest_zero_run.induct)
  case (1 gs start best)
  let ?n = "length (takeWhile (\<lambda>g. g = 0) (drop start gs))"
  have "?n \<le> 8 - start"
    using length_takeWhile_le [of "\<lambda>g. g = 0" "drop start gs"] "1.prems"(1) by simp
  moreover have "gs ! k = 0" if "start \<le> k" "k < start + ?n" for k
  proof -
    have j: "k - start < ?n" using that by simp
    then have "takeWhile (\<lambda>g. g = 0) (drop start gs) ! (k - start) = drop start gs ! (k - start)"
      by (rule takeWhile_nth)
    moreover have "takeWhile (\<lambda>g. g = 0) (drop start gs) ! (k - start) = 0"
      using nth_mem [OF j] by (auto dest: set_takeWhileD)
    moreover have "drop start gs ! (k - start) = gs ! k"
      using that length_takeWhile_le [of "\<lambda>g. g = 0" "drop start gs"] by (subst nth_drop) auto
    ultimately show ?thesis by simp
  qed
  ultimately have new: "start < 8 \<Longrightarrow> zero_run gs (start, ?n)" by (auto simp: zero_run_def)
  show ?case
  proof (cases "8 \<le> start")
    case False
    then show ?thesis
      using "1.IH"(1) "1.IH"(2) "1.prems" new
      by (subst longest_zero_run.simps) (auto simp: Let_def)
  qed (use "1.prems" in \<open>simp add: longest_zero_run.simps\<close>)
qed

lemma compressed_run_cases:
  assumes "length gs = 8"
  obtains (none) "compressed_run gs = (8, 0)"
  | (run) st len where "compressed_run gs = (st, len)" "2 \<le> len" "st + len \<le> 8"
      "gs = take st gs @ replicate len 0 @ drop (st + len) gs"
proof (cases "snd (longest_zero_run gs 0 (0, 0)) < 2")
  case False
  obtain st len where best: "longest_zero_run gs 0 (0, 0) = (st, len)" by force
  have "zero_run gs (st, len)"
    using longest_zero_run_ok [OF assms, of "(0, 0)" 0] by (simp add: best zero_run_def)
  then have ok: "st + len \<le> 8" "\<forall>k. st \<le> k \<and> k < st + len \<longrightarrow> gs ! k = 0" by (simp_all add: zero_run_def)
  have "gs = take st gs @ replicate len 0 @ drop (st + len) gs"
    by (rule nth_equalityI) (use ok assms in \<open>auto simp: nth_append min_def\<close>)
  then show ?thesis using run [of st len] False ok best by (simp add: compressed_run_def)
qed (simp add: none compressed_run_def)

lemma groups_text_after:
  assumes "length gs = 8" and "2 \<le> len \<or> st = 8"
  shows "st + len < i \<Longrightarrow> groups_text gs (st, len) i = seps (drop i gs)"
proof (induction "8 - i" arbitrary: i)
  case (Suc n)
  then have "i < 8" by simp
  then show ?case using Suc.hyps(1) [of "i + 1"] Suc.hyps(2) Suc.prems assms
    by (subst groups_text.simps) (simp add: Cons_nth_drop_Suc [symmetric] seps_Cons)
qed (use assms in \<open>simp add: groups_text.simps\<close>)

lemma groups_text_tail:
  assumes "length gs = 8" and "2 \<le> len"
  shows "groups_text gs (st, len) (st + len) = joined (drop (st + len) gs)"
proof (cases "st + len < 8")
  case True
  then show ?thesis using groups_text_after [OF assms(1), of len st "st + len + 1"] assms
    by (subst groups_text.simps) (simp add: Cons_nth_drop_Suc [symmetric])
qed (use assms in \<open>simp add: groups_text.simps\<close>)

lemma groups_text_middle:
  assumes "length gs = 8" and "2 \<le> len \<and> st + len \<le> 8 \<or> st = 8 \<and> len = 0"
  shows "0 < i \<Longrightarrow> i \<le> st \<Longrightarrow> groups_text gs (st, len) i = seps (drop i (take st gs)) @
    (if st < 8 then ''::'' @ joined (drop (st + len) gs) else [])"
proof (induction "st - i" arbitrary: i)
  case 0
  then have "i = st" by simp
  then show ?case using assms groups_text_tail [OF assms(1), of len st]
    by (subst groups_text.simps) auto
next
  case (Suc n)
  then have i: "i < st" "i < 8" using assms by auto
  then have "drop i (take st gs) = gs ! i # drop (Suc i) (take st gs)"
    using assms by (subst Cons_nth_drop_Suc [symmetric]) auto
  then show ?case using Suc.hyps(1) [of "i + 1"] Suc.hyps(2) Suc.prems i assms
    by (subst groups_text.simps) (auto simp: seps_Cons)
qed

lemma groups_text_whole:
  assumes "length gs = 8" and "2 \<le> len \<and> st + len \<le> 8 \<or> st = 8 \<and> len = 0"
  shows "groups_text gs (st, len) 0 = joined (take st gs) @
    (if st < 8 then ''::'' @ joined (drop (st + len) gs) else [])"
proof (cases "st = 0")
  case True
  then show ?thesis using assms groups_text_tail [OF assms(1), of len 0]
    by (subst groups_text.simps) auto
next
  case False
  then obtain g hs where g: "gs = g # hs" using assms(1) by (cases gs) auto
  then have "take st gs = g # take (st - 1) hs" using False by (cases st) auto
  then show ?thesis using groups_text_middle [OF assms, of 1] False assms g
    by (subst groups_text.simps) auto
qed

section \<open>Hosts\<close>

lemma octets_of_group:
  "ucast (drop_bit 8 (push_bit 8 (ucast (a :: u8)) OR ucast (b :: u8) :: u16)) = a"
  "ucast ((push_bit 8 (ucast (a :: u8)) OR ucast (b :: u8) :: u16) AND 0xFF) = b"
proof -
  show "ucast (drop_bit 8 (push_bit 8 (ucast a) OR ucast b :: u16)) = a"
    by (rule bit_word_eqI) (auto simp: bit_simps dest: bit_imp_le_length)
  have m: "(0xFF :: u16) = mask 8" by (simp add: mask_eq_exp_minus_1)
  show "ucast ((push_bit 8 (ucast a) OR ucast b :: u16) AND 0xFF) = b"
    unfolding m by (rule bit_word_eqI) (auto simp: bit_simps dest: bit_imp_le_length)
qed

lemma length_address_groups [simp]: "length (address_groups bs) = 8"
  by (simp add: address_groups_def)

lemma length_group_bytes [simp]: "length (group_bytes gs) = 2 * length gs"
  by (induction gs) (simp_all add: group_bytes_def)

lemma group_bytes_of_groups:
  assumes "length bs = 16"
  shows "group_bytes (address_groups bs) = bs"
proof -
  have "group_bytes (address_groups bs) = concat (map (\<lambda>i. [bs ! (i * 2), bs ! (i * 2 + 1)]) [0..<8])"
    by (simp only: group_bytes_def address_groups_def map_map comp_def octets_of_group)
  also have "\<dots> = map ((!) bs) [0..<16]" by (simp add: upt_rec eval_nat_numeral)
  also have "\<dots> = bs" using assms by (metis map_nth)
  finally show ?thesis .
qed

lemma parse_printed_groups:
  assumes "length gs = 8"
  shows "parse_ipv6_host (groups_text gs (compressed_run gs) 0) = Some (group_bytes gs)"
  using assms
proof (cases rule: compressed_run_cases)
  case none
  have "groups_text gs (8, 0) 0 = joined gs" using groups_text_whole [OF assms, of 0 8] assms by simp
  then show ?thesis
    using none assms split_no_pair [OF no_pair_joined, of gs] parse_groups_joined [of gs]
    by (simp add: parse_ipv6_host_def)
next
  case (run st len)
  have "groups_text gs (st, len) 0 = joined (take st gs) @ ''::'' @ joined (drop (st + len) gs)"
    using groups_text_whole [OF assms, of len st] run by simp
  moreover have "8 - min 8 st - (8 - (st + len)) = len" using run by simp
  ultimately show ?thesis
    using run assms split_at_pair [OF no_pair_joined last_joined, of "take st gs"]
      parse_groups_joined [of "take st gs"] parse_groups_joined [of "drop (st + len) gs"]
    by (simp add: parse_ipv6_host_def min_def)
qed

lemma parse_printed_octets:
  assumes "a < 256" "b < 256" "c < 256" "d < 256"
  shows "parse_ipv4_host (digits_in 10 a @ ''.'' @ digits_in 10 b @ ''.'' @ digits_in 10 c @ ''.'' @ digits_in 10 d)
    = Some [word_of_nat a, word_of_nat b, word_of_nat c, word_of_nat d]"
  using ipv4_loop_digits [OF assms(4), of "[]"]
  by (simp add: parse_ipv4_host_def ipv4_loop_digits assms)

section \<open>Whole addresses\<close>

lemma split_first_plain: "c \<notin> set s \<Longrightarrow> split_first c (s @ c # t) = Some (s, t)"
  by (induction s) (auto simp: split_first_def split: list.splits)

lemma split_last_plain: "c \<notin> set t \<Longrightarrow> split_last c (s @ c # t) = Some (s, t)"
  using split_first_plain [of c "rev t" "rev s"] by (simp add: split_last_def)

lemma seps_no_bracket: "CHR '']'' \<notin> set (seps gs)"
  by (induction gs) (simp_all add: seps_Cons)

lemma joined_no_bracket: "CHR '']'' \<notin> set (joined gs)"
  using seps_no_bracket by (cases gs) simp_all

lemma groups_text_no_bracket:
  assumes "length gs = 8"
  shows "CHR '']'' \<notin> set (groups_text gs (compressed_run gs) 0)"
  using assms
proof (cases rule: compressed_run_cases)
  case none
  then show ?thesis using groups_text_whole [OF assms, of 0 8] by (simp add: joined_no_bracket)
next
  case (run st len)
  then show ?thesis using groups_text_whole [OF assms, of len st] by (simp add: joined_no_bracket)
qed

lemma port_text: "parse_port (digits_in 10 (unat (p :: u16))) = Some (unat p)"
  using parse_port_digits [of "unat p"] unat_less_power [of p] by simp

lemma from_text_ipv6:
  assumes "ip_family a = Ipv6" and "length (ip_bytes a) = 16"
  shows "from_text (to_text a) = Inr (a\<lparr> ip_scope_id := 0 \<rparr>)"
proof -
  let ?t = "groups_text (address_groups (ip_bytes a)) (compressed_run (address_groups (ip_bytes a))) 0"
  have "split_first CHR '']'' ((CHR ''['' # ?t) @ CHR '']'' # CHR '':'' # digits_in 10 (unat (ip_port a)))
      = Some (CHR ''['' # ?t, CHR '':'' # digits_in 10 (unat (ip_port a)))"
    by (rule split_first_plain) (simp add: groups_text_no_bracket)
  then show ?thesis
    using assms parse_printed_groups [of "address_groups (ip_bytes a)"] port_text [of "ip_port a"]
    by (simp add: from_text_def to_text_def Let_def group_bytes_of_groups ipv6_address_def)
qed

lemma ipv4_address_ok:
  assumes "address_ok a" and "ip_family a = Ipv4"
  shows "a = ipv4_address (ip_bytes a ! 0) (ip_bytes a ! 1) (ip_bytes a ! 2) (ip_bytes a ! 3) (ip_port a)"
proof -
  have "take 4 (ip_bytes a) = [ip_bytes a ! 0, ip_bytes a ! 1, ip_bytes a ! 2, ip_bytes a ! 3]"
    using assms(1) by (simp add: address_ok_def take_Suc_conv_app_nth numeral_eq_Suc)
  then have "ip_bytes a = [ip_bytes a ! 0, ip_bytes a ! 1, ip_bytes a ! 2, ip_bytes a ! 3] @ replicate 12 0"
    using assms append_take_drop_id [of 4 "ip_bytes a"] by (simp add: address_ok_def)
  then show ?thesis using assms by (simp add: ipv4_address_def address_ok_def)
qed

lemma from_text_ipv4:
  "from_text (to_text (ipv4_address a b c d p)) = Inr (ipv4_address a b c d p)"
proof -
  let ?h = "digits_in 10 (unat a) @ ''.'' @ digits_in 10 (unat b) @ ''.'' @ digits_in 10 (unat c) @ ''.'' @ digits_in 10 (unat d)"
  let ?p = "digits_in 10 (unat p)"
  have printed: "to_text (ipv4_address a b c d p) = ?h @ CHR '':'' # ?p"
    by (simp add: to_text_def ipv4_address_def)
  have "take 1 (?h @ CHR '':'' # ?p) \<noteq> ''[''"
    using digits_plain(3) [of "unat a"] by (cases "digits_in 10 (unat a)") auto
  moreover have "split_last CHR '':'' (?h @ CHR '':'' # ?p) = Some (?h, ?p)"
    by (rule split_last_plain) simp
  moreover have "parse_ipv4_host ?h = Some [a, b, c, d]"
    using parse_printed_octets [of "unat a" "unat b" "unat c" "unat d"]
      unat_less_power [of a] unat_less_power [of b] unat_less_power [of c] unat_less_power [of d] by simp
  moreover have "CHR '':'' \<notin> set ?h" "CHR ''.'' \<in> set ?h" by simp_all
  ultimately show ?thesis
    unfolding printed from_text_def using digits_all_digits [of "unat p"] port_text [of p]
    by (simp del: append_assoc append.simps)
qed

lemma text_read_back:
  assumes "address_ok a"
  shows "from_text (to_text a) = Inr (a\<lparr> ip_scope_id := 0 \<rparr>)"
proof (cases "ip_family a")
  case Ipv4
  have "(ipv4_address a0 a1 a2 a3 p)\<lparr> ip_scope_id := 0 \<rparr> = ipv4_address a0 a1 a2 a3 p" for a0 a1 a2 a3 p
    by (simp add: ipv4_address_def)
  then show ?thesis using from_text_ipv4 ipv4_address_ok [OF assms Ipv4] by metis
next
  case Ipv6
  then show ?thesis using from_text_ipv6 assms by (simp add: address_ok_def)
qed

section \<open>The texts of IPv4 addresses\<close>

definition decimal :: "string \<Rightarrow> bool" where
  "decimal s \<longleftrightarrow> s \<noteq> [] \<and> set s \<subseteq> set ''0123456789''"

definition number_from :: "nat \<Rightarrow> string \<Rightarrow> nat" where
  "number_from n s = foldl (\<lambda>n c. 10 * n + (of_char c - 48)) n s"

abbreviation number :: "string \<Rightarrow> nat" where
  "number \<equiv> number_from 0"

definition ipv4_host_text :: "string \<Rightarrow> nat list \<Rightarrow> bool" where
  "ipv4_host_text host ns \<longleftrightarrow> (\<exists>a b c d. host = a @ ''.'' @ b @ ''.'' @ c @ ''.'' @ d \<and> ns = map number [a, b, c, d]
     \<and> list_all (\<lambda>s. decimal s \<and> number s \<le> 255) [a, b, c, d])"

definition port_suffix :: "string \<Rightarrow> nat \<Rightarrow> bool" where
  "port_suffix suffix port \<longleftrightarrow> suffix = [] \<and> port = 0 \<or>
     (\<exists>q. suffix = '':'' @ q \<and> decimal q \<and> length q \<le> 5 \<and> port = number q \<and> port \<le> 65535)"

lemma digit_iff: "c \<in> set ''0123456789'' \<longleftrightarrow> 48 \<le> (of_char c :: nat) \<and> (of_char c :: nat) \<le> 57"
proof
  define n where "n = (of_char c :: nat)"
  assume "48 \<le> (of_char c :: nat) \<and> (of_char c :: nat) \<le> 57"
  then have "48 \<le> n" "n \<le> 57" by (simp_all add: n_def)
  then have "n \<in> {48, 49, 50, 51, 52, 53, 54, 55, 56, 57}" unfolding insert_iff empty_iff by presburger
  then have "(of_char c :: nat) \<in> {48, 49, 50, 51, 52, 53, 54, 55, 56, 57}" by (simp only: n_def)
  then have "(of_char c :: nat) \<in> of_char ` set ''0123456789''" by simp
  then show "c \<in> set ''0123456789''" by (auto simp only: of_char_eq_iff image_iff)
qed auto

lemma digit_value_some: "c \<in> set ''0123456789'' \<Longrightarrow> digit_value c = Some (of_char c - 48)"
  and digit_value_none: "c \<notin> set ''0123456789'' \<Longrightarrow> digit_value c = None"
  unfolding digit_iff by (auto simp: digit_value_def)

lemma decimal_plain: "decimal q \<Longrightarrow> q \<noteq> [] \<and> (\<forall>c\<in>set q. digit_value c \<noteq> None)"
proof (intro conjI ballI)
  assume q: "decimal q"
  then show "q \<noteq> []" by (simp add: decimal_def)
  fix c
  assume "c \<in> set q"
  then have "c \<in> set ''0123456789''" using q unfolding decimal_def by blast
  from digit_value_some [OF this] show "digit_value c \<noteq> None" by simp
qed

lemma number_from_simps [simp]:
  "number_from n [] = n" "number_from n (c # s) = number_from (10 * n + (of_char c - 48)) s"
  by (simp_all add: number_from_def)

lemma number_from_grows: "n \<le> number_from n s"
proof (induction s arbitrary: n)
  case (Cons c s)
  have "n \<le> 10 * n + (of_char c - 48)" by linarith
  also have "\<dots> \<le> number_from n (c # s)" using Cons.IH by simp
  finally show ?case .
qed simp

lemma decimal_value_iff:
  "decimal_value n s = Some m \<longleftrightarrow> set s \<subseteq> set ''0123456789'' \<and> m = number_from n s"
proof (induction s arbitrary: n)
  case (Cons c s)
  then show ?case
    using digit_value_some [of c] digit_value_none [of c] by (cases "c \<in> set ''0123456789''") (auto simp: mult.commute)
qed auto

lemma parse_port_iff:
  "parse_port s = Some m \<longleftrightarrow> decimal s \<and> length s \<le> 5 \<and> m = number s \<and> m \<le> 65535"
  using decimal_value_iff [of 0 s] by (auto simp: parse_port_def decimal_def split: option.split)

text \<open>What is left of a host in the middle of a number: its other digits, and the numbers after it.\<close>

definition fields_left :: "string \<Rightarrow> nat \<Rightarrow> bool \<Rightarrow> nat list \<Rightarrow> bool" where
  "fields_left cs v b ns \<longleftrightarrow> (\<exists>s ss. cs = s @ concat (map (\<lambda>s. CHR ''.'' # s) ss)
     \<and> set s \<subseteq> set ''0123456789'' \<and> (b \<or> s \<noteq> []) \<and> list_all decimal ss
     \<and> ns = number_from v s # map number ss \<and> list_all (\<lambda>n. n \<le> 255) ns)"

lemma fields_left_Nil: "fields_left [] v b ns \<longleftrightarrow> b \<and> ns = [v] \<and> v \<le> 255"
  by (auto simp: fields_left_def)

lemma fields_left_dot:
  "fields_left (CHR ''.'' # cs) v b ns \<longleftrightarrow> b \<and> v \<le> 255 \<and> (\<exists>ns'. ns = v # ns' \<and> fields_left cs 0 False ns')"
proof
  assume "fields_left (CHR ''.'' # cs) v b ns"
  then obtain s ss where f: "CHR ''.'' # cs = s @ concat (map (\<lambda>s. CHR ''.'' # s) ss)" "set s \<subseteq> set ''0123456789''"
    "b \<or> s \<noteq> []" "list_all decimal ss" "ns = number_from v s # map number ss" "list_all (\<lambda>n. n \<le> 255) ns"
    unfolding fields_left_def by blast
  have s: "s = []" using f(1,2) by (cases s) auto
  with f(1) obtain t ts where ss: "ss = t # ts" by (cases ss) auto
  have "cs = t @ concat (map (\<lambda>s. CHR ''.'' # s) ts)" using f(1) s ss by simp
  then have "fields_left cs 0 False (number t # map number ts)"
    unfolding fields_left_def using f(4-6) ss by (intro exI [of _ t] exI [of _ ts]) (auto simp: decimal_def)
  then show "b \<and> v \<le> 255 \<and> (\<exists>ns'. ns = v # ns' \<and> fields_left cs 0 False ns')" using f s ss by simp
next
  assume "b \<and> v \<le> 255 \<and> (\<exists>ns'. ns = v # ns' \<and> fields_left cs 0 False ns')"
  then obtain s ss where f: "b" "v \<le> 255" "cs = s @ concat (map (\<lambda>s. CHR ''.'' # s) ss)" "set s \<subseteq> set ''0123456789''"
    "s \<noteq> []" "list_all decimal ss" "ns = v # number s # map number ss" "list_all (\<lambda>n. n \<le> 255) ns"
    unfolding fields_left_def by auto
  then show "fields_left (CHR ''.'' # cs) v b ns"
    unfolding fields_left_def by (intro exI [of _ "[]"] exI [of _ "s # ss"]) (auto simp: decimal_def)
qed

lemma fields_left_digit:
  assumes "c \<in> set ''0123456789''"
  shows "fields_left (c # cs) v b ns \<longleftrightarrow> fields_left cs (10 * v + (of_char c - 48)) True ns"
proof
  assume "fields_left (c # cs) v b ns"
  then obtain s ss where f: "c # cs = s @ concat (map (\<lambda>s. CHR ''.'' # s) ss)" "set s \<subseteq> set ''0123456789''"
    "list_all decimal ss" "ns = number_from v s # map number ss" "list_all (\<lambda>n. n \<le> 255) ns"
    unfolding fields_left_def by blast
  have "c \<noteq> CHR ''.''" using assms by auto
  with f(1) obtain s' where s: "s = c # s'" by (cases s; cases ss) auto
  then show "fields_left cs (10 * v + (of_char c - 48)) True ns"
    unfolding fields_left_def using f by (intro exI [of _ s'] exI [of _ ss]) simp
next
  assume "fields_left cs (10 * v + (of_char c - 48)) True ns"
  then obtain s ss where "cs = s @ concat (map (\<lambda>s. CHR ''.'' # s) ss)" "set s \<subseteq> set ''0123456789''"
    "list_all decimal ss" "ns = number_from v (c # s) # map number ss" "list_all (\<lambda>n. n \<le> 255) ns"
    unfolding fields_left_def by auto
  then show "fields_left (c # cs) v b ns"
    unfolding fields_left_def using assms by (intro exI [of _ "c # s"] exI [of _ ss]) simp
qed

lemma fields_left_bound: "fields_left cs v b ns \<Longrightarrow> v \<le> 255"
proof -
  assume "fields_left cs v b ns"
  then obtain s where "number_from v s \<le> 255" unfolding fields_left_def by auto
  then show ?thesis using number_from_grows [of v s] by linarith
qed

lemma fields_left_other: "fields_left (c # cs) v b ns \<Longrightarrow> c = CHR ''.'' \<or> c \<in> set ''0123456789''"
proof -
  assume "fields_left (c # cs) v b ns"
  then obtain s ss where "c # cs = s @ concat (map (\<lambda>s. CHR ''.'' # s) ss)" "set s \<subseteq> set ''0123456789''"
    unfolding fields_left_def by blast
  then show ?thesis by (cases s; cases ss) auto
qed

lemma ipv4_loop_iff:
  "v \<le> 255 \<Longrightarrow> ipv4_loop cs os v b = Some bs \<longleftrightarrow>
     (\<exists>ns. fields_left cs v b ns \<and> length os + length ns = 4 \<and> bs = os @ map word_of_nat ns)"
proof (induction cs arbitrary: os v b)
  case Nil
  then show ?case by (auto simp: fields_left_Nil)
next
  case (Cons c cs)
  consider (dot) "c = CHR ''.''" | (digit) "c \<noteq> CHR ''.''" "c \<in> set ''0123456789''"
    | (other) "c \<noteq> CHR ''.''" "c \<notin> set ''0123456789''" by blast
  then show ?case
  proof cases
    case dot
    have len: "0 < length ns" if "fields_left cs 0 False ns" for ns using that by (auto simp: fields_left_def)
    show ?thesis
    proof (cases "b \<and> length os < 3")
      case True
      then have "ipv4_loop (c # cs) os v b = ipv4_loop cs (os @ [word_of_nat v]) 0 False" by (simp add: dot)
      then show ?thesis using Cons.IH [of 0 "os @ [word_of_nat v]" False] Cons.prems True
        by (auto simp: dot fields_left_dot)
    next
      case False
      then have "ipv4_loop (c # cs) os v b = None" by (auto simp: dot)
      moreover have "\<not> (b \<and> length os + Suc (length ns) = 4)" if "fields_left cs 0 False ns" for ns
        using len [OF that] False by (cases ns) auto
      ultimately show ?thesis by (auto simp: dot fields_left_dot simp del: ipv4_loop.simps)
    qed
  next
    case digit
    let ?v = "10 * v + (of_char c - 48)"
    have d: "digit_value c = Some (of_char c - 48)" by (rule digit_value_some [OF digit(2)])
    show ?thesis
    proof (cases "?v \<le> 255")
      case True
      then have "ipv4_loop (c # cs) os v b = ipv4_loop cs os ?v True"
        using digit(1) d by (simp add: Let_def mult.commute)
      then show ?thesis using Cons.IH [OF True] fields_left_digit [OF digit(2)] by simp
    next
      case False
      then have "ipv4_loop (c # cs) os v b = None" using digit(1) d by (simp add: Let_def mult.commute)
      then show ?thesis using fields_left_digit [OF digit(2)] fields_left_bound [of cs ?v] False by auto
    qed
  next
    case other
    then show ?thesis using fields_left_other [of c cs v b] digit_value_none [of c] by auto
  qed
qed

lemma parse_ipv4_host_iff:
  "parse_ipv4_host host = Some bs \<longleftrightarrow> (\<exists>ns. ipv4_host_text host ns \<and> bs = map word_of_nat ns)"
proof -
  have "fields_left host 0 False ns \<and> length ns = 4 \<longleftrightarrow> ipv4_host_text host ns" for ns
  proof
    assume "fields_left host 0 False ns \<and> length ns = 4"
    then obtain s ss where g: "host = s @ concat (map (\<lambda>s. CHR ''.'' # s) ss)" "set s \<subseteq> set ''0123456789''" "s \<noteq> []"
      "list_all decimal ss" "ns = number s # map number ss" "list_all (\<lambda>n. n \<le> 255) ns" and "length ns = 4"
      unfolding fields_left_def by blast
    then have f: "host = s @ concat (map (\<lambda>s. CHR ''.'' # s) ss)" "decimal s" "list_all decimal ss"
      "ns = number s # map number ss" "list_all (\<lambda>n. n \<le> 255) ns" "length ss = 3" by (simp_all add: decimal_def)
    from f(6) obtain b c d where "ss = [b, c, d]" by (auto simp: length_Suc_conv numeral_eq_Suc)
    then show "ipv4_host_text host ns" unfolding ipv4_host_text_def
      using f by (intro exI [of _ s] exI [of _ b] exI [of _ c] exI [of _ d]) simp
  next
    assume "ipv4_host_text host ns"
    then obtain a b c d where f: "host = a @ ''.'' @ b @ ''.'' @ c @ ''.'' @ d" "ns = map number [a, b, c, d]"
      "list_all (\<lambda>s. decimal s \<and> number s \<le> 255) [a, b, c, d]" unfolding ipv4_host_text_def by blast
    then show "fields_left host 0 False ns \<and> length ns = 4" unfolding fields_left_def
      by (intro conjI exI [of _ a] exI [of _ "[b, c, d]"]) (simp_all add: decimal_def)
  qed
  then show ?thesis using ipv4_loop_iff [of 0 host "[]" False bs] by (auto simp: parse_ipv4_host_def)
qed

lemma ipv4_host_chars:
  assumes "ipv4_host_text host ns"
  shows "CHR '':'' \<notin> set host" and "CHR ''.'' \<in> set host" and "take 1 host \<noteq> ''[''" and "length ns = 4"
proof -
  obtain a b c d where f: "host = a @ ''.'' @ b @ ''.'' @ c @ ''.'' @ d" "ns = map number [a, b, c, d]"
    "list_all (\<lambda>s. decimal s \<and> number s \<le> 255) [a, b, c, d]" using assms unfolding ipv4_host_text_def by blast
  show "CHR ''.'' \<in> set host" "length ns = 4" using f(1,2) by simp_all
  show "CHR '':'' \<notin> set host" using f(1,3) by (auto simp: decimal_def)
  show "take 1 host \<noteq> ''[''" using f(1,3) by (cases a) (auto simp: decimal_def)
qed

lemma split_last_none: "split_last c s = None \<longleftrightarrow> c \<notin> set s"
proof -
  have "split_first c t = None \<longleftrightarrow> dropWhile (\<lambda>x. x \<noteq> c) t = []" for t
    by (cases "dropWhile (\<lambda>x. x \<noteq> c) t") (simp_all add: split_first_def del: dropWhile_eq_Nil_conv)
  then show ?thesis by (auto simp: split_last_def dropWhile_eq_Nil_conv)
qed

lemma split_last_some: "split_last c s = Some (pre, suffix) \<Longrightarrow> s = pre @ c # suffix"
proof -
  assume "split_last c s = Some (pre, suffix)"
  then have "split_first c (rev s) = Some (rev suffix, rev pre)" by (auto simp: split_last_def)
  then have "rev s = rev suffix @ c # rev pre"
    unfolding split_first_def
    by (auto split: list.splits) (metis (mono_tags, lifting) hd_dropWhile list.discI list.sel(1) takeWhile_dropWhile_id)
  then have "rev (rev s) = rev (rev suffix @ c # rev pre)" by simp
  then show ?thesis by simp
qed

section \<open>Properties\<close>

text \<open>C30: Every address is read back from its text, its scope apart, which the text does not have: for
  IPv4, and for IPv6 with any run of zero groups compressed, and any port.\<close>

theorem address_text_round_trip:
  assumes "address_ok a"
  shows "from_text (to_text a) = Inr (a\<lparr> ip_scope_id := 0 \<rparr>)"
  by (rule text_read_back [OF assms])

theorem address_text_round_trip_witness:
  "from_text (to_text (ipv6_address (replicate 15 0 @ [1]) 5500 7)) = Inr (ipv6_address (replicate 15 0 @ [1]) 5500 0)"
  using address_text_round_trip [of "ipv6_address (replicate 15 0 @ [1]) 5500 7"]
  by (simp add: address_ok_def ipv6_address_def)

text \<open>C31: The text parser yields an IPv4 address for exactly these texts: four decimal numbers up to 255
  joined by dots, leading zeros in any number, and optionally a colon and a port of one to five
  digits up to 65535; the address has those octets in that order and that port, 0 without one.\<close>

theorem ipv4_text_exact:
  "from_text text = Inr addr \<and> ip_family addr = Ipv4 \<longleftrightarrow>
     (\<exists>host a b c d suffix port. text = host @ suffix \<and> ipv4_host_text host [a, b, c, d] \<and> port_suffix suffix port
        \<and> addr = ipv4_address (word_of_nat a) (word_of_nat b) (word_of_nat c) (word_of_nat d) (word_of_nat port))"
proof
  assume l: "from_text text = Inr addr \<and> ip_family addr = Ipv4"
  have v6: "ip_family (ipv6_address bs p sc) = Ipv6" for bs p sc by (simp add: ipv6_address_def)
  have "take 1 text \<noteq> ''[''" using l v6 by (auto simp: from_text_def Let_def split: option.splits prod.splits if_splits)
  then obtain host port where hp: "(case split_last CHR '':'' text of None \<Rightarrow> Some (text, 0)
      | Some (pre, suffix) \<Rightarrow>
          if suffix \<noteq> [] \<and> (\<forall>c\<in>set suffix. digit_value c \<noteq> None) \<and> CHR '':'' \<notin> set pre then
            (case parse_port suffix of None \<Rightarrow> None | Some p \<Rightarrow> Some (pre, p))
          else Some (text, 0)) = Some (host, port)"
    and addr: "\<exists>o4. parse_ipv4_host host = Some o4 \<and> addr = ipv4_address (o4 ! 0) (o4 ! 1) (o4 ! 2) (o4 ! 3) (word_of_nat port)"
    using l v6 by (auto simp: from_text_def Let_def split: option.splits if_splits)
  then obtain ns where ns: "ipv4_host_text host ns"
    "addr = ipv4_address (map word_of_nat ns ! 0) (map word_of_nat ns ! 1) (map word_of_nat ns ! 2) (map word_of_nat ns ! 3) (word_of_nat port)"
    unfolding parse_ipv4_host_iff by blast
  note chars = ipv4_host_chars [OF ns(1)]
  have "\<exists>suffix. text = host @ suffix \<and> port_suffix suffix port"
  proof (cases "split_last CHR '':'' text")
    case None
    then show ?thesis using hp by (simp add: port_suffix_def)
  next
    case (Some ps)
    then obtain pre suffix where ps: "split_last CHR '':'' text = Some (pre, suffix)" by (cases ps) simp
    from split_last_some [OF this] have whole: "text = pre @ CHR '':'' # suffix" .
    then have "host \<noteq> text" using chars(1) by auto
    then have "host = pre" "parse_port suffix = Some port" using hp ps by (auto split: if_splits option.splits)
    then show ?thesis using whole by (auto simp: port_suffix_def parse_port_iff)
  qed
  then obtain suffix where suffix: "text = host @ suffix" "port_suffix suffix port" by blast
  obtain a b c d where four: "ns = [a, b, c, d]" using chars(4) by (auto simp: length_Suc_conv numeral_eq_Suc)
  have "addr = ipv4_address (word_of_nat a) (word_of_nat b) (word_of_nat c) (word_of_nat d) (word_of_nat port)"
    using ns(2) by (simp add: four)
  with suffix ns(1) [unfolded four] show "\<exists>host a b c d suffix port. text = host @ suffix \<and> ipv4_host_text host [a, b, c, d] \<and> port_suffix suffix port
        \<and> addr = ipv4_address (word_of_nat a) (word_of_nat b) (word_of_nat c) (word_of_nat d) (word_of_nat port)" by blast
next
  assume "\<exists>host a b c d suffix port. text = host @ suffix \<and> ipv4_host_text host [a, b, c, d] \<and> port_suffix suffix port
        \<and> addr = ipv4_address (word_of_nat a) (word_of_nat b) (word_of_nat c) (word_of_nat d) (word_of_nat port)"
  then obtain host a b c d suffix port where t: "text = host @ suffix" and host: "ipv4_host_text host [a, b, c, d]"
    and behind: "port_suffix suffix port"
    and addr: "addr = ipv4_address (word_of_nat a) (word_of_nat b) (word_of_nat c) (word_of_nat d) (word_of_nat port)" by blast
  note chars = ipv4_host_chars [OF host]
  have p: "parse_ipv4_host host = Some [word_of_nat a, word_of_nat b, word_of_nat c, word_of_nat d]"
    using host unfolding parse_ipv4_host_iff by auto
  have ne: "host \<noteq> []" using chars(2) by auto
  then have "take 1 text \<noteq> ''[''" using chars(3) t by (cases host) auto
  moreover have "(case split_last CHR '':'' text of None \<Rightarrow> Some (text, 0)
      | Some (pre, suffix) \<Rightarrow>
          if suffix \<noteq> [] \<and> (\<forall>c\<in>set suffix. digit_value c \<noteq> None) \<and> CHR '':'' \<notin> set pre then
            (case parse_port suffix of None \<Rightarrow> None | Some p \<Rightarrow> Some (pre, p))
          else Some (text, 0)) = Some (host, port)"
  proof (cases "suffix = []")
    case True
    then show ?thesis using behind t chars(1) split_last_none [of "CHR '':''" "text"] by (simp add: port_suffix_def)
  next
    case False
    then obtain q where q: "suffix = '':'' @ q" "decimal q" "parse_port q = Some port"
      using behind by (auto simp: port_suffix_def parse_port_iff)
    have "CHR '':'' \<notin> set q" using q(2) by (auto simp: decimal_def)
    then have sl: "split_last CHR '':'' text = Some (host, q)" using t q(1) split_last_plain [of "CHR '':''" q host] by simp
    have plain: "q \<noteq> [] \<and> (\<forall>c\<in>set q. digit_value c \<noteq> None) \<and> CHR '':'' \<notin> set host"
      using decimal_plain [OF q(2)] chars(1) by blast
    show ?thesis by (simp only: sl option.case prod.case q(3) if_P [OF plain])
  qed
  ultimately have "from_text text = Inr addr"
    unfolding from_text_def Let_def addr
    by (simp only: if_False option.case prod.case p chars(2) if_True nth_Cons_0 nth_Cons_Suc One_nat_def
        numeral_2_eq_2 numeral_3_eq_3)
  then show "from_text text = Inr addr \<and> ip_family addr = Ipv4" by (simp add: addr ipv4_address_def)
qed

end
