(* ===== verification/Transaction_Codec.thy ===== *)
theory Transaction_Codec
  imports Endian
begin

text \<open>
  The transaction header codec (\<open>hotline/protocol/transaction.h\<close>, \<open>transaction.cpp\<close>):
  twenty bytes, every multi-byte member big-endian.  The type member has the underlying type of
  \<open>enum class TransactionType\<close>, because any 16-bit value can come off the wire.
\<close>

definition transaction_header_size :: nat where
  "transaction_header_size = 20"

record transaction_header =
  th_flag :: u8
  th_is_reply :: u8
  th_type :: u16
  th_id :: u32
  th_error :: u32
  th_total_size :: u32
  th_data_size :: u32

text \<open>Each field is written at its own offset of the 20-byte output, in order.\<close>

definition encode_header :: "transaction_header \<Rightarrow> bytes" where
  "encode_header h =
     [th_flag h] @ [th_is_reply h] @ write_u16be (th_type h) @ write_u32be (th_id h) @
     write_u32be (th_error h) @ write_u32be (th_total_size h) @ write_u32be (th_data_size h)"

definition decode_header :: "bytes \<Rightarrow> transaction_header" where
  "decode_header b = \<lparr>
     th_flag = b ! 0,
     th_is_reply = b ! 1,
     th_type = read_u16be (take 2 (drop 2 b)),
     th_id = read_u32be (take 4 (drop 4 b)),
     th_error = read_u32be (take 4 (drop 8 b)),
     th_total_size = read_u32be (take 4 (drop 12 b)),
     th_data_size = read_u32be (take 4 (drop 16 b)) \<rparr>"

definition try_decode_header :: "bytes \<Rightarrow> (DecodeError, transaction_header) checked" where
  "try_decode_header bs =
     (if length bs < transaction_header_size then Some (Inl truncated)
      else if length bs > transaction_header_size then Some (Inl trailing_bytes)
      else do { b \<leftarrow> span_first transaction_header_size bs; Some (Inr (decode_header b)) })"

definition encode_transaction :: "transaction_header \<Rightarrow> bytes \<Rightarrow> bytes" where
  "encode_transaction h data = encode_header h @ data"

lemma try_decode_header_fixed: "try_decode_header = try_fixed transaction_header_size decode_header"
  by (simp add: fun_eq_iff try_decode_header_def try_fixed_def)

lemma length_encode_header [simp]: "length (encode_header h) = 20"
  by (simp add: encode_header_def)

lemma decode_encode_header [simp]: "decode_header (encode_header h) = h"
  by (simp add: decode_header_def encode_header_def)

lemma take_drop_0: "2 \<le> length bs \<Longrightarrow> [bs ! 0] @ [bs ! 1] @ drop 2 bs = bs"
  by (cases bs; cases "tl bs") auto

lemma encode_decode_header:
  assumes "length bs = 20"
  shows "encode_header (decode_header bs) = bs"
proof -
  have "encode_header (decode_header bs) = [bs ! 0] @ [bs ! 1] @ take 2 (drop 2 bs) @
      take 4 (drop 4 bs) @ take 4 (drop 8 bs) @ take 4 (drop 12 bs) @ take 4 (drop 16 bs)"
    using assms by (simp add: encode_header_def decode_header_def)
  also have "take 4 (drop 16 bs) = drop 16 bs" using assms by simp
  also have "take 4 (drop 12 bs) @ drop 16 bs = drop 12 bs" by (rule take_drop_join) simp
  also have "take 4 (drop 8 bs) @ drop 12 bs = drop 8 bs" by (rule take_drop_join) simp
  also have "take 4 (drop 4 bs) @ drop 8 bs = drop 4 bs" by (rule take_drop_join) simp
  also have "take 2 (drop 2 bs) @ drop 4 bs = drop 2 bs" by (rule take_drop_join) simp
  also have "[bs ! 0] @ [bs ! 1] @ drop 2 bs = bs" using assms by (intro take_drop_0) simp
  finally show ?thesis .
qed

interpretation tran: fixed_codec transaction_header_size encode_header decode_header "\<lambda>_. True"
  by unfold_locales (simp_all add: transaction_header_size_def encode_decode_header)

text \<open>The prefix of a transaction decodes to its header and leaves its data.\<close>

lemma decode_transaction_prefix [simp]:
  "decode_header (take 20 (encode_transaction h data)) = h"
  "drop 20 (encode_transaction h data) = data"
  "length (encode_transaction h data) = 20 + length data"
  by (simp_all add: encode_transaction_def)

section \<open>Properties\<close>

text \<open>C20: The dynamic-size header decoder never reads out of bounds, and it accepts exactly
  the 20-byte encodings: any accepted byte string is the one wire form of the header returned,
  whatever its flag, type and sizes, and the errors are truncation below 20 bytes and trailing
  bytes above.\<close>

theorem transaction_header_codec_exact:
  "(try_decode_header bs = Some (Inr h) \<longleftrightarrow> bs = encode_header h) \<and>
   (try_decode_header bs = Some (Inl e) \<longleftrightarrow>
      (length bs < 20 \<and> e = truncated) \<or> (length bs > 20 \<and> e = trailing_bytes)) \<and>
   try_decode_header bs \<noteq> None"
  unfolding try_decode_header_fixed
  using tran.accepts_exactly [of bs h] tran.error_cases [of bs e] tran.fixed.dec_safe [of bs]
  by (simp add: transaction_header_size_def)

end
