(* ===== verification/Wire_Constants.thy ===== *)
theory Wire_Constants
  imports Endian
begin

text \<open>
  The constant tables of \<open>hotline/protocol/constants.h\<close>.  Each C++ enumeration has a
  fixed underlying type, so a value read from the wire can be any 16-bit number: the codecs carry
  the number, and a datatype lists the enumerators with their values.  The lemmas state which
  identifiers collide (two pairs of field IDs, by the comments of the header) and that no others
  do.
\<close>

section \<open>Enumerations\<close>

datatype (plugins only: size) TransactionType =
    TT_Error | TT_GetMessages | TT_NewMessage | TT_PostMessage | TT_ServerMessage | TT_ChatSend
  | TT_ChatMessage | TT_Login | TT_SendInstantMessage | TT_ShowAgreement | TT_DisconnectUser
  | TT_DisconnectMessage | TT_InviteNewChat | TT_InviteToChat | TT_RejectChatInvite
  | TT_JoinChat | TT_LeaveChat | TT_NotifyChatChangeUser | TT_NotifyChatDeleteUser
  | TT_NotifyChatSubject | TT_SetChatSubject | TT_Agreed | TT_ServerBanner | TT_IconChange
  | TT_NickChange | TT_FakeRed | TT_Away | TT_CrazyServer | TT_BlockDownload | TT_Visible
  | TT_AdminSpector | TT_StandardMessage | TT_GetFileNameList | TT_DownloadFile | TT_UploadFile
  | TT_DeleteFile | TT_NewFolder | TT_GetFileInfo | TT_SetFileInfo | TT_MoveFile
  | TT_MakeFileAlias | TT_DownloadFolder | TT_DownloadInfo | TT_DownloadBanner
  | TT_UploadFolder | TT_KillDownload | TT_GetUserNameList | TT_NotifyChangeUser
  | TT_NotifyDeleteUser | TT_GetClientInfoText | TT_SetClientUserInfo | TT_GetUserList
  | TT_SetUserList | TT_NewUser | TT_DeleteUser | TT_GetUser | TT_SetUser | TT_UserAccess
  | TT_UserBroadcast | TT_GetNewsCatNameList | TT_GetNewsArtNameList | TT_DelNewsItem
  | TT_NewNewsFolder | TT_NewNewsCat | TT_GetNewsArtData | TT_PostNewsArt | TT_DelNewsArt
  | TT_KeepConnectionAlive

primrec transaction_type_value :: "TransactionType \<Rightarrow> u16" where
  "transaction_type_value TT_Error = 100"
| "transaction_type_value TT_GetMessages = 101"
| "transaction_type_value TT_NewMessage = 102"
| "transaction_type_value TT_PostMessage = 103"
| "transaction_type_value TT_ServerMessage = 104"
| "transaction_type_value TT_ChatSend = 105"
| "transaction_type_value TT_ChatMessage = 106"
| "transaction_type_value TT_Login = 107"
| "transaction_type_value TT_SendInstantMessage = 108"
| "transaction_type_value TT_ShowAgreement = 109"
| "transaction_type_value TT_DisconnectUser = 110"
| "transaction_type_value TT_DisconnectMessage = 111"
| "transaction_type_value TT_InviteNewChat = 112"
| "transaction_type_value TT_InviteToChat = 113"
| "transaction_type_value TT_RejectChatInvite = 114"
| "transaction_type_value TT_JoinChat = 115"
| "transaction_type_value TT_LeaveChat = 116"
| "transaction_type_value TT_NotifyChatChangeUser = 117"
| "transaction_type_value TT_NotifyChatDeleteUser = 118"
| "transaction_type_value TT_NotifyChatSubject = 119"
| "transaction_type_value TT_SetChatSubject = 120"
| "transaction_type_value TT_Agreed = 121"
| "transaction_type_value TT_ServerBanner = 122"
| "transaction_type_value TT_IconChange = 123"
| "transaction_type_value TT_NickChange = 124"
| "transaction_type_value TT_FakeRed = 125"
| "transaction_type_value TT_Away = 126"
| "transaction_type_value TT_CrazyServer = 127"
| "transaction_type_value TT_BlockDownload = 128"
| "transaction_type_value TT_Visible = 129"
| "transaction_type_value TT_AdminSpector = 130"
| "transaction_type_value TT_StandardMessage = 131"
| "transaction_type_value TT_GetFileNameList = 200"
| "transaction_type_value TT_DownloadFile = 202"
| "transaction_type_value TT_UploadFile = 203"
| "transaction_type_value TT_DeleteFile = 204"
| "transaction_type_value TT_NewFolder = 205"
| "transaction_type_value TT_GetFileInfo = 206"
| "transaction_type_value TT_SetFileInfo = 207"
| "transaction_type_value TT_MoveFile = 208"
| "transaction_type_value TT_MakeFileAlias = 209"
| "transaction_type_value TT_DownloadFolder = 210"
| "transaction_type_value TT_DownloadInfo = 211"
| "transaction_type_value TT_DownloadBanner = 212"
| "transaction_type_value TT_UploadFolder = 213"
| "transaction_type_value TT_KillDownload = 214"
| "transaction_type_value TT_GetUserNameList = 300"
| "transaction_type_value TT_NotifyChangeUser = 301"
| "transaction_type_value TT_NotifyDeleteUser = 302"
| "transaction_type_value TT_GetClientInfoText = 303"
| "transaction_type_value TT_SetClientUserInfo = 304"
| "transaction_type_value TT_GetUserList = 348"
| "transaction_type_value TT_SetUserList = 349"
| "transaction_type_value TT_NewUser = 350"
| "transaction_type_value TT_DeleteUser = 351"
| "transaction_type_value TT_GetUser = 352"
| "transaction_type_value TT_SetUser = 353"
| "transaction_type_value TT_UserAccess = 354"
| "transaction_type_value TT_UserBroadcast = 355"
| "transaction_type_value TT_GetNewsCatNameList = 370"
| "transaction_type_value TT_GetNewsArtNameList = 371"
| "transaction_type_value TT_DelNewsItem = 380"
| "transaction_type_value TT_NewNewsFolder = 381"
| "transaction_type_value TT_NewNewsCat = 382"
| "transaction_type_value TT_GetNewsArtData = 400"
| "transaction_type_value TT_PostNewsArt = 410"
| "transaction_type_value TT_DelNewsArt = 411"
| "transaction_type_value TT_KeepConnectionAlive = 500"

datatype (plugins only: size) FieldId =
    F_SessionKey | F_MacAlg | F_ServerCipherAlg | F_ClientCipherAlg | F_ErrorText | F_Data
  | F_UserName | F_UserId | F_UserIconId | F_UserLogin | F_UserPassword | F_RefNum
  | F_TransferSize | F_ChatOptions | F_UserAccess | F_UserAlias | F_UserFlags | F_Options
  | F_ChatId | F_ChatSubject | F_WaitingCount | F_IconId | F_NickName | F_FakeRed | F_Away
  | F_BlockDownload | F_Visible | F_AdminSpector | F_StandardMessage | F_Number
  | F_ServerAgreement | F_ServerBanner | F_ServerBannerType | F_ServerBannerUrl
  | F_NoServerAgreement | F_Vers | F_CommunityBannerId | F_ServerName | F_FileNameWithInfo
  | F_FileName | F_FilePath | F_FileResumeData | F_FileXferOptions | F_FileTypeString
  | F_FileCreatorString | F_FileSize | F_FileCreateDate | F_FileModifyDate | F_FileComment
  | F_FileNewName | F_FileNewPath | F_FileType | F_QuotingMsg | F_AutomaticResponse
  | F_FldrItemCount | F_UserNameWithInfo | F_NewsCategoryGuid | F_NewsCatListData
  | F_NewsArtListData | F_NewsCatName | F_NewsCatListData15 | F_NewsPath | F_NewsArtId
  | F_NewsArtDataFlav | F_NewsArtTitle | F_NewsArtPoster | F_NewsArtDate | F_NewsArtPrevArt
  | F_NewsArtNextArt | F_NewsArtData | F_NewsArtFlags | F_NewsArtParentArt
  | F_NewsArt1stChildArt | F_NewsArtRecurseDel

primrec field_id_value :: "FieldId \<Rightarrow> u16" where
  "field_id_value F_SessionKey = 3587"
| "field_id_value F_MacAlg = 3588"
| "field_id_value F_ServerCipherAlg = 3777"
| "field_id_value F_ClientCipherAlg = 3778"
| "field_id_value F_ErrorText = 100"
| "field_id_value F_Data = 101"
| "field_id_value F_UserName = 102"
| "field_id_value F_UserId = 103"
| "field_id_value F_UserIconId = 104"
| "field_id_value F_UserLogin = 105"
| "field_id_value F_UserPassword = 106"
| "field_id_value F_RefNum = 107"
| "field_id_value F_TransferSize = 108"
| "field_id_value F_ChatOptions = 109"
| "field_id_value F_UserAccess = 110"
| "field_id_value F_UserAlias = 111"
| "field_id_value F_UserFlags = 112"
| "field_id_value F_Options = 113"
| "field_id_value F_ChatId = 114"
| "field_id_value F_ChatSubject = 115"
| "field_id_value F_WaitingCount = 116"
| "field_id_value F_IconId = 117"
| "field_id_value F_NickName = 118"
| "field_id_value F_FakeRed = 119"
| "field_id_value F_Away = 120"
| "field_id_value F_BlockDownload = 121"
| "field_id_value F_Visible = 112"
| "field_id_value F_AdminSpector = 122"
| "field_id_value F_StandardMessage = 123"
| "field_id_value F_Number = 114"
| "field_id_value F_ServerAgreement = 150"
| "field_id_value F_ServerBanner = 151"
| "field_id_value F_ServerBannerType = 152"
| "field_id_value F_ServerBannerUrl = 153"
| "field_id_value F_NoServerAgreement = 154"
| "field_id_value F_Vers = 160"
| "field_id_value F_CommunityBannerId = 161"
| "field_id_value F_ServerName = 162"
| "field_id_value F_FileNameWithInfo = 200"
| "field_id_value F_FileName = 201"
| "field_id_value F_FilePath = 202"
| "field_id_value F_FileResumeData = 203"
| "field_id_value F_FileXferOptions = 204"
| "field_id_value F_FileTypeString = 205"
| "field_id_value F_FileCreatorString = 206"
| "field_id_value F_FileSize = 207"
| "field_id_value F_FileCreateDate = 208"
| "field_id_value F_FileModifyDate = 209"
| "field_id_value F_FileComment = 210"
| "field_id_value F_FileNewName = 211"
| "field_id_value F_FileNewPath = 212"
| "field_id_value F_FileType = 213"
| "field_id_value F_QuotingMsg = 214"
| "field_id_value F_AutomaticResponse = 215"
| "field_id_value F_FldrItemCount = 220"
| "field_id_value F_UserNameWithInfo = 300"
| "field_id_value F_NewsCategoryGuid = 319"
| "field_id_value F_NewsCatListData = 320"
| "field_id_value F_NewsArtListData = 321"
| "field_id_value F_NewsCatName = 322"
| "field_id_value F_NewsCatListData15 = 323"
| "field_id_value F_NewsPath = 325"
| "field_id_value F_NewsArtId = 326"
| "field_id_value F_NewsArtDataFlav = 327"
| "field_id_value F_NewsArtTitle = 328"
| "field_id_value F_NewsArtPoster = 329"
| "field_id_value F_NewsArtDate = 330"
| "field_id_value F_NewsArtPrevArt = 331"
| "field_id_value F_NewsArtNextArt = 332"
| "field_id_value F_NewsArtData = 333"
| "field_id_value F_NewsArtFlags = 334"
| "field_id_value F_NewsArtParentArt = 335"
| "field_id_value F_NewsArt1stChildArt = 336"
| "field_id_value F_NewsArtRecurseDel = 337"

datatype (plugins only: size) AccessPrivilege =
    P_DeleteFile | P_UploadFile | P_DownloadFile | P_RenameFile | P_MoveFile | P_CreateFolder
  | P_DeleteFolder | P_RenameFolder | P_MoveFolder | P_ReadChat | P_SendChat | P_CreateChat
  | P_CloseChat | P_ShowInList | P_CreateUser | P_DeleteUser | P_OpenUser | P_ModifyUser
  | P_ChangeOwnPass | P_SendPrivMsg | P_NewsReadArt | P_NewsPostArt | P_DisconUser
  | P_CannotBeDiscon | P_GetClientInfo | P_UploadAnywhere | P_AnyName | P_NoAgreement
  | P_SetFileComment | P_SetFolderComment | P_ViewDropBoxes | P_MakeAlias | P_Broadcast
  | P_NewsDeleteArt | P_NewsCreateCat | P_NewsDeleteCat | P_NewsCreateFldr | P_NewsDeleteFldr
  | P_UploadFolder | P_DownloadFolder | P_SendMessage | P_FakeRed | P_Away | P_ChangeNick
  | P_ChangeIcon | P_SpeakBefore | P_RefuseChat | P_BlockDownload | P_Visible
  | P_CanViewInvisible | P_CanFlood | P_ViewOwnDropBox | P_DontQueue | P_AdmInSpector
  | P_PostBefore

primrec privilege_value :: "AccessPrivilege \<Rightarrow> u8" where
  "privilege_value P_DeleteFile = 0"
| "privilege_value P_UploadFile = 1"
| "privilege_value P_DownloadFile = 2"
| "privilege_value P_RenameFile = 3"
| "privilege_value P_MoveFile = 4"
| "privilege_value P_CreateFolder = 5"
| "privilege_value P_DeleteFolder = 6"
| "privilege_value P_RenameFolder = 7"
| "privilege_value P_MoveFolder = 8"
| "privilege_value P_ReadChat = 9"
| "privilege_value P_SendChat = 10"
| "privilege_value P_CreateChat = 11"
| "privilege_value P_CloseChat = 12"
| "privilege_value P_ShowInList = 13"
| "privilege_value P_CreateUser = 14"
| "privilege_value P_DeleteUser = 15"
| "privilege_value P_OpenUser = 16"
| "privilege_value P_ModifyUser = 17"
| "privilege_value P_ChangeOwnPass = 18"
| "privilege_value P_SendPrivMsg = 19"
| "privilege_value P_NewsReadArt = 20"
| "privilege_value P_NewsPostArt = 21"
| "privilege_value P_DisconUser = 22"
| "privilege_value P_CannotBeDiscon = 23"
| "privilege_value P_GetClientInfo = 24"
| "privilege_value P_UploadAnywhere = 25"
| "privilege_value P_AnyName = 26"
| "privilege_value P_NoAgreement = 27"
| "privilege_value P_SetFileComment = 28"
| "privilege_value P_SetFolderComment = 29"
| "privilege_value P_ViewDropBoxes = 30"
| "privilege_value P_MakeAlias = 31"
| "privilege_value P_Broadcast = 32"
| "privilege_value P_NewsDeleteArt = 33"
| "privilege_value P_NewsCreateCat = 34"
| "privilege_value P_NewsDeleteCat = 35"
| "privilege_value P_NewsCreateFldr = 36"
| "privilege_value P_NewsDeleteFldr = 37"
| "privilege_value P_UploadFolder = 38"
| "privilege_value P_DownloadFolder = 39"
| "privilege_value P_SendMessage = 40"
| "privilege_value P_FakeRed = 41"
| "privilege_value P_Away = 42"
| "privilege_value P_ChangeNick = 43"
| "privilege_value P_ChangeIcon = 44"
| "privilege_value P_SpeakBefore = 45"
| "privilege_value P_RefuseChat = 46"
| "privilege_value P_BlockDownload = 47"
| "privilege_value P_Visible = 48"
| "privilege_value P_CanViewInvisible = 49"
| "privilege_value P_CanFlood = 50"
| "privilege_value P_ViewOwnDropBox = 51"
| "privilege_value P_DontQueue = 52"
| "privilege_value P_AdmInSpector = 53"
| "privilege_value P_PostBefore = 54"

datatype UserOption =
    UO_UserMessage | UO_RefuseMessage | UO_RefuseChat | UO_AutomaticResponse

primrec user_option_value :: "UserOption \<Rightarrow> u16" where
  "user_option_value UO_UserMessage = 1"
| "user_option_value UO_RefuseMessage = 2"
| "user_option_value UO_RefuseChat = 3"
| "user_option_value UO_AutomaticResponse = 4"

datatype FolderDownloadAction =
    FD_SendFile | FD_ResumeFile | FD_NextFile

primrec folder_action_value :: "FolderDownloadAction \<Rightarrow> u16" where
  "folder_action_value FD_SendFile = 1"
| "folder_action_value FD_ResumeFile = 2"
| "folder_action_value FD_NextFile = 3"

section \<open>Tags, versions and sizes\<close>

definition kProtocolTrTp :: u32 where
  "kProtocolTrTp = four_cc CHR ''T'' CHR ''R'' CHR ''T'' CHR ''P''"

definition kProtocolNick :: u32 where
  "kProtocolNick = four_cc CHR ''N'' CHR ''I'' CHR ''C'' CHR ''K''"

definition kSubProtocolHotl :: u32 where
  "kSubProtocolHotl = four_cc CHR ''H'' CHR ''O'' CHR ''T'' CHR ''L''"

definition kSubProtocolHtxf :: u32 where
  "kSubProtocolHtxf = four_cc CHR ''H'' CHR ''T'' CHR ''X'' CHR ''F''"

definition kProtocolVersion :: u16 where "kProtocolVersion = 1"
definition kClientSubVersion :: u16 where "kClientSubVersion = 2"
definition kTransferSubVersion :: u16 where "kTransferSubVersion = 3"

definition kFrameworkMaxTransactionReceiveSize :: u32 where
  "kFrameworkMaxTransactionReceiveSize = 2097152"

definition kServerMaxTransactionReceiveSize :: u32 where
  "kServerMaxTransactionReceiveSize = 524288"

definition kAccessPrivilegeCount :: nat where "kAccessPrivilegeCount = 55"
definition kTransactionHeaderSize :: nat where "kTransactionHeaderSize = 20"
definition kClientHandshakeSize :: nat where "kClientHandshakeSize = 12"
definition kServerHandshakeReplySize :: nat where "kServerHandshakeReplySize = 8"
definition kMaxFieldDataSize :: nat where "kMaxFieldDataSize = 65535"
definition kMaxFieldCount :: nat where "kMaxFieldCount = 65535"

lemmas size_constants [simp] =
  kTransactionHeaderSize_def kClientHandshakeSize_def kServerHandshakeReplySize_def
  kMaxFieldDataSize_def kMaxFieldCount_def

lemma tag_values:
  "kProtocolTrTp = 0x54525450" "kProtocolNick = 0x4E49434B"
  "kSubProtocolHotl = 0x484F544C" "kSubProtocolHtxf = 0x48545846"
  by (simp_all add: kProtocolTrTp_def kProtocolNick_def kSubProtocolHotl_def kSubProtocolHtxf_def
      four_cc_def byte_of_char_def)

section \<open>Collisions\<close>

definition all_transaction_types :: "TransactionType list" where
  "all_transaction_types =
     [TT_Error, TT_GetMessages, TT_NewMessage, TT_PostMessage, TT_ServerMessage, TT_ChatSend,
      TT_ChatMessage, TT_Login, TT_SendInstantMessage, TT_ShowAgreement, TT_DisconnectUser,
      TT_DisconnectMessage, TT_InviteNewChat, TT_InviteToChat, TT_RejectChatInvite, TT_JoinChat,
      TT_LeaveChat, TT_NotifyChatChangeUser, TT_NotifyChatDeleteUser, TT_NotifyChatSubject,
      TT_SetChatSubject, TT_Agreed, TT_ServerBanner, TT_IconChange, TT_NickChange, TT_FakeRed,
      TT_Away, TT_CrazyServer, TT_BlockDownload, TT_Visible, TT_AdminSpector,
      TT_StandardMessage, TT_GetFileNameList, TT_DownloadFile, TT_UploadFile, TT_DeleteFile,
      TT_NewFolder, TT_GetFileInfo, TT_SetFileInfo, TT_MoveFile, TT_MakeFileAlias,
      TT_DownloadFolder, TT_DownloadInfo, TT_DownloadBanner, TT_UploadFolder, TT_KillDownload,
      TT_GetUserNameList, TT_NotifyChangeUser, TT_NotifyDeleteUser, TT_GetClientInfoText,
      TT_SetClientUserInfo, TT_GetUserList, TT_SetUserList, TT_NewUser, TT_DeleteUser,
      TT_GetUser, TT_SetUser, TT_UserAccess, TT_UserBroadcast, TT_GetNewsCatNameList,
      TT_GetNewsArtNameList, TT_DelNewsItem, TT_NewNewsFolder, TT_NewNewsCat, TT_GetNewsArtData,
      TT_PostNewsArt, TT_DelNewsArt, TT_KeepConnectionAlive]"

definition distinct_field_ids :: "FieldId list" where
  "distinct_field_ids =
     [F_SessionKey, F_MacAlg, F_ServerCipherAlg, F_ClientCipherAlg, F_ErrorText, F_Data,
      F_UserName, F_UserId, F_UserIconId, F_UserLogin, F_UserPassword, F_RefNum, F_TransferSize,
      F_ChatOptions, F_UserAccess, F_UserAlias, F_UserFlags, F_Options, F_ChatId, F_ChatSubject,
      F_WaitingCount, F_IconId, F_NickName, F_FakeRed, F_Away, F_BlockDownload, F_AdminSpector,
      F_StandardMessage, F_ServerAgreement, F_ServerBanner, F_ServerBannerType,
      F_ServerBannerUrl, F_NoServerAgreement, F_Vers, F_CommunityBannerId, F_ServerName,
      F_FileNameWithInfo, F_FileName, F_FilePath, F_FileResumeData, F_FileXferOptions,
      F_FileTypeString, F_FileCreatorString, F_FileSize, F_FileCreateDate, F_FileModifyDate,
      F_FileComment, F_FileNewName, F_FileNewPath, F_FileType, F_QuotingMsg,
      F_AutomaticResponse, F_FldrItemCount, F_UserNameWithInfo, F_NewsCategoryGuid,
      F_NewsCatListData, F_NewsArtListData, F_NewsCatName, F_NewsCatListData15, F_NewsPath,
      F_NewsArtId, F_NewsArtDataFlav, F_NewsArtTitle, F_NewsArtPoster, F_NewsArtDate,
      F_NewsArtPrevArt, F_NewsArtNextArt, F_NewsArtData, F_NewsArtFlags, F_NewsArtParentArt,
      F_NewsArt1stChildArt, F_NewsArtRecurseDel]"

definition all_privileges :: "AccessPrivilege list" where
  "all_privileges =
     [P_DeleteFile, P_UploadFile, P_DownloadFile, P_RenameFile, P_MoveFile, P_CreateFolder,
      P_DeleteFolder, P_RenameFolder, P_MoveFolder, P_ReadChat, P_SendChat, P_CreateChat,
      P_CloseChat, P_ShowInList, P_CreateUser, P_DeleteUser, P_OpenUser, P_ModifyUser,
      P_ChangeOwnPass, P_SendPrivMsg, P_NewsReadArt, P_NewsPostArt, P_DisconUser,
      P_CannotBeDiscon, P_GetClientInfo, P_UploadAnywhere, P_AnyName, P_NoAgreement,
      P_SetFileComment, P_SetFolderComment, P_ViewDropBoxes, P_MakeAlias, P_Broadcast,
      P_NewsDeleteArt, P_NewsCreateCat, P_NewsDeleteCat, P_NewsCreateFldr, P_NewsDeleteFldr,
      P_UploadFolder, P_DownloadFolder, P_SendMessage, P_FakeRed, P_Away, P_ChangeNick,
      P_ChangeIcon, P_SpeakBefore, P_RefuseChat, P_BlockDownload, P_Visible, P_CanViewInvisible,
      P_CanFlood, P_ViewOwnDropBox, P_DontQueue, P_AdmInSpector, P_PostBefore]"

lemma all_transaction_types_complete: "x \<in> set all_transaction_types"
  by (cases x) (simp_all add: all_transaction_types_def)

lemma distinct_field_ids_complete: "x \<in> set distinct_field_ids \<or> x = F_Visible \<or> x = F_Number"
  by (cases x) (simp_all add: distinct_field_ids_def)

lemma all_privileges_complete: "x \<in> set all_privileges"
  by (cases x) (simp_all add: all_privileges_def)

lemma all_privileges_in_order: "map privilege_value all_privileges = map word_of_nat [0..<kAccessPrivilegeCount]"
  by (simp add: all_privileges_def kAccessPrivilegeCount_def upt_rec)

lemma transaction_types_distinct: "distinct (map transaction_type_value all_transaction_types)"
  by (simp add: all_transaction_types_def)

lemma field_ids_distinct: "distinct (map field_id_value distinct_field_ids)"
  by (simp add: distinct_field_ids_def)

lemma privilege_value_less: "unat (privilege_value p) < 55"
  by (cases p) simp_all

lemma privilege_value_inj: "privilege_value p = privilege_value q \<Longrightarrow> p = q"
proof -
  have "distinct (map privilege_value all_privileges)"
    unfolding all_privileges_in_order
    by (simp add: distinct_map inj_on_def kAccessPrivilegeCount_def word_of_nat_eq_iff take_bit_eq_mod)
  moreover assume "privilege_value p = privilege_value q"
  ultimately show ?thesis
    using all_privileges_complete by (auto simp: distinct_map dest: inj_onD)
qed

end
