(* ===== verification/Field_List.thy ===== *)
theory Field_List
  imports Wire_Constants
begin

text \<open>
  The field list, the body of every transaction (\<open>hotline/protocol/field_list.h\<close>,
  \<open>field_list.cpp\<close>): a 16-bit count and that many fields, each a 16-bit identifier, a
  16-bit size and the data.  The list keeps wire order and duplicates.
\<close>

record field =
  field_id :: u16
  field_bytes :: bytes

type_synonym field_list = "field list"

section \<open>Codec\<close>

fun encode_fields :: "field_list \<Rightarrow> EncodeError + bytes" where
  "encode_fields [] = Inr []"
| "encode_fields (f # fs) =
     (if length (field_bytes f) > kMaxFieldDataSize then Inl element_too_large
      else case encode_fields fs of
             Inl e \<Rightarrow> Inl e
           | Inr rest \<Rightarrow> Inr (write_u16be (field_id f) @
               write_u16be (word_of_nat (length (field_bytes f))) @ field_bytes f @ rest))"

definition encode_field_list :: "field_list \<Rightarrow> EncodeError + bytes" where
  "encode_field_list l =
     (if length l > kMaxFieldCount then Inl count_too_large
      else case encode_fields l of
             Inl e \<Rightarrow> Inl e
           | Inr body \<Rightarrow> Inr (write_u16be (word_of_nat (length l)) @ body))"

definition decode_field :: "bytes \<Rightarrow> (DecodeError, field \<times> bytes) checked" where
  "decode_field bs =
     (if length bs < 4 then Some (Inl truncated)
      else do {
        fid \<leftarrow> u16be_at 0 bs;
        size \<leftarrow> u16be_at 2 bs;
        rest \<leftarrow> span_from 4 bs;
        if length rest < unat size then Some (Inl truncated)
        else do {
          data \<leftarrow> span_first (unat size) rest;
          rest' \<leftarrow> span_from (unat size) rest;
          Some (Inr (\<lparr> field_id = fid, field_bytes = data \<rparr>, rest'))
        }
      })"

definition decode_field_list :: "bytes \<Rightarrow> (DecodeError, field_list) checked" where
  "decode_field_list bs =
     (if length bs < 2 then Some (Inl truncated)
      else do {
        count \<leftarrow> u16be_at 0 bs;
        rest \<leftarrow> span_from 2 bs;
        and_then (read_many decode_field (unat count) rest) (\<lambda>(fs, rest').
          if rest' \<noteq> [] then Some (Inl trailing_bytes) else Some (Inr fs))
      })"

section \<open>Lookup\<close>

text \<open>
  The pointer \<open>find_field\<close> returns is either the field read (the \<open>const\<close> overload) or
  the place to write to (the mutable overload), an index here.
\<close>

fun find_field :: "field_list \<Rightarrow> u16 \<Rightarrow> field option" where
  "find_field [] fid = None"
| "find_field (f # fs) fid = (if field_id f = fid then Some f else find_field fs fid)"

fun find_field_place :: "field_list \<Rightarrow> u16 \<Rightarrow> nat option" where
  "find_field_place [] fid = None"
| "find_field_place (f # fs) fid =
     (if field_id f = fid then Some 0 else map_option Suc (find_field_place fs fid))"

definition field_data :: "field_list \<Rightarrow> u16 \<Rightarrow> bytes" where
  "field_data l fid = (case find_field l fid of Some f \<Rightarrow> field_bytes f | None \<Rightarrow> [])"

section \<open>Integer and text fields\<close>

text \<open>A \<open>std::int32_t\<close> is its 32-bit pattern; \<^const>\<open>sint\<close> reads its value.\<close>

definition make_integer_field :: "u16 \<Rightarrow> u32 \<Rightarrow> field" where
  "make_integer_field fid v = \<lparr> field_id = fid, field_bytes =
     (if 0 \<le> sint v \<and> sint v \<le> 0xFFFF then write_u16be (ucast v) else write_u32be v) \<rparr>"

definition decode_integer_field :: "field \<Rightarrow> (DecodeError, u32) checked" where
  "decode_integer_field f =
     (let data = field_bytes f in
      if length data = 1 then do { b \<leftarrow> span_at 0 data; Some (Inr (ucast b)) }
      else if length data = 2 then do { w \<leftarrow> u16be_at 0 data; Some (Inr (ucast w)) }
      else if length data = 4 then do { w \<leftarrow> u32be_at 0 data; Some (Inr w) }
      else Some (Inl invalid_integer_field_size))"

definition make_string_field :: "u16 \<Rightarrow> string \<Rightarrow> field" where
  "make_string_field fid text = \<lparr> field_id = fid, field_bytes = map byte_of_char text \<rparr>"

definition decode_string_field :: "field \<Rightarrow> string" where
  "decode_string_field f = map char_of_byte (field_bytes f)"

section \<open>The field codec meets the element contract\<close>

definition field_ok :: "field \<Rightarrow> bool" where
  "field_ok f \<longleftrightarrow> length (field_bytes f) \<le> kMaxFieldDataSize"

definition fields_ok :: "field_list \<Rightarrow> bool" where
  "fields_ok l \<longleftrightarrow> length l \<le> kMaxFieldCount \<and> list_all field_ok l"

definition emit_field :: "field \<Rightarrow> bytes" where
  "emit_field f = write_u16be (field_id f) @ write_u16be (word_of_nat (length (field_bytes f))) @
     field_bytes f"

lemma length_emit_field: "length (emit_field f) = 4 + length (field_bytes f)"
  by (simp add: emit_field_def)

lemma decode_field_emit:
  assumes "field_ok f"
  shows "decode_field (emit_field f @ rest) = Some (Inr (f, rest))"
  using assms by (simp add: decode_field_def emit_field_def field_ok_def span_simps)

lemma decode_field_safe: "decode_field bs \<noteq> None"
  by (simp add: decode_field_def span_simps)

lemma decode_field_inv:
  assumes "decode_field bs = Some (Inr (f, rest))"
  shows "field_ok f \<and> bs = emit_field f @ rest"
proof -
  let ?n = "unat (read_u16be (take 2 (drop 2 bs)))"
  have l: "4 \<le> length bs" and n: "?n \<le> length (drop 4 bs)"
    and f: "f = \<lparr> field_id = read_u16be (take 2 bs), field_bytes = take ?n (drop 4 bs) \<rparr>"
    and r: "rest = drop ?n (drop 4 bs)"
    using assms by (auto simp: decode_field_def span_simps split: if_splits)
  have "emit_field f @ rest = take 2 bs @ take 2 (drop 2 bs) @ drop 4 bs"
    using l n unfolding f r by (simp add: emit_field_def min_absorb2 del: drop_drop)
  also have "take 2 (drop 2 bs) @ drop 4 bs = drop 2 bs" by (rule take_drop_join) simp
  finally show ?thesis using n by (simp add: f field_ok_def)
qed

interpretation fld: canonical_element emit_field decode_field field_ok
  by unfold_locales (auto simp: decode_field_emit decode_field_safe dest: decode_field_inv)

lemma encode_fields_Cons:
  "encode_fields (f # fs) =
     (if field_ok f then (case encode_fields fs of Inl e \<Rightarrow> Inl e | Inr rest \<Rightarrow> Inr (emit_field f @ rest))
      else Inl element_too_large)"
  by (simp add: field_ok_def emit_field_def split: sum.split)

lemma encode_fields_emit:
  "encode_fields l = (if list_all field_ok l then Inr (concat (map emit_field l)) else Inl element_too_large)"
  by (induction l) (auto simp: encode_fields_Cons simp del: encode_fields.simps(2))

lemma encode_field_list_cases:
  "encode_field_list l =
     (if length l > kMaxFieldCount then Inl count_too_large
      else if list_all field_ok l
        then Inr (write_u16be (word_of_nat (length l)) @ concat (map emit_field l))
      else Inl element_too_large)"
  by (simp add: encode_field_list_def encode_fields_emit)

lemma decode_field_list_step:
  "decode_field_list (write_u16be n @ body) =
     and_then (read_many decode_field (unat n) body) (\<lambda>(fs, rest).
       if rest \<noteq> [] then Some (Inl trailing_bytes) else Some (Inr fs))"
  by (simp add: decode_field_list_def span_simps)

lemma decode_field_list_safe: "decode_field_list bs \<noteq> None"
proof -
  have "and_then (read_many decode_field n rest) (\<lambda>(fs, rest').
      if rest' \<noteq> [] then Some (Inl trailing_bytes) else Some (Inr fs)) \<noteq> None" for n rest
    by (rule and_then_safe [OF fld.many_safe]) (auto split: prod.splits)
  then show ?thesis by (simp add: decode_field_list_def span_simps)
qed

lemma decode_field_list_inv:
  assumes "decode_field_list bs = Some (Inr l)"
  shows "fields_ok l \<and> encode_field_list l = Inr bs"
proof -
  let ?n = "unat (read_u16be (take 2 bs))"
  have l2: "2 \<le> length bs"
    and many: "read_many decode_field ?n (drop 2 bs) = Some (Inr (l, []))"
    using assms by (auto simp: decode_field_list_def span_simps and_then_Ok split: if_splits)
  from fld.many_inv [OF many] have ok: "list_all field_ok l" and n: "length l = ?n"
    and b: "drop 2 bs = concat (map emit_field l)" by simp_all
  have "write_u16be (word_of_nat (length l)) @ drop 2 bs = bs"
    using l2 by (simp add: n)
  moreover have "length l \<le> 65535" unfolding n by (rule unat_u16_le)
  ultimately show ?thesis using ok by (simp add: fields_ok_def encode_field_list_cases b)
qed

interpretation flist: canonical_codec encode_field_list decode_field_list fields_ok
proof (unfold_locales, goal_cases)
  case (1 l)
  then show ?case by (simp add: fields_ok_def encode_field_list_cases)
next
  case (2 l bs)
  then show ?case
    by (auto simp: fields_ok_def encode_field_list_cases decode_field_list_step fld.many_emit_all)
next
  case (3 bs)
  show ?case by (rule decode_field_list_safe)
next
  case (4 l bs xs)
  then show ?case
    by (auto simp: fields_ok_def encode_field_list_cases decode_field_list_step fld.many_emit)
next
  case (5 bs l)
  then show ?case by (rule decode_field_list_inv)
qed

section \<open>Lookup and typed fields\<close>

lemma find_field_Some_iff:
  "find_field l fid = Some f \<longleftrightarrow>
     (\<exists>xs ys. l = xs @ f # ys \<and> field_id f = fid \<and> (\<forall>x\<in>set xs. field_id x \<noteq> fid))"
proof (induction l)
  case (Cons a l)
  show ?case
  proof (cases "field_id a = fid")
    case True
    then show ?thesis by (auto simp: Cons_eq_append_conv)
  next
    case False
    then show ?thesis
      by (auto simp: Cons.IH Cons_eq_append_conv) (metis list.set_intros(2) set_ConsD append_Cons)
  qed
qed simp

lemma find_field_None_iff: "find_field l fid = None \<longleftrightarrow> (\<forall>f\<in>set l. field_id f \<noteq> fid)"
  by (induction l) auto

lemma find_field_place_find:
  "find_field l fid = map_option (\<lambda>i. l ! i) (find_field_place l fid)"
  by (induction l) (auto simp: option.map_comp comp_def)

lemma find_field_place_less: "find_field_place l fid = Some i \<Longrightarrow> i < length l"
  by (induction l arbitrary: i) (auto split: if_splits)

lemma find_field_append:
  "find_field (xs @ ys) fid = (case find_field xs fid of Some f \<Rightarrow> Some f | None \<Rightarrow> find_field ys fid)"
  by (induction xs) auto

lemma uint_nonneg_sint:
  assumes "0 \<le> sint (v :: u32)"
  shows "uint v = sint v"
proof -
  have nb: "\<not> bit (uint v) 31" using assms by (simp add: sint_uint)
  have "uint v = take_bit (Suc 31) (uint v)"
    using uint_lt2p [of v] by (intro take_bit_int_eq_self [symmetric]) simp_all
  also have "\<dots> = take_bit 31 (uint v)" using nb by (simp only: take_bit_Suc_from_most) simp
  also have "\<dots> = sint v" using nb by (simp add: sint_uint signed_take_bit_eq_if_positive)
  finally show ?thesis .
qed

lemma ucast_ucast_small:
  assumes "0 \<le> sint (v :: u32)" "sint v \<le> 0xFFFF"
  shows "ucast (ucast v :: u16) = v"
proof -
  have "uint v < 65536" using assms uint_nonneg_sint [of v] by simp
  then have "take_bit 16 (uint v) = uint v" by (intro take_bit_int_eq_self) simp_all
  then show ?thesis
    by (simp only: word_uint_eq_iff unsigned_ucast_eq) (simp add: unsigned_take_bit_eq)
qed

lemma decode_make_integer_field:
  "decode_integer_field (make_integer_field fid v) = Some (Inr v)"
  by (simp add: decode_integer_field_def make_integer_field_def span_simps ucast_ucast_small)

lemma decode_integer_field_safe: "decode_integer_field f \<noteq> None"
  by (simp add: decode_integer_field_def span_simps Let_def)

section \<open>Properties\<close>

text \<open>C19: No byte string makes the field list decoder read out of bounds.  It accepts exactly the
  encodings of representable lists (at most 65535 fields of at most 65535 bytes), returning the
  fields in wire order, duplicates kept; so an accepted body re-encodes to the same bytes.\<close>

theorem field_list_codec_exact:
  "(decode_field_list bs = Some (Inr l) \<longleftrightarrow> fields_ok l \<and> encode_field_list l = Inr bs) \<and>
   decode_field_list bs \<noteq> None"
  using flist.accepts_iff flist.dec_safe by blast

text \<open>The encoder refuses a list exactly when it cannot be represented, and says why: too
  many fields first, otherwise a field that is too large.\<close>

theorem encode_field_list_errors:
  "encode_field_list l = Inl e \<longleftrightarrow>
     (e = count_too_large \<and> length l > 65535) \<or>
     (e = element_too_large \<and> length l \<le> 65535 \<and> (\<exists>f\<in>set l. length (field_bytes f) > 65535))"
  by (auto simp: encode_field_list_cases field_ok_def list_all_iff not_le)

text \<open>A field list cut at any place, or followed by anything, is refused: the body of a
  transaction cannot be confused with a part of it.\<close>

theorem field_list_self_delimiting:
  assumes "fields_ok l" and "encode_field_list l = Inr (bs @ xs)" and "xs \<noteq> []"
  shows "(\<exists>e. decode_field_list bs = Some (Inl e)) \<and>
    decode_field_list (bs @ xs @ ys) = (if ys = [] then Some (Inr l) else Some (Inl trailing_bytes))"
  using flist.cut_short_rejected [OF assms] flist.dec_enc [OF assms(1,2)]
    flist.dec_extended [OF assms(1,2), of ys]
  by auto

theorem field_list_self_delimiting_witness:
  "(\<exists>e. decode_field_list [0, 1, 0, 101, 0] = Some (Inl e)) \<and>
   decode_field_list ([0, 1, 0, 101, 0] @ [1, 7] @ [9]) = Some (Inl trailing_bytes)"
  using field_list_self_delimiting [of "[\<lparr> field_id = 101, field_bytes = [7] \<rparr>]"
      "[0, 1, 0, 101, 0]" "[1, 7]" "[9]"]
  by (simp add: fields_ok_def field_ok_def encode_field_list_def write_u16be_def)

text \<open>Both overloads of \<open>find_field\<close> return the first field of that identifier in wire order,
  or nothing when there is none.\<close>

theorem find_field_first:
  "(case find_field_place l fid of
      Some i \<Rightarrow> i < length l \<and> find_field l fid = Some (l ! i) \<and> field_id (l ! i) = fid
        \<and> (\<forall>j<i. field_id (l ! j) \<noteq> fid) \<and> field_data l fid = field_bytes (l ! i)
    | None \<Rightarrow> find_field l fid = None \<and> (\<forall>f\<in>set l. field_id f \<noteq> fid) \<and> field_data l fid = [])"
proof (induction l)
  case (Cons a l)
  then show ?case
    by (auto simp: field_data_def nth_Cons split: option.splits nat.splits)
qed (simp add: field_data_def)

text \<open>Every 32-bit integer survives the integer field: the encoding takes two bytes for
  0 to 65535 and four for the rest, and the decoder reads back the same value; any field whose
  size is not 1, 2 or 4 is an error, never a read out of bounds.\<close>

theorem integer_field_round_trip:
  "decode_integer_field (make_integer_field fid v) = Some (Inr v) \<and>
   length (field_bytes (make_integer_field fid v)) = (if 0 \<le> sint v \<and> sint v \<le> 65535 then 2 else 4) \<and>
   field_ok (make_integer_field fid v) \<and>
   decode_integer_field f \<noteq> None \<and>
   (decode_integer_field f = Some (Inl e) \<longleftrightarrow>
     e = invalid_integer_field_size \<and> length (field_bytes f) \<notin> {1, 2, 4})"
  using decode_make_integer_field [of fid v] decode_integer_field_safe [of f]
  by (auto simp: make_integer_field_def field_ok_def decode_integer_field_def Let_def span_simps)

text \<open>Text fields carry the characters verbatim, without terminator or length prefix.\<close>

theorem string_field_round_trip:
  "decode_string_field (make_string_field fid text) = text \<and>
   make_string_field (field_id f) (decode_string_field f) = f"
  by (simp add: decode_string_field_def make_string_field_def del: map_map)

end
