(* ===== verification/Connection.thy ===== *)
theory Connection
  imports Net_Socket Transaction_Codec Field_List Wire_Constants
begin

text \<open>
  The shared half of a connection (\<open>hotline/net/connection.h\<close>, \<open>connection.cpp\<close>): the send
  queue, the receive loop, transaction framing, the receive policy and multi-part reassembly.
  The class is a record; the socket's system calls go to the kernel script the record carries.

  The callbacks and hooks are parameters, as in the code: a callback is a function on the
  connection, because a callback may call the connection's public operations, and the hooks act
  on \<open>cn_env\<close>, whatever the owner of the callbacks and hooks keeps.  \<open>cn_callbacks\<close> is a
  history of the callbacks invoked, for the theorems; the code does not read it.
\<close>

section \<open>State\<close>

datatype ConnectionState =
    idle | awaiting_handshake_reply | awaiting_handshake | established | closing | dead

datatype ReceiveStage = stage_handshake | stage_header | stage_data

record received_transaction =
  rt_header :: transaction_header
  rt_data :: bytes

datatype callback = Established | Transaction received_transaction | Closed

record 'a crypto_hooks =
  cr_choose_flag :: "('a \<Rightarrow> u8 \<times> 'a) option"
  cr_encode :: "(bytes \<Rightarrow> bytes \<Rightarrow> u8 \<Rightarrow> 'a \<Rightarrow> bytes \<times> bytes \<times> 'a) option"
  cr_decode_header :: "(bytes \<Rightarrow> 'a \<Rightarrow> bytes \<times> u8 \<times> 'a) option"
  cr_decode_data :: "(bytes \<Rightarrow> u8 \<Rightarrow> 'a \<Rightarrow> bytes \<times> 'a) option"

definition no_crypto :: "'a crypto_hooks" where
  "no_crypto = \<lparr> cr_choose_flag = None, cr_encode = None, cr_decode_header = None,
     cr_decode_data = None \<rparr>"

record pending_send =
  ps_bytes :: bytes
  ps_offset :: nat

record partial_receive =
  pr_header :: transaction_header
  pr_data :: bytes

type_synonym part_key = "u8 \<times> u32"

record 'a connection =
  cn_max_receive_size :: u32
  cn_socket :: socket
  cn_state :: ConnectionState
  cn_crypto :: "'a crypto_hooks"
  cn_stage :: ReceiveStage
  cn_expected :: nat
  cn_inbound :: bytes
  cn_header_bytes :: bytes
  cn_pending_header :: transaction_header
  cn_pending_flag :: u8
  cn_pending_data :: bytes
  cn_partial :: "part_key \<Rightarrow> partial_receive option"
  cn_send_queue :: "pending_send list"
  cn_remote_sub_protocol :: u32
  cn_remote_version :: u16
  cn_env :: 'a
  cn_kernel :: kernel
  cn_callbacks :: "callback list"

record 'a events =
  ev_established :: "('a connection \<Rightarrow> 'a connection) option"
  ev_transaction :: "(received_transaction \<Rightarrow> 'a connection \<Rightarrow> 'a connection) option"
  ev_closed :: "('a connection \<Rightarrow> 'a connection) option"

definition no_events :: "'a events" where
  "no_events = \<lparr> ev_established = None, ev_transaction = None, ev_closed = None \<rparr>"

definition zero_header :: transaction_header where
  "zero_header = \<lparr> th_flag = 0, th_is_reply = 0, th_type = 0, th_id = 0, th_error = 0,
     th_total_size = 0, th_data_size = 0 \<rparr>"

definition connection_new :: "u32 \<Rightarrow> 'a \<Rightarrow> kernel \<Rightarrow> 'a connection" where
  "connection_new max_receive_size env k = \<lparr>
     cn_max_receive_size = max_receive_size, cn_socket = kInvalid, cn_state = idle,
     cn_crypto = no_crypto, cn_stage = stage_handshake, cn_expected = 0, cn_inbound = [],
     cn_header_bytes = replicate 20 0, cn_pending_header = zero_header, cn_pending_flag = 0,
     cn_pending_data = [], cn_partial = (\<lambda>_. None), cn_send_queue = [],
     cn_remote_sub_protocol = 0, cn_remote_version = 0,
     cn_env = env, cn_kernel = k, cn_callbacks = [] \<rparr>"

text \<open>\<open>if (events_.f) events_.f()\<close>.\<close>

definition invoke :: "callback \<Rightarrow> ('a connection \<Rightarrow> 'a connection) option \<Rightarrow> 'a connection \<Rightarrow> 'a connection" where
  "invoke e f c =
     (case f of None \<Rightarrow> c | Some g \<Rightarrow> g (c\<lparr> cn_callbacks := cn_callbacks c @ [e] \<rparr>))"

section \<open>Operations of the send side\<close>

definition is_dead :: "'a connection \<Rightarrow> bool" where
  "is_dead c = (cn_state c = dead)"

definition set_crypto :: "'a crypto_hooks \<Rightarrow> 'a connection \<Rightarrow> 'a connection" where
  "set_crypto hooks c = c\<lparr> cn_crypto := hooks \<rparr>"

definition close_connection :: "'a connection \<Rightarrow> 'a connection" where
  "close_connection c =
     (let (s, k) = socket_close (cn_socket c) (cn_kernel c) in c\<lparr> cn_socket := s, cn_kernel := k \<rparr>)"

definition queue_bytes :: "bytes \<Rightarrow> 'a connection \<Rightarrow> 'a connection" where
  "queue_bytes bs c =
     (if bs = [] then c
      else c\<lparr> cn_send_queue := cn_send_queue c @ [\<lparr> ps_bytes = bs, ps_offset = 0 \<rparr>] \<rparr>)"

definition mark_dead :: "'a events \<Rightarrow> 'a connection \<Rightarrow> 'a connection" where
  "mark_dead ev c =
     (if cn_state c = dead then c
      else invoke Closed (ev_closed ev) (close_connection (c\<lparr> cn_state := dead \<rparr>)))"

text \<open>The loop of \<open>flush_sends\<close> makes one \<open>send\<close> per round, so it ends when the finite kernel
  script does.\<close>

function flush_sends :: "'a events \<Rightarrow> 'a connection \<Rightarrow> 'a connection" where
  "flush_sends ev c =
     (case cn_send_queue c of
        [] \<Rightarrow> if cn_state c = closing then mark_dead ev c else c
      | pending # rest \<Rightarrow>
          (case socket_send (cn_socket c) (drop (ps_offset pending) (ps_bytes pending)) (cn_kernel c) of
             (Inl error, k) \<Rightarrow>
               (if error = would_block then c\<lparr> cn_kernel := k \<rparr>
                else if error = interrupted then flush_sends ev (c\<lparr> cn_kernel := k \<rparr>)
                else mark_dead ev (c\<lparr> cn_kernel := k \<rparr>))
           | (Inr sent, k) \<Rightarrow>
               (let offset = ps_offset pending + sent in
                flush_sends ev (c\<lparr> cn_kernel := k,
                  cn_send_queue := (if length (ps_bytes pending) \<le> offset then rest
                    else pending\<lparr> ps_offset := offset \<rparr> # rest) \<rparr>))))"
  by pat_completeness auto

lemma send_uses_script:
  "socket_send s b k = (r, k') \<Longrightarrow> r = Inl interrupted \<or> (\<exists>n. r = Inr n)
     \<Longrightarrow> length (kn_script k') < length (kn_script k)"
  by (auto simp: socket_send_def sys_def from_error_def split: if_splits list.splits sys_result.splits
      errno.splits)

termination flush_sends
  by (relation "measure (\<lambda>(ev, c). length (kn_script (cn_kernel c)))") (auto dest!: send_uses_script [OF sym])

declare flush_sends.simps [simp del]

definition queue_transaction ::
    "'a events \<Rightarrow> u16 \<Rightarrow> u32 \<Rightarrow> bytes \<Rightarrow> bool \<Rightarrow> u32 \<Rightarrow> 'a connection \<Rightarrow> 'a connection" where
  "queue_transaction ev kind tid data is_reply error c =
     (let header = \<lparr> th_flag = 0, th_is_reply = (if is_reply then 1 else 0), th_type = kind,
            th_id = tid, th_error = error, th_total_size = word_of_nat (length data),
            th_data_size = word_of_nat (length data) \<rparr> in
      case (cr_choose_flag (cn_crypto c), cr_encode (cn_crypto c)) of
        (Some choose_flag, Some encode) \<Rightarrow>
          (let (flag, env1) = choose_flag (cn_env c);
               (header_bytes, data_bytes, env2) =
                 encode (encode_header (header\<lparr> th_flag := flag \<rparr>)) data flag env1
           in flush_sends ev (queue_bytes (header_bytes @ data_bytes) (c\<lparr> cn_env := env2 \<rparr>)))
      | _ \<Rightarrow> flush_sends ev (queue_bytes (encode_header header @ data) c))"

definition queue_keepalive :: "'a events \<Rightarrow> 'a connection \<Rightarrow> 'a connection" where
  "queue_keepalive ev c =
     (case encode_field_list [] of
        Inr body \<Rightarrow>
          queue_transaction ev (transaction_type_value TT_KeepConnectionAlive) 0 body False 0 c
      | Inl _ \<Rightarrow> c)"

definition service_writable :: "'a events \<Rightarrow> 'a connection \<Rightarrow> 'a connection" where
  "service_writable ev c = (if cn_state c = dead then c else flush_sends ev c)"

definition mark_established :: "'a events \<Rightarrow> 'a connection \<Rightarrow> 'a connection" where
  "mark_established ev c = invoke Established (ev_established ev) (c\<lparr> cn_state := established \<rparr>)"

section \<open>Operations of the receive side\<close>

text \<open>The receive loop of \<open>service_readable\<close>: \<^const>\<open>True\<close> when it stopped because the
  socket would block.  Each round receives once, so it ends with the kernel script.\<close>

function receive_loop :: "'a connection \<Rightarrow> bool \<times> 'a connection" where
  "receive_loop c =
     (case socket_receive (cn_socket c) 4096 (cn_kernel c) of
        (Inl error, k) \<Rightarrow>
          (if error = would_block then (True, c\<lparr> cn_kernel := k \<rparr>)
           else if error = interrupted then receive_loop (c\<lparr> cn_kernel := k \<rparr>)
           else (False, c\<lparr> cn_kernel := k \<rparr>))
      | (Inr received, k) \<Rightarrow>
          receive_loop (c\<lparr> cn_kernel := k, cn_inbound := cn_inbound c @ received \<rparr>))"
  by pat_completeness auto

lemma receive_uses_script:
  "socket_receive s n k = (r, k') \<Longrightarrow> r = Inl interrupted \<or> (\<exists>x. r = Inr x)
     \<Longrightarrow> length (kn_script k') < length (kn_script k)"
  by (auto simp: socket_receive_def sys_def from_error_def Let_def
      split: if_splits list.splits sys_result.splits errno.splits)

termination receive_loop
  by (relation "measure (\<lambda>c. length (kn_script (cn_kernel c)))") (auto dest!: receive_uses_script [OF sym])

declare receive_loop.simps [simp del]

definition dispatch :: "'a events \<Rightarrow> transaction_header \<Rightarrow> bytes \<Rightarrow> 'a connection \<Rightarrow> 'a connection" where
  "dispatch ev header data c =
     (case ev_transaction ev of
        None \<Rightarrow> c
      | Some f \<Rightarrow>
          (let transaction = \<lparr> rt_header = header, rt_data = data \<rparr>
           in invoke (Transaction transaction) (Some (f transaction)) c))"

text \<open>\<open>complete_transaction\<close> in its two parts: decoding the data, and handing it on or adding it
  to the other parts of its transaction.\<close>

definition decode_pending :: "bytes \<Rightarrow> 'a connection \<Rightarrow> bytes \<times> 'a connection" where
  "decode_pending data c =
     (case cr_decode_data (cn_crypto c) of
        Some decode_data \<Rightarrow>
          (let (data', env) = decode_data data (cn_pending_flag c) (cn_env c)
           in (data', c\<lparr> cn_env := env \<rparr>))
      | None \<Rightarrow> (data, c))"

definition held_data :: "part_key \<Rightarrow> 'a connection \<Rightarrow> bytes" where
  "held_data key c = (case cn_partial c key of Some p \<Rightarrow> pr_data p | None \<Rightarrow> [])"

definition deliver :: "'a events \<Rightarrow> bytes \<Rightarrow> 'a connection \<Rightarrow> 'a connection" where
  "deliver ev data c =
     (let header = cn_pending_header c in
      if th_total_size header = th_data_size header then dispatch ev header data c
      else
        (let key = (th_is_reply header, th_id header);
             partial = \<lparr> pr_header = header, pr_data = held_data key c @ data \<rparr>;
             c1 = c\<lparr> cn_partial := (cn_partial c)(key \<mapsto> partial) \<rparr>
         in if unat (th_total_size (pr_header partial)) \<le> length (pr_data partial) then
              (let c2 = dispatch ev (pr_header partial) (pr_data partial) c1
               in c2\<lparr> cn_partial := (cn_partial c2)(key := None) \<rparr>)
            else c1))"

definition complete_transaction :: "'a events \<Rightarrow> bytes \<Rightarrow> 'a connection \<Rightarrow> 'a connection" where
  "complete_transaction ev data c = (let (data', c') = decode_pending data c in deliver ev data' c')"

definition refused :: "u32 \<Rightarrow> transaction_header \<Rightarrow> bool" where
  "refused max_receive_size h \<longleftrightarrow>
     th_total_size h = 0 \<or> th_data_size h = 0 \<or>
     th_total_size h > max_receive_size \<or> th_data_size h > max_receive_size"

text \<open>One round of \<open>parse_inbound\<close>: \<^const>\<open>Inl\<close> is a \<open>return\<close> and
  \<^const>\<open>Inr\<close> goes round again.  The handshake handler is the virtual function.\<close>

definition parse_round :: "'a events \<Rightarrow> ('a connection \<Rightarrow> 'a connection) \<Rightarrow> 'a connection
    \<Rightarrow> 'a connection + 'a connection" where
  "parse_round ev handle_handshake c =
     (if cn_state c = dead \<or> cn_state c = closing then Inl c
      else case cn_stage c of
        stage_handshake \<Rightarrow>
          (if length (cn_inbound c) < cn_expected c then Inl c
           else Inr ((handle_handshake c)\<lparr> cn_stage := stage_header,
             cn_expected := transaction_header_size \<rparr>))
      | stage_header \<Rightarrow>
          (if length (cn_inbound c) < transaction_header_size then Inl c
           else
             (let raw = take transaction_header_size (cn_inbound c);
                  (raw, flag, env) =
                    (case cr_decode_header (cn_crypto c) of
                       Some decode \<Rightarrow> decode raw (cn_env c)
                     | None \<Rightarrow> (raw, 0, cn_env c));
                  header = decode_header raw;
                  c = c\<lparr> cn_inbound := drop transaction_header_size (cn_inbound c),
                    cn_header_bytes := raw, cn_pending_flag := flag, cn_env := env,
                    cn_pending_header := header \<rparr>
              in if refused (cn_max_receive_size c) header then Inl (mark_dead ev c)
                 else Inr (c\<lparr> cn_pending_data := [], cn_stage := stage_data,
                   cn_expected := unat (th_data_size header) \<rparr>)))
      | stage_data \<Rightarrow>
          (if length (cn_inbound c) < cn_expected c then Inl c
           else
             (let data = cn_pending_data c @ take (cn_expected c) (cn_inbound c);
                  c = c\<lparr> cn_pending_data := [], cn_inbound := drop (cn_expected c) (cn_inbound c) \<rparr>
              in Inr ((complete_transaction ev data c)\<lparr> cn_stage := stage_header,
                   cn_expected := transaction_header_size \<rparr>))))"

partial_function (option) parse_inbound :: "'a events \<Rightarrow> ('a connection \<Rightarrow> 'a connection)
    \<Rightarrow> 'a connection \<Rightarrow> 'a connection option" where
  "parse_inbound ev handle_handshake c =
     (case parse_round ev handle_handshake c of
        Inl c' \<Rightarrow> Some c'
      | Inr c' \<Rightarrow> parse_inbound ev handle_handshake c')"

definition service_readable :: "'a events \<Rightarrow> ('a connection \<Rightarrow> 'a connection)
    \<Rightarrow> 'a connection \<Rightarrow> 'a connection option" where
  "service_readable ev handle_handshake c =
     (if cn_state c = dead then Some c
      else case receive_loop c of
        (True, c1) \<Rightarrow> parse_inbound ev handle_handshake c1
      | (False, c1) \<Rightarrow> Some (mark_dead ev c1))"

end
