(* ===== verification/Connection_Laws.thy ===== *)
theory Connection_Laws
  imports Connection
begin

text \<open>
  The contract between a connection and its owner.  \<open>send_side f\<close> says that \<open>f\<close> works on
  the send side only: it leaves the receive state alone and does not depend on the bytes that
  wait to be parsed, and it may end the connection but never revives it.  Every public operation
  except \<open>service_readable\<close> has this property, so every callback built from them has it.
\<close>

section \<open>The send side\<close>

definition queue_ok :: "'a connection \<Rightarrow> bool" where
  "queue_ok c \<longleftrightarrow> (\<forall>p\<in>set (cn_send_queue c). ps_offset p < length (ps_bytes p)) \<and>
     (cn_state c = dead \<longrightarrow> cn_socket c = kInvalid)"

text \<open>What may happen to state and callback history: nothing, or the one transition to dead.\<close>

definition may_die :: "'a connection \<Rightarrow> 'a connection \<Rightarrow> bool" where
  "may_die c d \<longleftrightarrow> (cn_state d = cn_state c \<and> cn_callbacks d = cn_callbacks c) \<or>
     (cn_state c \<noteq> dead \<and> cn_state d = dead \<and>
        (cn_callbacks d = cn_callbacks c \<or> cn_callbacks d = cn_callbacks c @ [Closed]))"

definition same_receive :: "'a connection \<Rightarrow> 'a connection \<Rightarrow> bool" where
  "same_receive c d \<longleftrightarrow> cn_max_receive_size d = cn_max_receive_size c \<and> cn_stage d = cn_stage c
     \<and> cn_expected d = cn_expected c \<and> cn_inbound d = cn_inbound c
     \<and> cn_header_bytes d = cn_header_bytes c \<and> cn_pending_header d = cn_pending_header c
     \<and> cn_pending_flag d = cn_pending_flag c \<and> cn_pending_data d = cn_pending_data c
     \<and> cn_partial d = cn_partial c \<and> cn_remote_sub_protocol d = cn_remote_sub_protocol c
     \<and> cn_remote_version d = cn_remote_version c"

definition keeps :: "'a connection \<Rightarrow> 'a connection \<Rightarrow> bool" where
  "keeps c d \<longleftrightarrow> same_receive c d \<and> may_die c d \<and> (queue_ok c \<longrightarrow> queue_ok d)"

definition send_side :: "('a connection \<Rightarrow> 'a connection) \<Rightarrow> bool" where
  "send_side f \<longleftrightarrow> (\<forall>c. keeps c (f c)) \<and>
     (\<forall>c bs. f (c\<lparr> cn_inbound := bs \<rparr>) = (f c)\<lparr> cn_inbound := bs \<rparr>)"

definition lawful_events :: "'a events \<Rightarrow> bool" where
  "lawful_events ev \<longleftrightarrow>
     (\<forall>f. ev_established ev = Some f \<longrightarrow> send_side f) \<and>
     (\<forall>f r. ev_transaction ev = Some f \<longrightarrow> send_side (f r)) \<and>
     (\<forall>f. ev_closed ev = Some f \<longrightarrow> send_side f)"

lemma keeps_refl [simp]: "keeps c c"
  by (simp add: keeps_def same_receive_def may_die_def)

lemma keeps_trans [trans]: "keeps c d \<Longrightarrow> keeps d e \<Longrightarrow> keeps c e"
  by (auto simp: keeps_def same_receive_def may_die_def)

lemma send_sideI:
  "(\<And>c. keeps c (f c)) \<Longrightarrow> (\<And>c bs. f (c\<lparr> cn_inbound := bs \<rparr>) = (f c)\<lparr> cn_inbound := bs \<rparr>)
     \<Longrightarrow> send_side f"
  by (simp add: send_side_def)

lemma send_side_keeps: "send_side f \<Longrightarrow> keeps c (f c)"
  and send_side_inbound: "send_side f \<Longrightarrow> f (c\<lparr> cn_inbound := bs \<rparr>) = (f c)\<lparr> cn_inbound := bs \<rparr>"
  by (simp_all add: send_side_def)

lemma send_side_comp: "send_side f \<Longrightarrow> send_side g \<Longrightarrow> send_side (\<lambda>c. g (f c))"
  by (rule send_sideI) (auto intro: keeps_trans send_side_keeps simp: send_side_inbound)

lemma send_side_id [simp]: "send_side (\<lambda>c. c)"
  by (simp add: send_side_def)

text \<open>The bytes that wait are written last: every other update moves inside.\<close>

lemma inbound_outermost [simp]:
  "c\<lparr> cn_inbound := bs, cn_max_receive_size := x0 \<rparr> = c\<lparr> cn_max_receive_size := x0, cn_inbound := bs \<rparr>"
  "c\<lparr> cn_inbound := bs, cn_socket := x1 \<rparr> = c\<lparr> cn_socket := x1, cn_inbound := bs \<rparr>"
  "c\<lparr> cn_inbound := bs, cn_state := x2 \<rparr> = c\<lparr> cn_state := x2, cn_inbound := bs \<rparr>"
  "c\<lparr> cn_inbound := bs, cn_crypto := x3 \<rparr> = c\<lparr> cn_crypto := x3, cn_inbound := bs \<rparr>"
  "c\<lparr> cn_inbound := bs, cn_stage := x4 \<rparr> = c\<lparr> cn_stage := x4, cn_inbound := bs \<rparr>"
  "c\<lparr> cn_inbound := bs, cn_expected := x5 \<rparr> = c\<lparr> cn_expected := x5, cn_inbound := bs \<rparr>"
  "c\<lparr> cn_inbound := bs, cn_header_bytes := x6 \<rparr> = c\<lparr> cn_header_bytes := x6, cn_inbound := bs \<rparr>"
  "c\<lparr> cn_inbound := bs, cn_pending_header := x7 \<rparr> = c\<lparr> cn_pending_header := x7, cn_inbound := bs \<rparr>"
  "c\<lparr> cn_inbound := bs, cn_pending_flag := x8 \<rparr> = c\<lparr> cn_pending_flag := x8, cn_inbound := bs \<rparr>"
  "c\<lparr> cn_inbound := bs, cn_pending_data := x9 \<rparr> = c\<lparr> cn_pending_data := x9, cn_inbound := bs \<rparr>"
  "c\<lparr> cn_inbound := bs, cn_partial := x10 \<rparr> = c\<lparr> cn_partial := x10, cn_inbound := bs \<rparr>"
  "c\<lparr> cn_inbound := bs, cn_send_queue := x11 \<rparr> = c\<lparr> cn_send_queue := x11, cn_inbound := bs \<rparr>"
  "c\<lparr> cn_inbound := bs, cn_remote_sub_protocol := x12 \<rparr> = c\<lparr> cn_remote_sub_protocol := x12, cn_inbound := bs \<rparr>"
  "c\<lparr> cn_inbound := bs, cn_remote_version := x13 \<rparr> = c\<lparr> cn_remote_version := x13, cn_inbound := bs \<rparr>"
  "c\<lparr> cn_inbound := bs, cn_env := x14 \<rparr> = c\<lparr> cn_env := x14, cn_inbound := bs \<rparr>"
  "c\<lparr> cn_inbound := bs, cn_kernel := x15 \<rparr> = c\<lparr> cn_kernel := x15, cn_inbound := bs \<rparr>"
  "c\<lparr> cn_inbound := bs, cn_callbacks := x16 \<rparr> = c\<lparr> cn_callbacks := x16, cn_inbound := bs \<rparr>"
  by simp_all

text \<open>Operations that write to the environment or the socket state only.\<close>

lemma send_side_env: "send_side (\<lambda>c. c\<lparr> cn_env := f (cn_env c) \<rparr>)"
  by (rule send_sideI) (simp_all add: keeps_def same_receive_def may_die_def queue_ok_def)

lemma send_side_set_crypto: "send_side (set_crypto hooks)"
  by (rule send_sideI) (simp_all add: set_crypto_def keeps_def same_receive_def may_die_def queue_ok_def)

lemma socket_close_invalid: "socket_close s k = (s', k') \<Longrightarrow> s' = kInvalid"
  by (auto simp: socket_close_def socket_is_open_def split: if_splits)

lemma send_side_close: "send_side close_connection"
  by (rule send_sideI) (auto simp: close_connection_def keeps_def same_receive_def may_die_def
      queue_ok_def split: prod.splits dest: socket_close_invalid)

lemma send_side_queue_bytes: "send_side (queue_bytes bs)"
  by (rule send_sideI) (auto simp: queue_bytes_def keeps_def same_receive_def may_die_def queue_ok_def)

text \<open>The connection just before \<open>on_closed\<close> runs.\<close>

definition died :: "'a connection \<Rightarrow> 'a connection" where
  "died c = close_connection (c\<lparr> cn_state := dead \<rparr>)"

lemma mark_dead_died:
  "mark_dead ev c = (if cn_state c = dead then c else invoke Closed (ev_closed ev) (died c))"
  by (simp add: mark_dead_def died_def)

lemma died_selectors [simp]:
  "cn_state (died c) = dead" "cn_callbacks (died c) = cn_callbacks c"
  "cn_socket (died c) = kInvalid" "same_receive c (died c)" "cn_send_queue (died c) = cn_send_queue c"
  "cn_env (died c) = cn_env c" "cn_crypto (died c) = cn_crypto c"
  by (cases "socket_close (cn_socket c) (cn_kernel c)";
      simp add: died_def close_connection_def same_receive_def socket_close_invalid)+

lemma died_inbound [simp]: "died (c\<lparr> cn_inbound := bs \<rparr>) = (died c)\<lparr> cn_inbound := bs \<rparr>"
  by (simp add: died_def close_connection_def split: prod.split)

lemma keeps_died: "cn_state c \<noteq> dead \<Longrightarrow> keeps c (died c)"
  by (simp add: keeps_def may_die_def queue_ok_def)

lemma keeps_closed:
  "cn_state c \<noteq> dead \<Longrightarrow> keeps c d \<Longrightarrow> cn_state d = dead \<Longrightarrow> cn_callbacks d = cn_callbacks c
     \<Longrightarrow> keeps c (d\<lparr> cn_callbacks := cn_callbacks d @ [Closed] \<rparr>)"
  by (simp add: keeps_def may_die_def queue_ok_def same_receive_def)

lemma keeps_stays_dead: "keeps c d \<Longrightarrow> cn_state c = dead \<Longrightarrow> cn_state d = dead"
  by (auto simp: keeps_def may_die_def)

lemma invoke_inbound:
  "(\<And>g. f = Some g \<Longrightarrow> send_side g)
     \<Longrightarrow> invoke e f (c\<lparr> cn_inbound := bs \<rparr>) = (invoke e f c)\<lparr> cn_inbound := bs \<rparr>"
proof (cases f)
  case (Some g)
  assume "\<And>g. f = Some g \<Longrightarrow> send_side g"
  then have "g ((c\<lparr> cn_callbacks := x \<rparr>)\<lparr> cn_inbound := bs \<rparr>) = (g (c\<lparr> cn_callbacks := x \<rparr>))\<lparr> cn_inbound := bs \<rparr>" for x
    using Some by (intro send_side_inbound) simp
  then show ?thesis using Some by (simp add: invoke_def)
qed (simp add: invoke_def)

text \<open>The laws of the owner's callbacks, and what follows for the operations that call them.\<close>

locale application =
  fixes ev :: "'a events"
  assumes lawful: "lawful_events ev"
begin

lemma closed_law: "ev_closed ev = Some f \<Longrightarrow> send_side f"
  and established_law: "ev_established ev = Some f \<Longrightarrow> send_side f"
  and transaction_law: "ev_transaction ev = Some g \<Longrightarrow> send_side (g r)"
  using lawful by (simp_all add: lawful_events_def)

lemma keeps_mark_dead: "keeps c (mark_dead ev c)"
proof (cases "cn_state c = dead")
  case False
  have k: "keeps c (died c)" by (rule keeps_died [OF False])
  show ?thesis
  proof (cases "ev_closed ev")
    case (Some g)
    have "keeps c ((died c)\<lparr> cn_callbacks := cn_callbacks (died c) @ [Closed] \<rparr>)"
      by (rule keeps_closed [OF False k]) simp_all
    then have "keeps c (g ((died c)\<lparr> cn_callbacks := cn_callbacks (died c) @ [Closed] \<rparr>))"
      by (rule keeps_trans) (rule send_side_keeps [OF closed_law [OF Some]])
    then show ?thesis using False Some by (simp add: mark_dead_died invoke_def)
  qed (use False k in \<open>simp add: mark_dead_died invoke_def\<close>)
qed (simp add: mark_dead_died)

lemma mark_dead_dead [simp]: "cn_state (mark_dead ev c) = dead"
proof (cases "ev_closed ev")
  case (Some g)
  have "cn_state (g ((died c)\<lparr> cn_callbacks := cn_callbacks (died c) @ [Closed] \<rparr>)) = dead"
    by (rule keeps_stays_dead [OF send_side_keeps [OF closed_law [OF Some]]]) simp
  then show ?thesis using Some by (simp add: mark_dead_died invoke_def)
qed (simp add: mark_dead_died invoke_def)

lemma send_side_mark_dead: "send_side (mark_dead ev)"
  by (rule send_sideI) (simp_all only: keeps_mark_dead, simp add: mark_dead_died invoke_inbound closed_law)

lemma keeps_send_progress:
  assumes "cn_send_queue c = p # rest"
  shows "keeps c (c\<lparr> cn_kernel := k, cn_send_queue :=
    (if length (ps_bytes p) \<le> offset then rest else p\<lparr> ps_offset := offset \<rparr> # rest) \<rparr>)"
  using assms by (auto simp: keeps_def same_receive_def may_die_def queue_ok_def)

lemma keeps_kernel: "keeps c (c\<lparr> cn_kernel := k \<rparr>)"
  by (simp add: keeps_def same_receive_def may_die_def queue_ok_def)

lemma send_side_flush: "send_side (flush_sends ev)"
proof (rule send_sideI)
  fix c :: "'a connection" and bs
  show "keeps c (flush_sends ev c)"
  proof (induction "length (kn_script (cn_kernel c))" arbitrary: c rule: less_induct)
    case less
    show ?case
    proof (cases "cn_send_queue c")
      case Nil
      then show ?thesis by (simp add: flush_sends.simps [of ev c] keeps_mark_dead)
    next
      case (Cons p rest)
      obtain r k where s: "socket_send (cn_socket c) (drop (ps_offset p) (ps_bytes p)) (cn_kernel c) = (r, k)"
        by force
      show ?thesis
      proof (cases r)
        case (Inl e)
        have "keeps c (flush_sends ev (c\<lparr> cn_kernel := k \<rparr>))" if "e = interrupted"
          by (rule keeps_trans [OF keeps_kernel less]) (use send_uses_script [OF s] Inl that in simp)
        then show ?thesis using Cons s Inl keeps_kernel keeps_trans [OF keeps_kernel keeps_mark_dead]
          by (cases e) (simp_all add: flush_sends.simps [of ev c])
      next
        case (Inr n)
        have "keeps c (flush_sends ev (c\<lparr> cn_kernel := k, cn_send_queue :=
            (if length (ps_bytes p) \<le> ps_offset p + n then rest
             else p\<lparr> ps_offset := ps_offset p + n \<rparr> # rest) \<rparr>))"
          by (rule keeps_trans [OF keeps_send_progress [OF Cons] less])
            (use send_uses_script [OF s] Inr in simp)
        then show ?thesis using Cons s Inr by (simp add: flush_sends.simps [of ev c] Let_def)
      qed
    qed
  qed
  show "flush_sends ev (c\<lparr> cn_inbound := bs \<rparr>) = (flush_sends ev c)\<lparr> cn_inbound := bs \<rparr>"
  proof (induction "length (kn_script (cn_kernel c))" arbitrary: c rule: less_induct)
    case less
    show ?case
    proof (cases "cn_send_queue c")
      case Nil
      then show ?thesis by (simp add: flush_sends.simps send_side_inbound [OF send_side_mark_dead])
    next
      case (Cons p rest)
      obtain r k where s: "socket_send (cn_socket c) (drop (ps_offset p) (ps_bytes p)) (cn_kernel c) = (r, k)"
        by force
      show ?thesis
      proof (cases r)
        case (Inl e)
        have "flush_sends ev ((c\<lparr> cn_kernel := k \<rparr>)\<lparr> cn_inbound := bs \<rparr>)
            = (flush_sends ev (c\<lparr> cn_kernel := k \<rparr>))\<lparr> cn_inbound := bs \<rparr>" if "e = interrupted"
          by (rule less) (use send_uses_script [OF s] Inl that in simp)
        moreover have "mark_dead ev ((c\<lparr> cn_kernel := k \<rparr>)\<lparr> cn_inbound := bs \<rparr>)
            = (mark_dead ev (c\<lparr> cn_kernel := k \<rparr>))\<lparr> cn_inbound := bs \<rparr>"
          by (rule send_side_inbound [OF send_side_mark_dead])
        ultimately show ?thesis using Cons s Inl
          by (simp add: flush_sends.simps [of ev c] flush_sends.simps [of ev "c\<lparr> cn_inbound := bs \<rparr>"])
      next
        case (Inr n)
        let ?q = "if length (ps_bytes p) \<le> ps_offset p + n then rest
             else p\<lparr> ps_offset := ps_offset p + n \<rparr> # rest"
        have "flush_sends ev ((c\<lparr> cn_kernel := k, cn_send_queue := ?q \<rparr>)\<lparr> cn_inbound := bs \<rparr>)
            = (flush_sends ev (c\<lparr> cn_kernel := k, cn_send_queue := ?q \<rparr>))\<lparr> cn_inbound := bs \<rparr>"
          by (rule less) (use send_uses_script [OF s] Inr in simp)
        then show ?thesis using Cons s Inr
          by (simp add: flush_sends.simps [of ev c] flush_sends.simps [of ev "c\<lparr> cn_inbound := bs \<rparr>"] Let_def)
      qed
    qed
  qed
qed

lemma send_side_queue_transaction: "send_side (queue_transaction ev kind tid data is_reply error)"
proof -
  let ?h = "\<lparr> th_flag = 0, th_is_reply = (if is_reply then 1 else 0), th_type = kind,
            th_id = tid, th_error = error, th_total_size = word_of_nat (length data),
            th_data_size = word_of_nat (length data) \<rparr>"
  have flush: "send_side (\<lambda>c. flush_sends ev (queue_bytes bs c))" for bs
    by (rule send_side_comp [OF send_side_queue_bytes send_side_flush])
  have env: "keeps c (c\<lparr> cn_env := e \<rparr>)" for c :: "'a connection" and e
    by (simp add: keeps_def same_receive_def may_die_def queue_ok_def)
  show ?thesis
  proof (rule send_sideI)
    fix c :: "'a connection" and bs
    show "keeps c (queue_transaction ev kind tid data is_reply error c)"
      by (auto simp: queue_transaction_def Let_def split: option.split prod.split
          intro: send_side_keeps [OF flush] keeps_trans [OF env send_side_keeps [OF flush]])
    have "flush_sends ev (queue_bytes xs ((c\<lparr> cn_env := e \<rparr>)\<lparr> cn_inbound := bs \<rparr>))
        = (flush_sends ev (queue_bytes xs (c\<lparr> cn_env := e \<rparr>)))\<lparr> cn_inbound := bs \<rparr>" for xs e
      using flush by (rule send_side_inbound)
    moreover have "flush_sends ev (queue_bytes xs (c\<lparr> cn_inbound := bs \<rparr>))
        = (flush_sends ev (queue_bytes xs c))\<lparr> cn_inbound := bs \<rparr>" for xs
      using flush by (rule send_side_inbound)
    ultimately show "queue_transaction ev kind tid data is_reply error (c\<lparr> cn_inbound := bs \<rparr>)
        = (queue_transaction ev kind tid data is_reply error c)\<lparr> cn_inbound := bs \<rparr>"
      by (simp add: queue_transaction_def Let_def split: option.split prod.split)
  qed
qed

lemma send_side_keepalive: "send_side (queue_keepalive ev)"
  by (cases "encode_field_list []") (simp_all add: queue_keepalive_def [abs_def] send_side_queue_transaction)

end

end
