(* ===== verification/Connection_Parse.thy ===== *)
theory Connection_Parse
  imports Connection_Laws
begin

text \<open>
  The parser of the connection terminates, and what it does with the bytes of the peer does not
  depend on how the network cut them: parsing what arrived first and the rest later ends in the
  state that parsing everything at once ends in.  The locale \<open>endpoint\<close> is the contract of a
  role: its callbacks are lawful and its handshake handler consumes a prefix of fixed size.
\<close>

definition feed :: "bytes \<Rightarrow> 'a connection \<Rightarrow> 'a connection" where
  "feed bs c = c\<lparr> cn_inbound := cn_inbound c @ bs \<rparr>"

lemma feed_selectors [simp]:
  "cn_inbound (feed bs c) = cn_inbound c @ bs" "cn_state (feed bs c) = cn_state c"
  "cn_stage (feed bs c) = cn_stage c" "cn_expected (feed bs c) = cn_expected c"
  "cn_crypto (feed bs c) = cn_crypto c" "cn_env (feed bs c) = cn_env c"
  "cn_max_receive_size (feed bs c) = cn_max_receive_size c" "cn_partial (feed bs c) = cn_partial c"
  "cn_pending_data (feed bs c) = cn_pending_data c" "cn_pending_header (feed bs c) = cn_pending_header c"
  "cn_pending_flag (feed bs c) = cn_pending_flag c" "cn_callbacks (feed bs c) = cn_callbacks c"
  by (simp_all add: feed_def)

lemma feed_feed [simp]: "feed ys (feed xs c) = feed (xs @ ys) c"
  by (simp add: feed_def)

text \<open>What a callback that ends the connection may leave behind.\<close>

definition alive :: "'a connection \<Rightarrow> bool" where
  "alive c \<longleftrightarrow> cn_state c \<noteq> dead \<and> cn_state c \<noteq> closing"

lemma send_side_feed: "send_side f \<Longrightarrow> f (feed bs c) = feed bs (f c)"
  using send_side_keeps [of f c] by (simp add: feed_def send_side_inbound keeps_def same_receive_def)

definition lawful_handshake :: "nat \<Rightarrow> ('a connection \<Rightarrow> 'a connection) \<Rightarrow> bool" where
  "lawful_handshake n h \<longleftrightarrow> (\<forall>c. n \<le> length (cn_inbound c) \<longrightarrow>
     (\<forall>bs. h (feed bs c) = feed bs (h c)) \<and>
     (\<exists>m \<le> n. cn_inbound (h c) = drop m (cn_inbound c)) \<and>
     cn_max_receive_size (h c) = cn_max_receive_size c \<and> cn_partial (h c) = cn_partial c \<and>
     cn_pending_data (h c) = cn_pending_data c \<and>
     (queue_ok c \<longrightarrow> queue_ok (h c)))"

locale endpoint = application ev for ev :: "'a events" +
  fixes handshake_size :: nat and h :: "'a connection \<Rightarrow> 'a connection"
  assumes handshake: "lawful_handshake handshake_size h"

text \<open>In the handshake stage the parser waits for the size the handler consumes.\<close>

definition stage_ok :: "nat \<Rightarrow> 'a connection \<Rightarrow> bool" where
  "stage_ok n c \<longleftrightarrow> cn_stage c = stage_handshake \<longrightarrow> n \<le> cn_expected c"

lemma stage_ok_feed [simp]: "stage_ok n (feed bs c) = stage_ok n c"
  by (simp add: stage_ok_def)

definition noted :: "transaction_header \<Rightarrow> bytes \<Rightarrow> 'a connection \<Rightarrow> 'a connection" where
  "noted header data c =
     c\<lparr> cn_callbacks := cn_callbacks c @ [Transaction \<lparr> rt_header = header, rt_data = data \<rparr>] \<rparr>"

text \<open>Each round of the parser consumes input or moves to a lower stage.\<close>

definition parse_measure :: "'a connection \<Rightarrow> nat" where
  "parse_measure c = 2 * length (cn_inbound c) +
     (case cn_stage c of stage_handshake \<Rightarrow> 2 | stage_header \<Rightarrow> 0 | stage_data \<Rightarrow> 1)"

lemma queue_ok_partial [simp]: "queue_ok (c\<lparr> cn_partial := m \<rparr>) = queue_ok c"
  by (simp add: queue_ok_def)

context application
begin

lemma dispatch_inbound:
  "dispatch ev header data (c\<lparr> cn_inbound := bs \<rparr>) = (dispatch ev header data c)\<lparr> cn_inbound := bs \<rparr>"
proof (cases "ev_transaction ev")
  case (Some f)
  let ?t = "\<lparr> rt_header = header, rt_data = data \<rparr>"
  have "invoke (Transaction ?t) (Some (f ?t)) (c\<lparr> cn_inbound := bs \<rparr>)
      = (invoke (Transaction ?t) (Some (f ?t)) c)\<lparr> cn_inbound := bs \<rparr>"
    by (rule invoke_inbound) (use transaction_law [OF Some] in auto)
  then show ?thesis using Some by (simp add: dispatch_def Let_def)
qed (simp add: dispatch_def)

text \<open>Dispatching changes the callback history by the transaction, then as the callback may.\<close>

lemma dispatch_keeps:
  assumes "ev_transaction ev = Some f"
  shows "keeps (noted header data c) (dispatch ev header data c)"
  using send_side_keeps [OF transaction_law [OF assms]]
  by (simp add: dispatch_def invoke_def assms Let_def noted_def)

lemma dispatch_same_receive: "same_receive c (dispatch ev header data c)"
proof (cases "ev_transaction ev")
  case (Some f)
  from dispatch_keeps [OF this] show ?thesis by (simp add: keeps_def same_receive_def noted_def)
qed (simp add: dispatch_def same_receive_def)

lemma dispatch_queue_ok: "queue_ok c \<Longrightarrow> queue_ok (dispatch ev header data c)"
proof (cases "ev_transaction ev")
  case (Some f)
  assume "queue_ok c"
  then show ?thesis using dispatch_keeps [OF Some, of header data c]
    by (simp add: keeps_def queue_ok_def noted_def)
qed (simp add: dispatch_def)

lemma decode_pending_inbound:
  "decode_pending data (c\<lparr> cn_inbound := bs \<rparr>)
     = (fst (decode_pending data c), (snd (decode_pending data c))\<lparr> cn_inbound := bs \<rparr>)"
  by (simp add: decode_pending_def split: option.split prod.split)

lemma deliver_inbound:
  "deliver ev data (c\<lparr> cn_inbound := bs \<rparr>) = (deliver ev data c)\<lparr> cn_inbound := bs \<rparr>"
  by (simp add: deliver_def Let_def dispatch_inbound held_data_def)

lemma complete_inbound:
  "complete_transaction ev data (c\<lparr> cn_inbound := bs \<rparr>)
     = (complete_transaction ev data c)\<lparr> cn_inbound := bs \<rparr>"
  by (simp add: complete_transaction_def decode_pending_inbound deliver_inbound split: prod.split)

lemma deliver_keeps:
  "cn_inbound (deliver ev data c) = cn_inbound c"
  "cn_max_receive_size (deliver ev data c) = cn_max_receive_size c"
  "cn_pending_data (deliver ev data c) = cn_pending_data c"
  "queue_ok c \<Longrightarrow> queue_ok (deliver ev data c)"
  using dispatch_same_receive [unfolded same_receive_def]
  by (simp_all add: deliver_def Let_def dispatch_queue_ok)

lemma decode_pending_keeps:
  "cn_inbound (snd (decode_pending data c)) = cn_inbound c"
  "cn_max_receive_size (snd (decode_pending data c)) = cn_max_receive_size c"
  "cn_pending_data (snd (decode_pending data c)) = cn_pending_data c"
  "cn_pending_header (snd (decode_pending data c)) = cn_pending_header c"
  "cn_partial (snd (decode_pending data c)) = cn_partial c"
  "queue_ok (snd (decode_pending data c)) = queue_ok c"
  by (simp_all add: decode_pending_def queue_ok_def split: option.split prod.split)

lemma complete_keeps:
  "cn_inbound (complete_transaction ev data c) = cn_inbound c"
  "cn_max_receive_size (complete_transaction ev data c) = cn_max_receive_size c"
  "cn_pending_data (complete_transaction ev data c) = cn_pending_data c"
  "queue_ok c \<Longrightarrow> queue_ok (complete_transaction ev data c)"
  by (simp_all add: complete_transaction_def deliver_keeps decode_pending_keeps case_prod_beta)

end

context endpoint
begin

lemma handshake_laws:
  assumes "handshake_size \<le> length (cn_inbound c)"
  shows "h (feed bs c) = feed bs (h c)" and "\<exists>m \<le> handshake_size. cn_inbound (h c) = drop m (cn_inbound c)"
    and "cn_max_receive_size (h c) = cn_max_receive_size c" and "cn_partial (h c) = cn_partial c"
    and "cn_pending_data (h c) = cn_pending_data c" and "queue_ok c \<Longrightarrow> queue_ok (h c)"
  using handshake assms unfolding lawful_handshake_def by blast+

section \<open>Rounds\<close>

lemma parse_round_progress:
  assumes "parse_round ev h c = Inr c'" and "stage_ok handshake_size c"
  shows "parse_measure c' < parse_measure c \<and> stage_ok handshake_size c'"
proof -
  have "\<exists>m. cn_inbound (h c) = drop m (cn_inbound c)"
    if "cn_stage c = stage_handshake" "\<not> length (cn_inbound c) < cn_expected c"
    using handshake_laws(2) [of c] assms(2) that by (auto simp: stage_ok_def)
  then show ?thesis
    using assms(1)
    by (auto simp: parse_round_def parse_measure_def stage_ok_def complete_keeps transaction_header_size_def
        Let_def split: if_splits ReceiveStage.splits prod.splits)
qed

lemma parse_round_feed:
  assumes "stage_ok handshake_size c"
  shows "parse_round ev h c = Inr c' \<Longrightarrow> parse_round ev h (feed bs c) = Inr (feed bs c')"
    and "parse_round ev h c = Inl c' \<Longrightarrow> c' = c \<or>
      cn_state c' = dead \<and> parse_round ev h (feed bs c) = Inl (feed bs c')"
proof -
  have hs: "h (feed bs c) = feed bs (h c)"
    if "cn_stage c = stage_handshake" "\<not> length (cn_inbound c) < cn_expected c"
    using handshake_laws(1) [of c] assms that by (simp add: stage_ok_def)
  note md = send_side_inbound [OF send_side_mark_dead]
  show "parse_round ev h c = Inr c' \<Longrightarrow> parse_round ev h (feed bs c) = Inr (feed bs c')"
  proof (cases "cn_stage c")
    case stage_handshake
    moreover assume "parse_round ev h c = Inr c'"
    ultimately show ?thesis using hs
      by (auto simp: parse_round_def feed_def split: if_splits)
  next
    case stage_header
    moreover assume "parse_round ev h c = Inr c'"
    ultimately show ?thesis
      by (auto simp: parse_round_def feed_def Let_def split: if_splits prod.splits option.splits)
  next
    case stage_data
    moreover assume "parse_round ev h c = Inr c'"
    ultimately show ?thesis
      by (auto simp: parse_round_def feed_def Let_def complete_inbound complete_keeps split: if_splits)
  qed
  show "parse_round ev h c = Inl c' \<Longrightarrow> c' = c \<or>
      cn_state c' = dead \<and> parse_round ev h (feed bs c) = Inl (feed bs c')"
  proof (cases "cn_stage c")
    case stage_header
    moreover assume "parse_round ev h c = Inl c'"
    ultimately show ?thesis using md
      by (auto simp: parse_round_def Let_def feed_def split: if_splits prod.splits option.splits)
  qed (auto simp: parse_round_def Let_def split: if_splits)
qed

section \<open>Termination\<close>

lemma parse_inbound_total: "stage_ok handshake_size c \<Longrightarrow> \<exists>c'. parse_inbound ev h c = Some c'"
proof (induction "parse_measure c" arbitrary: c rule: less_induct)
  case less
  show ?case
  proof (cases "parse_round ev h c")
    case (Inl d)
    then show ?thesis by (simp add: parse_inbound.simps [of ev h c])
  next
    case (Inr d)
    from less.hyps [of d] parse_round_progress [OF Inr less.prems] Inr show ?thesis
      by (simp add: parse_inbound.simps [of ev h c])
  qed
qed

section \<open>Splits of the byte stream\<close>

lemma parse_stopped:
  "cn_state c = dead \<or> cn_state c = closing \<Longrightarrow> parse_inbound ev h c = Some c"
  by (subst parse_inbound.simps) (simp add: parse_round_def)

lemma parse_feed:
  "stage_ok handshake_size c \<Longrightarrow>
     parse_inbound ev h (feed bs c) = Option.bind (parse_inbound ev h c) (\<lambda>d. parse_inbound ev h (feed bs d))"
proof (induction "parse_measure c" arbitrary: c rule: less_induct)
  case less
  show ?case
  proof (cases "parse_round ev h c")
    case (Inl d)
    then have "parse_inbound ev h c = Some d" by (simp add: parse_inbound.simps [of ev h c])
    moreover from parse_round_feed(2) [OF less.prems Inl, of bs]
    have "parse_inbound ev h (feed bs c) = parse_inbound ev h (feed bs d)"
    proof
      assume "cn_state d = dead \<and> parse_round ev h (feed bs c) = Inl (feed bs d)"
      then show ?thesis
        by (simp add: parse_inbound.simps [of ev h "feed bs c"] parse_stopped)
    qed simp
    ultimately show ?thesis by simp
  next
    case (Inr d)
    from less.hyps [of d] parse_round_progress [OF Inr less.prems]
    have "parse_inbound ev h (feed bs d) = Option.bind (parse_inbound ev h d) (\<lambda>e. parse_inbound ev h (feed bs e))"
      by simp
    then show ?thesis
      using Inr parse_round_feed(1) [OF less.prems Inr, of bs]
      by (simp add: parse_inbound.simps [of ev h c] parse_inbound.simps [of ev h "feed bs c"])
  qed
qed

end

end
