(* ===== verification/Connection_Receive.thy ===== *)
theory Connection_Receive
  imports Connection_Parse "HOL-Library.Sublist"
begin

text \<open>
  The abstract specification of the receive side: a list of decoded frames goes in, the
  transactions that \<open>reassemble\<close> makes of them come out, in order and each once.  The locale
  \<open>receiver\<close> abstracts from encryption: the hooks decode a frame as the relation \<open>decodes\<close>
  says, which depends on the environment through its \<open>lane\<close> only, and the application leaves
  both alone.
\<close>

section \<open>Reassembly\<close>

fun received :: "callback list \<Rightarrow> received_transaction list" where
  "received [] = []"
| "received (Transaction r # cs) = r # received cs"
| "received (Established # cs) = received cs"
| "received (Closed # cs) = received cs"

lemma received_append [simp]: "received (xs @ ys) = received xs @ received ys"
  by (induction xs rule: received.induct) auto

type_synonym parts = "part_key \<Rightarrow> partial_receive option"

definition add_part :: "parts \<Rightarrow> transaction_header \<Rightarrow> bytes \<Rightarrow> received_transaction list \<times> parts" where
  "add_part m header data =
     (if th_total_size header = th_data_size header
      then ([\<lparr> rt_header = header, rt_data = data \<rparr>], m)
      else
        (let key = (th_is_reply header, th_id header);
             whole = (case m key of Some p \<Rightarrow> pr_data p | None \<Rightarrow> []) @ data
         in if unat (th_total_size header) \<le> length whole
            then ([\<lparr> rt_header = header, rt_data = whole \<rparr>], m(key := None))
            else ([], m(key \<mapsto> \<lparr> pr_header = header, pr_data = whole \<rparr>))))"

fun reassemble :: "parts \<Rightarrow> (transaction_header \<times> bytes) list \<Rightarrow> received_transaction list \<times> parts" where
  "reassemble m [] = ([], m)"
| "reassemble m ((header, data) # fs) =
     (let (rs, m1) = add_part m header data; (rs', m2) = reassemble m1 fs in (rs @ rs', m2))"

lemma reassemble_append:
  "reassemble m (xs @ ys) =
     (let (rs, m1) = reassemble m xs; (rs', m2) = reassemble m1 ys in (rs @ rs', m2))"
  by (induction m xs rule: reassemble.induct) (auto split: prod.splits)

section \<open>Frames\<close>

definition frame_ok :: "u32 \<Rightarrow> transaction_header \<Rightarrow> bytes \<Rightarrow> bytes \<Rightarrow> bool" where
  "frame_ok max_size header wh wd \<longleftrightarrow>
     length wh = 20 \<and> length wd = unat (th_data_size header) \<and> \<not> refused max_size header"

fun decodes_all :: "u32 \<Rightarrow> ('l \<Rightarrow> bytes \<Rightarrow> bytes \<Rightarrow> 'l \<Rightarrow> transaction_header \<Rightarrow> bytes \<Rightarrow> bool)
    \<Rightarrow> 'l \<Rightarrow> (bytes \<times> bytes) list \<Rightarrow> (transaction_header \<times> bytes) list \<Rightarrow> 'l \<Rightarrow> bool" where
  "decodes_all max_size R l [] [] l' = (l = l')"
| "decodes_all max_size R l ((wh, wd) # ws) ((header, data) # ms) l' =
     (frame_ok max_size header wh wd \<and> (\<exists>l1. R l wh wd l1 header data \<and> decodes_all max_size R l1 ws ms l'))"
| "decodes_all max_size R l ws ms l' = False"

lemma decodes_all_length: "decodes_all max_size R l ws fs l' \<Longrightarrow> length ws = length fs"
  by (induction max_size R l ws fs l' rule: decodes_all.induct) auto

definition wire :: "(bytes \<times> bytes) list \<Rightarrow> bytes" where
  "wire ws = concat (map (\<lambda>(wh, wd). wh @ wd) ws)"

lemma wire_simps [simp]: "wire [] = []" "wire ((wh, wd) # ws) = wh @ wd @ wire ws"
  by (simp_all add: wire_def)

text \<open>A connection that waits for a header, with its hooks in place.\<close>

definition ready :: "'a crypto_hooks \<Rightarrow> 'a connection \<Rightarrow> bool" where
  "ready hooks c \<longleftrightarrow> cn_stage c = stage_header \<and> cn_pending_data c = [] \<and> cn_crypto c = hooks"

definition lawful_receiver :: "'a events \<Rightarrow> 'a crypto_hooks \<Rightarrow> ('a \<Rightarrow> 'l) \<Rightarrow> bool" where
  "lawful_receiver ev hooks lane \<longleftrightarrow> (\<exists>f. ev_transaction ev = Some f \<and>
     (\<forall>r c. cn_crypto c = hooks \<longrightarrow> cn_crypto (f r c) = hooks \<and> lane (cn_env (f r c)) = lane (cn_env c)))"

text \<open>The only way out of the stream: the application's callback, called for the transaction that
  was delivered last, was given a live connection and returned a dead one.\<close>

definition owner_ends :: "'a events \<Rightarrow> received_transaction list \<Rightarrow> bool" where
  "owner_ends ev history \<longleftrightarrow> history \<noteq> [] \<and> (\<exists>f x. ev_transaction ev = Some f
     \<and> cn_state x \<noteq> dead \<and> received (cn_callbacks x) = history \<and> cn_state (f (last history) x) = dead)"

definition peaceful :: "'a events \<Rightarrow> bool" where
  "peaceful ev \<longleftrightarrow> (\<forall>f r c. ev_transaction ev = Some f \<longrightarrow> cn_state c \<noteq> dead \<longrightarrow> cn_state (f r c) \<noteq> dead)"

lemma peaceful_never_ends: "peaceful ev \<Longrightarrow> \<not> owner_ends ev history"
  by (auto simp: peaceful_def owner_ends_def)

definition hooks_decode :: "'a crypto_hooks \<Rightarrow> ('a \<Rightarrow> 'l)
    \<Rightarrow> ('l \<Rightarrow> bytes \<Rightarrow> bytes \<Rightarrow> 'l \<Rightarrow> transaction_header \<Rightarrow> bytes \<Rightarrow> bool) \<Rightarrow> bool" where
  "hooks_decode hooks lane R \<longleftrightarrow> (\<forall>e wh wd l' header data.
     R (lane e) wh wd l' header data \<longrightarrow> length wh = 20 \<longrightarrow>
     (\<exists>raw flag e1 e2.
        (case cr_decode_header hooks of Some f \<Rightarrow> f wh e | None \<Rightarrow> (wh, 0, e)) = (raw, flag, e1) \<and>
        decode_header raw = header \<and>
        (case cr_decode_data hooks of Some f \<Rightarrow> f wd flag e1 | None \<Rightarrow> (wd, e1)) = (data, e2) \<and>
        lane e2 = l'))"

text \<open>The whole stream.  After some number \<open>n\<close> of frames exactly what those frames make is
  delivered and the rest is unread; \<open>n\<close> falls short of the stream only if the application's
  callback ended the connection at the last transaction delivered.\<close>

definition streamed :: "'a events \<Rightarrow> 'a crypto_hooks \<Rightarrow> ('a \<Rightarrow> 'l) \<Rightarrow> 'a connection
    \<Rightarrow> (bytes \<times> bytes) list \<Rightarrow> (transaction_header \<times> bytes) list \<Rightarrow> bytes \<Rightarrow> 'l \<Rightarrow> nat
    \<Rightarrow> 'a connection \<Rightarrow> bool" where
  "streamed ev hooks lane c ws fs rest l' n d \<longleftrightarrow> n \<le> length fs
     \<and> received (cn_callbacks d) = received (cn_callbacks c) @ fst (reassemble (cn_partial c) (take n fs))
     \<and> cn_partial d = snd (reassemble (cn_partial c) (take n fs))
     \<and> cn_inbound d = wire (drop n ws) @ rest
     \<and> cn_max_receive_size d = cn_max_receive_size c
     \<and> (n = length fs \<and> ready hooks d \<and> alive d \<and> lane (cn_env d) = l'
        \<or> cn_state d = dead \<and> fst (reassemble (cn_partial c) (take n fs)) \<noteq> []
          \<and> owner_ends ev (received (cn_callbacks d)))"

locale receiver = endpoint ev handshake_size h
  for ev :: "'a events" and handshake_size and h +
  fixes hooks :: "'a crypto_hooks" and lane :: "'a \<Rightarrow> 'l"
    and R :: "'l \<Rightarrow> bytes \<Rightarrow> bytes \<Rightarrow> 'l \<Rightarrow> transaction_header \<Rightarrow> bytes \<Rightarrow> bool"
  assumes owner: "lawful_receiver ev hooks lane" and decoding: "hooks_decode hooks lane R"
begin

lemma dispatch_spec:
  assumes "cn_crypto c = hooks"
  shows "received (cn_callbacks (dispatch ev header data c))
      = received (cn_callbacks c) @ [\<lparr> rt_header = header, rt_data = data \<rparr>]"
    and "cn_crypto (dispatch ev header data c) = hooks"
    and "lane (cn_env (dispatch ev header data c)) = lane (cn_env c)"
    and "cn_state c \<noteq> dead \<Longrightarrow> cn_state (dispatch ev header data c) = cn_state c
      \<or> cn_state (dispatch ev header data c) = dead
        \<and> owner_ends ev (received (cn_callbacks c) @ [\<lparr> rt_header = header, rt_data = data \<rparr>])"
    and "same_receive c (dispatch ev header data c)"
proof -
  obtain f where f: "ev_transaction ev = Some f"
    and keep: "\<And>r c. cn_crypto c = hooks \<Longrightarrow> cn_crypto (f r c) = hooks \<and> lane (cn_env (f r c)) = lane (cn_env c)"
    using owner by (auto simp: lawful_receiver_def)
  have k: "keeps (noted header data c) (dispatch ev header data c)" by (rule dispatch_keeps [OF f])
  show "cn_crypto (dispatch ev header data c) = hooks"
    "lane (cn_env (dispatch ev header data c)) = lane (cn_env c)"
    using keep [of "c\<lparr> cn_callbacks := cn_callbacks c @ [Transaction \<lparr> rt_header = header, rt_data = data \<rparr>] \<rparr>"] assms
    by (simp_all add: dispatch_def f Let_def invoke_def)
  let ?t = "\<lparr> rt_header = header, rt_data = data \<rparr>"
  have f_noted: "dispatch ev header data c = f ?t (noted header data c)"
    by (simp add: dispatch_def f Let_def invoke_def noted_def)
  show "cn_state (dispatch ev header data c) = cn_state c \<or> cn_state (dispatch ev header data c) = dead
      \<and> owner_ends ev (received (cn_callbacks c) @ [?t])" if "cn_state c \<noteq> dead"
  proof (cases "cn_state (dispatch ev header data c) = dead")
    case True
    then have "owner_ends ev (received (cn_callbacks c) @ [?t])"
      unfolding owner_ends_def using f f_noted that
      by (intro conjI exI [of _ f] exI [of _ "noted header data c"]) (simp_all add: noted_def)
    with True show ?thesis by simp
  qed (use k in \<open>auto simp: keeps_def may_die_def noted_def\<close>)
  show "received (cn_callbacks (dispatch ev header data c))
      = received (cn_callbacks c) @ [\<lparr> rt_header = header, rt_data = data \<rparr>]"
    using k by (auto simp: keeps_def may_die_def noted_def)
  show "same_receive c (dispatch ev header data c)" by (rule dispatch_same_receive)
qed

lemma deliver_spec:
  assumes "cn_crypto c = hooks" and "cn_state c \<noteq> dead" and "cn_pending_header c = header"
    and "add_part (cn_partial c) header data = (rs, m)"
  shows "received (cn_callbacks (deliver ev data c)) = received (cn_callbacks c) @ rs \<and>
    cn_partial (deliver ev data c) = m \<and> cn_crypto (deliver ev data c) = hooks \<and>
    lane (cn_env (deliver ev data c)) = lane (cn_env c) \<and>
    (cn_state (deliver ev data c) = cn_state c \<or> cn_state (deliver ev data c) = dead
       \<and> rs \<noteq> [] \<and> owner_ends ev (received (cn_callbacks c) @ rs))"
proof -
  have d: "received (cn_callbacks (dispatch ev h' d' c')) = received (cn_callbacks c') @ [\<lparr> rt_header = h', rt_data = d' \<rparr>]"
      "cn_crypto (dispatch ev h' d' c') = hooks" "lane (cn_env (dispatch ev h' d' c')) = lane (cn_env c')"
      "cn_partial (dispatch ev h' d' c') = cn_partial c'"
      "cn_state (dispatch ev h' d' c') = cn_state c' \<or> cn_state (dispatch ev h' d' c') = dead
         \<and> owner_ends ev (received (cn_callbacks c') @ [\<lparr> rt_header = h', rt_data = d' \<rparr>])"
    if "cn_crypto c' = hooks" "cn_state c' \<noteq> dead" for h' d' c'
    using dispatch_spec [OF that(1)] that(2) by (simp_all add: same_receive_def)
  let ?key = "(th_is_reply header, th_id header)"
  let ?whole = "held_data ?key c @ data"
  let ?c1 = "c\<lparr> cn_partial := (cn_partial c)(?key \<mapsto> \<lparr> pr_header = header, pr_data = ?whole \<rparr>) \<rparr>"
  consider (one) "th_total_size header = th_data_size header"
    | (last) "th_total_size header \<noteq> th_data_size header" "unat (th_total_size header) \<le> length ?whole"
    | (part) "th_total_size header \<noteq> th_data_size header" "\<not> unat (th_total_size header) \<le> length ?whole"
    by blast
  then show ?thesis
  proof cases
    case one
    then have "deliver ev data c = dispatch ev header data c"
      "rs = [\<lparr> rt_header = header, rt_data = data \<rparr>]" "m = cn_partial c"
      using assms(3,4) by (auto simp: deliver_def add_part_def)
    then show ?thesis using d [OF assms(1,2)] by simp
  next
    case last
    let ?c2 = "dispatch ev header ?whole ?c1"
    have "deliver ev data c = ?c2\<lparr> cn_partial := (cn_partial ?c2)(?key := None) \<rparr>"
      "rs = [\<lparr> rt_header = header, rt_data = ?whole \<rparr>]" "m = (cn_partial c)(?key := None)"
      using last assms(3,4) by (auto simp: deliver_def add_part_def Let_def held_data_def)
    then show ?thesis using d [of ?c1] assms(1,2) by simp
  next
    case part
    then have "deliver ev data c = ?c1" "rs = []" "m = cn_partial ?c1"
      using assms(3,4) by (auto simp: deliver_def add_part_def Let_def held_data_def)
    then show ?thesis using assms(1,2) by simp
  qed
qed

lemma frame_rounds:
  assumes ready: "ready hooks c" and alive: "alive c"
    and input: "cn_inbound c = wh @ wd @ rest" and ok: "frame_ok (cn_max_receive_size c) header wh wd"
    and dec: "R (lane (cn_env c)) wh wd l' header data"
    and part: "add_part (cn_partial c) header data = (rs, m)"
  shows "\<exists>c'. parse_inbound ev h c = parse_inbound ev h c' \<and> ready hooks c' \<and> cn_inbound c' = rest \<and>
    lane (cn_env c') = l' \<and> cn_max_receive_size c' = cn_max_receive_size c \<and>
    received (cn_callbacks c') = received (cn_callbacks c) @ rs \<and> cn_partial c' = m \<and>
    (cn_state c' = cn_state c \<or> cn_state c' = dead
       \<and> rs \<noteq> [] \<and> owner_ends ev (received (cn_callbacks c) @ rs))"
proof -
  have len: "length wh = transaction_header_size" "length wd = unat (th_data_size header)"
    and pol: "\<not> refused (cn_max_receive_size c) header"
    using ok by (simp_all add: frame_ok_def transaction_header_size_def)
  from decoding dec len obtain raw flag e1 e2 where
    hd: "(case cr_decode_header hooks of Some f \<Rightarrow> f wh (cn_env c) | None \<Rightarrow> (wh, 0, cn_env c)) = (raw, flag, e1)"
    and raw: "decode_header raw = header"
    and dd: "(case cr_decode_data hooks of Some f \<Rightarrow> f wd flag e1 | None \<Rightarrow> (wd, e1)) = (data, e2)"
    and l': "lane e2 = l'"
    unfolding hooks_decode_def transaction_header_size_def by blast
  define c1 where "c1 = c\<lparr> cn_inbound := wd @ rest, cn_header_bytes := raw, cn_pending_flag := flag,
      cn_env := e1, cn_pending_header := header, cn_pending_data := [], cn_stage := stage_data,
      cn_expected := unat (th_data_size header) \<rparr>"
  have r1: "parse_round ev h c = Inr c1"
    using alive ready hd raw len pol
    by (simp add: parse_round_def alive_def ready_def input c1_def)
  define c2 where "c2 = c1\<lparr> cn_pending_data := [], cn_inbound := rest \<rparr>"
  define c3 where "c3 = (complete_transaction ev wd c2)\<lparr> cn_stage := stage_header,
      cn_expected := transaction_header_size \<rparr>"
  have r2: "parse_round ev h c1 = Inr c3"
    using alive len by (simp add: parse_round_def alive_def c3_def c2_def) (simp add: c1_def)
  have dp: "decode_pending wd c2 = (data, c2\<lparr> cn_env := e2 \<rparr>)"
    using dd ready by (simp add: decode_pending_def c2_def c1_def ready_def split: option.splits)
  have ct: "complete_transaction ev wd c2 = deliver ev data (c2\<lparr> cn_env := e2 \<rparr>)"
    by (simp add: complete_transaction_def dp)
  have spec: "received (cn_callbacks (deliver ev data (c2\<lparr> cn_env := e2 \<rparr>))) = received (cn_callbacks c) @ rs \<and>
      cn_partial (deliver ev data (c2\<lparr> cn_env := e2 \<rparr>)) = m \<and>
      cn_crypto (deliver ev data (c2\<lparr> cn_env := e2 \<rparr>)) = hooks \<and>
      lane (cn_env (deliver ev data (c2\<lparr> cn_env := e2 \<rparr>))) = lane e2 \<and>
      (cn_state (deliver ev data (c2\<lparr> cn_env := e2 \<rparr>)) = cn_state c \<or>
       cn_state (deliver ev data (c2\<lparr> cn_env := e2 \<rparr>)) = dead
         \<and> rs \<noteq> [] \<and> owner_ends ev (received (cn_callbacks c) @ rs))"
    using deliver_spec [of "c2\<lparr> cn_env := e2 \<rparr>" header data rs m] part ready alive
    by (simp add: c2_def c1_def ready_def alive_def)
  have "parse_inbound ev h c = parse_inbound ev h c3"
    by (simp add: parse_inbound.simps [of ev h c] parse_inbound.simps [of ev h c1] r1 r2)
  moreover have "cn_inbound c3 = rest" "cn_pending_data c3 = []"
      "cn_max_receive_size c3 = cn_max_receive_size c" "cn_stage c3 = stage_header"
    by (simp_all add: c3_def complete_keeps c2_def c1_def)
  ultimately show ?thesis using spec l'
    by (intro exI [of _ c3]) (simp add: ready_def c3_def ct)
qed

lemma stream_spec:
  assumes "ready hooks c" and "alive c" and "cn_inbound c = wire ws @ rest"
    and "decodes_all (cn_max_receive_size c) R (lane (cn_env c)) ws fs l'"
  shows "\<exists>d n. parse_inbound ev h c = parse_inbound ev h d \<and> streamed ev hooks lane c ws fs rest l' n d"
  using assms
proof (induction ws arbitrary: c fs)
  case Nil
  then have "fs = []" "lane (cn_env c) = l'" by (cases fs; simp)+
  then show ?case using Nil by (intro exI [of _ c] exI [of _ 0]) (simp add: streamed_def)
next
  case (Cons w ws)
  obtain wh wd where w: "w = (wh, wd)" by force
  obtain header data fs' l1 where fs: "fs = (header, data) # fs'"
    and ok: "frame_ok (cn_max_receive_size c) header wh wd"
    and dec: "R (lane (cn_env c)) wh wd l1 header data"
    and more: "decodes_all (cn_max_receive_size c) R l1 ws fs' l'"
    using Cons.prems(4) by (cases fs) (auto simp: w)
  obtain rs m where part: "add_part (cn_partial c) header data = (rs, m)" by force
  have "cn_inbound c = wh @ wd @ wire ws @ rest" using Cons.prems(3) by (simp add: w)
  from frame_rounds [OF Cons.prems(1,2) this ok dec part] obtain c1 where
    c1: "parse_inbound ev h c = parse_inbound ev h c1" "ready hooks c1" "cn_inbound c1 = wire ws @ rest"
      "lane (cn_env c1) = l1" "cn_max_receive_size c1 = cn_max_receive_size c"
      "received (cn_callbacks c1) = received (cn_callbacks c) @ rs" "cn_partial c1 = m"
      and outcome: "cn_state c1 = cn_state c \<or> cn_state c1 = dead
        \<and> rs \<noteq> [] \<and> owner_ends ev (received (cn_callbacks c) @ rs)" by blast
  have re: "fst (reassemble (cn_partial c) (take (Suc n) fs)) = rs @ fst (reassemble m (take n fs'))"
    "snd (reassemble (cn_partial c) (take (Suc n) fs)) = snd (reassemble m (take n fs'))" for n
    by (simp_all add: fs part split: prod.split)
  from outcome show ?case
  proof
    assume "cn_state c1 = cn_state c"
    then have "alive c1" using Cons.prems(2) by (simp add: alive_def)
    from Cons.IH [OF c1(2) this c1(3), of fs'] more obtain d n where
      "parse_inbound ev h c1 = parse_inbound ev h d" and n: "streamed ev hooks lane c1 ws fs' rest l' n d"
      by (auto simp: c1)
    moreover from n have "streamed ev hooks lane c (w # ws) fs rest l' (Suc n) d"
      unfolding streamed_def re by (auto simp: c1 fs)
    ultimately show ?thesis using c1(1) by auto
  next
    assume "cn_state c1 = dead \<and> rs \<noteq> [] \<and> owner_ends ev (received (cn_callbacks c) @ rs)"
    then have "streamed ev hooks lane c (w # ws) fs rest l' 1 c1"
      unfolding streamed_def using re [of 0] by (simp add: c1 fs)
    with c1(1) show ?thesis by blast
  qed
qed

lemma stream_received:
  assumes "ready hooks c" and "alive c" and "cn_inbound c = wire ws"
    and "decodes_all (cn_max_receive_size c) R (lane (cn_env c)) ws fs l'"
  shows "\<exists>d n. parse_inbound ev h c = Some d \<and> streamed ev hooks lane c ws fs [] l' n d"
proof -
  from stream_spec [OF assms(1,2) _ assms(4), of "[]"] assms(3) obtain d n where
    p: "parse_inbound ev h c = parse_inbound ev h d" and n: "streamed ev hooks lane c ws fs [] l' n d" by auto
  have "length ws = length fs" using assms(4) by (rule decodes_all_length)
  with n have "parse_inbound ev h d = Some d"
    by (auto simp: streamed_def parse_stopped parse_inbound.simps [of ev h d] parse_round_def ready_def alive_def
        transaction_header_size_def)
  with p n show ?thesis by auto
qed

end

end
