(* ===== verification/Connection_Send.thy ===== *)
theory Connection_Send
  imports Connection_Laws
begin

text \<open>
  The send queue refines a queue of bytes.  \<open>unsent\<close> is the abstraction: the bytes of the
  entries that have not been sent.  \<open>wired\<close> reads off the trace of system calls what the kernel
  took from a socket.  Together they are the bytes queued so far, in order: partial sends lose and
  duplicate nothing.
\<close>

definition unsent :: "'a connection \<Rightarrow> bytes" where
  "unsent c = concat (map (\<lambda>p. drop (ps_offset p) (ps_bytes p)) (cn_send_queue c))"

fun wired :: "int \<Rightarrow> (sys_call \<times> sys_result) list \<Rightarrow> bytes" where
  "wired s [] = []"
| "wired s ((Call_send d buffer, Sys_value n _ _ _) # es) =
     (if d = s then take n buffer else []) @ wired s es"
| "wired s (_ # es) = wired s es"

lemma wired_append [simp]: "wired s (xs @ ys) = wired s xs @ wired s ys"
  by (induction xs rule: wired.induct) auto

text \<open>What is on the wire of the connection's socket followed by what still waits.\<close>

definition outflow :: "'a connection \<Rightarrow> bytes" where
  "outflow c = wired (cn_socket c) (kn_trace (cn_kernel c)) @ unsent c"

lemma outflow_queue_bytes: "outflow (queue_bytes bs c) = outflow c @ bs"
  by (simp add: outflow_def unsent_def queue_bytes_def)

lemma outflow_env [simp]: "outflow (c\<lparr> cn_env := e \<rparr>) = outflow c"
  by (simp add: outflow_def unsent_def)

lemma queue_ok_env [simp]: "queue_ok (c\<lparr> cn_env := e \<rparr>) = queue_ok c"
  by (simp add: queue_ok_def)

lemma queue_ok_queue_bytes: "queue_ok c \<Longrightarrow> queue_ok (queue_bytes bs c)"
  by (auto simp: queue_ok_def queue_bytes_def)

text \<open>One \<open>send\<close>: refused with nothing on the wire, or a prefix of the buffer on the wire.\<close>

lemma socket_send_wired:
  assumes "socket_send s b k = (r, k')"
  shows "wired s (kn_trace k') = wired s (kn_trace k) @ (case r of Inr n \<Rightarrow> take n b | Inl e \<Rightarrow> [])"
    and "r = Inr n \<Longrightarrow> n \<le> length b"
  using assms
  by (auto simp: socket_send_def sys_def min_def split: if_splits sys_result.splits list.splits)

text \<open>The last answer of the kernel was that it would block.\<close>

definition blocked :: "kernel \<Rightarrow> bool" where
  "blocked k \<longleftrightarrow> (\<exists>es call e. kn_trace k = es @ [(call, Sys_error e)] \<and> from_error e = would_block)"

lemma socket_send_blocked: "socket_send s b k = (Inl would_block, k') \<Longrightarrow> blocked k'"
  by (auto simp: socket_send_def sys_def blocked_def split: if_splits sys_result.splits list.splits)

context application
begin

lemma flush_output:
  "queue_ok c \<Longrightarrow> cn_state (flush_sends ev c) \<noteq> dead \<Longrightarrow>
     outflow (flush_sends ev c) = outflow c \<and>
     (cn_send_queue (flush_sends ev c) = [] \<or> blocked (cn_kernel (flush_sends ev c)))"
proof (induction "length (kn_script (cn_kernel c))" arbitrary: c rule: less_induct)
  case less
  show ?case
  proof (cases "cn_send_queue c")
    case Nil
    then show ?thesis using less.prems by (simp add: flush_sends.simps [of ev c] split: if_splits)
  next
    case (Cons p rest)
    obtain r k where s: "socket_send (cn_socket c) (drop (ps_offset p) (ps_bytes p)) (cn_kernel c) = (r, k)"
      by force
    note w = socket_send_wired [OF s]
    show ?thesis
    proof (cases r)
      case (Inl e)
      have same: "outflow (c\<lparr> cn_kernel := k \<rparr>) = outflow c"
        using w(1) Inl by (simp add: outflow_def unsent_def)
      have ok: "queue_ok (c\<lparr> cn_kernel := k \<rparr>)" using less.prems(1) by (simp add: queue_ok_def)
      consider "e = would_block" | "e = interrupted" | "e \<noteq> would_block" "e \<noteq> interrupted" by blast
      then show ?thesis
      proof cases
        case 1
        then show ?thesis using Cons s Inl same socket_send_blocked s
          by (simp add: flush_sends.simps [of ev c])
      next
        case 2
        then have f: "flush_sends ev c = flush_sends ev (c\<lparr> cn_kernel := k \<rparr>)"
          using Cons s Inl by (simp add: flush_sends.simps [of ev c])
        have "length (kn_script k) < length (kn_script (cn_kernel c))"
          using send_uses_script [OF s] Inl 2 by simp
        then show ?thesis
          using less.hyps [of "c\<lparr> cn_kernel := k \<rparr>"] ok less.prems(2) same by (simp add: f)
      next
        case 3
        then show ?thesis using less.prems(2) Cons s Inl by (simp add: flush_sends.simps [of ev c])
      qed
    next
      case (Inr n)
      let ?c = "c\<lparr> cn_kernel := k, cn_send_queue :=
            (if length (ps_bytes p) \<le> ps_offset p + n then rest
             else p\<lparr> ps_offset := ps_offset p + n \<rparr> # rest) \<rparr>"
      have f: "flush_sends ev c = flush_sends ev ?c"
        using Cons s Inr by (simp add: flush_sends.simps [of ev c] Let_def)
      have split: "take n (drop (ps_offset p) (ps_bytes p)) @ drop (ps_offset p + n) (ps_bytes p) @ zs
          = drop (ps_offset p) (ps_bytes p) @ zs" for zs
        by (metis add.commute append_assoc append_take_drop_id drop_drop)
      have "outflow ?c = wired (cn_socket c) (kn_trace (cn_kernel c)) @
          take n (drop (ps_offset p) (ps_bytes p)) @ drop (ps_offset p + n) (ps_bytes p) @
          concat (map (\<lambda>p. drop (ps_offset p) (ps_bytes p)) rest)"
        using w(1) Inr by (simp add: outflow_def unsent_def)
      then have same: "outflow ?c = outflow c"
        using Cons unfolding split by (simp add: outflow_def unsent_def)
      have "queue_ok ?c" using less.prems(1) Cons by (auto simp: queue_ok_def)
      moreover have "length (kn_script k) < length (kn_script (cn_kernel c))"
        using send_uses_script [OF s] Inr by simp
      ultimately show ?thesis using less.hyps [of ?c] less.prems(2) same by (simp add: f)
    qed
  qed
qed

end

text \<open>The bytes one \<open>queue_transaction\<close> hands to the queue.\<close>

definition transaction_bytes :: "u16 \<Rightarrow> u32 \<Rightarrow> bytes \<Rightarrow> bool \<Rightarrow> u32 \<Rightarrow> 'a connection \<Rightarrow> 'a \<times> bytes" where
  "transaction_bytes kind tid data is_reply error c =
     (let header = \<lparr> th_flag = 0, th_is_reply = (if is_reply then 1 else 0), th_type = kind,
            th_id = tid, th_error = error, th_total_size = word_of_nat (length data),
            th_data_size = word_of_nat (length data) \<rparr> in
      case (cr_choose_flag (cn_crypto c), cr_encode (cn_crypto c)) of
        (Some choose_flag, Some encode) \<Rightarrow>
          (let (flag, env1) = choose_flag (cn_env c);
               (wh, wd, env2) = encode (encode_header (header\<lparr> th_flag := flag \<rparr>)) data flag env1
           in (env2, wh @ wd))
      | _ \<Rightarrow> (cn_env c, encode_transaction header data))"

lemma queue_transaction_bytes:
  "queue_transaction ev kind tid data is_reply error c =
     (let (env, bs) = transaction_bytes kind tid data is_reply error c
      in flush_sends ev (queue_bytes bs (c\<lparr> cn_env := env \<rparr>)))"
  by (simp add: queue_transaction_def transaction_bytes_def Let_def encode_transaction_def
      split: option.split prod.split)

context application
begin

lemma queue_transaction_output:
  assumes "queue_ok c" and "cn_state (queue_transaction ev kind tid data is_reply error c) \<noteq> dead"
  shows "outflow (queue_transaction ev kind tid data is_reply error c)
    = outflow c @ snd (transaction_bytes kind tid data is_reply error c)"
proof -
  obtain env bs where b: "transaction_bytes kind tid data is_reply error c = (env, bs)" by force
  have ok: "queue_ok (queue_bytes bs (c\<lparr> cn_env := env \<rparr>))"
    using assms(1) by (simp add: queue_ok_queue_bytes)
  from flush_output [OF ok] assms(2) show ?thesis
    by (simp add: queue_transaction_bytes b outflow_queue_bytes)
qed

lemma serve_output:
  assumes "queue_ok c" and "cn_state (service_writable ev c) \<noteq> dead"
  shows "outflow (service_writable ev c) = outflow c"
  using flush_output [OF assms(1)] assms(2) by (simp add: service_writable_def split: if_splits)

end

end
