(* ===== verification/Handshake.thy ===== *)
theory Handshake
  imports Wire_Constants
begin

text \<open>
  The connection-establishment messages (\<open>hotline/protocol/handshake.h\<close>,
  \<open>handshake.cpp\<close>) and the policies that judge them.
\<close>

record client_handshake =
  ch_protocol :: u32
  ch_sub_protocol :: u32
  ch_version :: u16
  ch_sub_version :: u16

definition default_client_handshake :: client_handshake where
  "default_client_handshake = \<lparr> ch_protocol = kProtocolTrTp, ch_sub_protocol = kSubProtocolHotl,
     ch_version = kProtocolVersion, ch_sub_version = kClientSubVersion \<rparr>"

record server_handshake_reply =
  sr_protocol :: u32
  sr_error :: u32

definition default_server_handshake_reply :: server_handshake_reply where
  "default_server_handshake_reply = \<lparr> sr_protocol = kProtocolTrTp, sr_error = 0 \<rparr>"

definition encode_client_handshake :: "client_handshake \<Rightarrow> bytes" where
  "encode_client_handshake h =
     write_u32be (ch_protocol h) @ write_u32be (ch_sub_protocol h) @
     write_u16be (ch_version h) @ write_u16be (ch_sub_version h)"

definition decode_client_handshake :: "bytes \<Rightarrow> client_handshake" where
  "decode_client_handshake b = \<lparr>
     ch_protocol = read_u32be (take 4 b),
     ch_sub_protocol = read_u32be (take 4 (drop 4 b)),
     ch_version = read_u16be (take 2 (drop 8 b)),
     ch_sub_version = read_u16be (take 2 (drop 10 b)) \<rparr>"

definition encode_server_handshake_reply :: "server_handshake_reply \<Rightarrow> bytes" where
  "encode_server_handshake_reply r = write_u32be (sr_protocol r) @ write_u32be (sr_error r)"

definition decode_server_handshake_reply :: "bytes \<Rightarrow> server_handshake_reply" where
  "decode_server_handshake_reply b = \<lparr>
     sr_protocol = read_u32be (take 4 b), sr_error = read_u32be (take 4 (drop 4 b)) \<rparr>"

definition try_decode_client_handshake :: "bytes \<Rightarrow> (DecodeError, client_handshake) checked" where
  "try_decode_client_handshake bs =
     (if length bs < kClientHandshakeSize then Some (Inl truncated)
      else if length bs > kClientHandshakeSize then Some (Inl trailing_bytes)
      else do { b \<leftarrow> span_first kClientHandshakeSize bs; Some (Inr (decode_client_handshake b)) })"

definition try_decode_server_handshake_reply ::
    "bytes \<Rightarrow> (DecodeError, server_handshake_reply) checked" where
  "try_decode_server_handshake_reply bs =
     (if length bs < kServerHandshakeReplySize then Some (Inl truncated)
      else if length bs > kServerHandshakeReplySize then Some (Inl trailing_bytes)
      else do {
        b \<leftarrow> span_first kServerHandshakeReplySize bs;
        Some (Inr (decode_server_handshake_reply b)) })"

section \<open>Validation policies\<close>

datatype ClientHandshakeValidation =
    ch_accepted
  | not_transaction_client
  | incompatible_version

definition validate_client_handshake :: "client_handshake \<Rightarrow> ClientHandshakeValidation" where
  "validate_client_handshake h =
     (if ch_protocol h \<noteq> kProtocolTrTp \<and> ch_protocol h \<noteq> kProtocolNick then not_transaction_client
      else if ch_version h \<noteq> kProtocolVersion then incompatible_version
      else ch_accepted)"

datatype ServerHandshakeReplyValidation =
    sr_accepted
  | format_unknown
  | version_unknown

definition validate_server_handshake_reply ::
    "server_handshake_reply \<Rightarrow> ServerHandshakeReplyValidation" where
  "validate_server_handshake_reply r =
     (if sr_protocol r \<noteq> kProtocolTrTp \<and> sr_protocol r \<noteq> kProtocolNick then format_unknown
      else if sr_error r \<noteq> 0 then version_unknown
      else sr_accepted)"

definition normalize_reject_reason :: "u32 \<Rightarrow> u32" where
  "normalize_reject_reason reason = (if reason = 0 then 1 else reason)"

section \<open>The codecs are fixed-size codecs\<close>

lemma try_decode_client_handshake_fixed:
  "try_decode_client_handshake = try_fixed kClientHandshakeSize decode_client_handshake"
  by (simp add: fun_eq_iff try_decode_client_handshake_def try_fixed_def)

lemma try_decode_server_handshake_reply_fixed:
  "try_decode_server_handshake_reply = try_fixed kServerHandshakeReplySize decode_server_handshake_reply"
  by (simp add: fun_eq_iff try_decode_server_handshake_reply_def try_fixed_def)

lemma length_encode_client_handshake [simp]: "length (encode_client_handshake h) = 12"
  by (simp add: encode_client_handshake_def)

lemma length_encode_server_handshake_reply [simp]: "length (encode_server_handshake_reply r) = 8"
  by (simp add: encode_server_handshake_reply_def)

lemma decode_encode_client_handshake [simp]:
  "decode_client_handshake (encode_client_handshake h) = h"
  by (simp add: decode_client_handshake_def encode_client_handshake_def)

lemma decode_encode_server_handshake_reply [simp]:
  "decode_server_handshake_reply (encode_server_handshake_reply r) = r"
  by (simp add: decode_server_handshake_reply_def encode_server_handshake_reply_def)

lemma encode_decode_client_handshake:
  assumes "length bs = 12"
  shows "encode_client_handshake (decode_client_handshake bs) = bs"
proof -
  have "encode_client_handshake (decode_client_handshake bs) =
      take 4 bs @ take 4 (drop 4 bs) @ take 2 (drop 8 bs) @ drop 10 bs"
    using assms by (simp add: encode_client_handshake_def decode_client_handshake_def)
  also have "take 2 (drop 8 bs) @ drop 10 bs = drop 8 bs" by (rule take_drop_join) simp
  also have "take 4 (drop 4 bs) @ drop 8 bs = drop 4 bs" by (rule take_drop_join) simp
  finally show ?thesis by simp
qed

lemma encode_decode_server_handshake_reply:
  "length bs = 8 \<Longrightarrow> encode_server_handshake_reply (decode_server_handshake_reply bs) = bs"
  by (simp add: encode_server_handshake_reply_def decode_server_handshake_reply_def)

interpretation chs: fixed_codec kClientHandshakeSize encode_client_handshake
  decode_client_handshake "\<lambda>_. True"
  by unfold_locales (simp_all add: encode_decode_client_handshake)

interpretation shr: fixed_codec kServerHandshakeReplySize encode_server_handshake_reply
  decode_server_handshake_reply "\<lambda>_. True"
  by unfold_locales (simp_all add: encode_decode_server_handshake_reply)

section \<open>Properties\<close>

text \<open>Both handshake decoders accept exactly the encodings of their messages, and no
  input makes them read out of bounds.\<close>

theorem handshake_codecs_exact:
  "(try_decode_client_handshake bs = Some (Inr h) \<longleftrightarrow> bs = encode_client_handshake h) \<and>
   (try_decode_server_handshake_reply bs = Some (Inr r) \<longleftrightarrow> bs = encode_server_handshake_reply r) \<and>
   try_decode_client_handshake bs \<noteq> None \<and> try_decode_server_handshake_reply bs \<noteq> None"
  unfolding try_decode_client_handshake_fixed try_decode_server_handshake_reply_fixed
  using chs.accepts_exactly [of bs h] shr.accepts_exactly [of bs r]
    chs.fixed.dec_safe [of bs] shr.fixed.dec_safe [of bs]
  by simp

text \<open>A client's default handshake passes the server's validation, the default reply passes
  the client's, and no normalised rejection does: the client tells an accepted connection from a
  rejected one whatever reason the server gives, zero included.\<close>

theorem handshake_policies_agree:
  "validate_client_handshake (decode_client_handshake
     (encode_client_handshake default_client_handshake)) = ch_accepted \<and>
   validate_server_handshake_reply (decode_server_handshake_reply
     (encode_server_handshake_reply default_server_handshake_reply)) = sr_accepted \<and>
   validate_server_handshake_reply (decode_server_handshake_reply (encode_server_handshake_reply
     (default_server_handshake_reply\<lparr>sr_error := normalize_reject_reason reason\<rparr>)))
       = version_unknown"
  by (simp add: default_client_handshake_def default_server_handshake_reply_def
      validate_client_handshake_def validate_server_handshake_reply_def normalize_reject_reason_def)

end
