(* ===== verification/Bit_Array.thy ===== *)
theory Bit_Array
  imports Endian
begin

unbundle bit_operations_syntax

text \<open>
  The bit-array helpers of \<open>appwarrior/core/bits.h\<close> (most significant bit of the
  first byte is bit 0) and the power-of-two rounding of \<open>appwarrior/core/align.h\<close>.

  A span is a byte list; the in-place updates return the updated list, and an index past the
  span is undefined behaviour, \<^const>\<open>None\<close>.  \<open>bit_view\<close> is the abstract array of
  bits, and each operation is shown to implement the list operation on it.
\<close>

section \<open>Bit access\<close>

definition get_bit :: "bytes \<Rightarrow> u32 \<Rightarrow> bool option" where
  "get_bit data index = do {
     d \<leftarrow> span_at (unat (drop_bit 3 index)) data;
     let byte = (ucast d :: u32);
     Some ((drop_bit (unat (7 - (index AND 7))) byte AND 1) \<noteq> 0) }"

definition set_bit_at :: "bytes \<Rightarrow> u32 \<Rightarrow> bytes option" where
  "set_bit_at data index = do {
     d \<leftarrow> span_at (unat (drop_bit 3 index)) data;
     Some (data[unat (drop_bit 3 index) :=
       d OR ucast (push_bit (unat (7 - (index AND 7))) (1 :: u32))]) }"

definition clear_bit_at :: "bytes \<Rightarrow> u32 \<Rightarrow> bytes option" where
  "clear_bit_at data index = do {
     d \<leftarrow> span_at (unat (drop_bit 3 index)) data;
     Some (data[unat (drop_bit 3 index) :=
       d AND ucast (NOT (push_bit (unat (7 - (index AND 7))) (1 :: u32)))]) }"

definition invert_bit_at :: "bytes \<Rightarrow> u32 \<Rightarrow> bytes option" where
  "invert_bit_at data index = do {
     d \<leftarrow> span_at (unat (drop_bit 3 index)) data;
     Some (data[unat (drop_bit 3 index) :=
       d XOR ucast (push_bit (unat (7 - (index AND 7))) (1 :: u32))]) }"

definition set_bit_to :: "bytes \<Rightarrow> u32 \<Rightarrow> bool \<Rightarrow> bytes option" where
  "set_bit_to data index value =
     (if value then set_bit_at data index else clear_bit_at data index)"

section \<open>The array of bits\<close>

definition msb_bit :: "bytes \<Rightarrow> nat \<Rightarrow> bool" where
  "msb_bit data i = bit (data ! (i div 8)) (7 - i mod 8)"

definition bit_view :: "bytes \<Rightarrow> bool list" where
  "bit_view data = map (msb_bit data) [0..<8 * length data]"

lemma length_bit_view [simp]: "length (bit_view data) = 8 * length data"
  by (simp add: bit_view_def)

lemma nth_bit_view [simp]: "i < 8 * length data \<Longrightarrow> bit_view data ! i = msb_bit data i"
  by (simp add: bit_view_def)

lemma unat_byte_index: "unat (drop_bit 3 (i :: u32)) = unat i div 8"
  unfolding unat_drop_bit_eq by (simp add: drop_bit_eq_div)

lemma unat_bit_index: "unat (7 - ((i :: u32) AND 7)) = 7 - unat i mod 8"
proof -
  have m: "(i AND 7) = take_bit 3 i"
    by (simp add: take_bit_eq_mask mask_eq_exp_minus_1)
  have u: "unat (i AND 7) = unat i mod 8"
    unfolding m unsigned_take_bit_eq by (simp add: take_bit_eq_mod)
  then have "i AND 7 \<le> 7" by (simp add: word_le_nat_alt)
  then show ?thesis by (simp add: unat_sub u)
qed

lemma bit_one_mask: "k < 8 \<Longrightarrow> bit (ucast (2 ^ k :: u32) :: byte) n \<longleftrightarrow> n = k"
  by (auto simp: bit_simps simp flip: push_bit_of_1)

lemma in_bounds: "unat i < 8 * length data \<longleftrightarrow> unat i div 8 < length data"
  by (simp add: less_mult_imp_div_less div_less_iff_less_mult mult.commute)

text \<open>The three updates change one byte by a mask with one bit; all read back alike.\<close>

lemma msb_bit_update:
  assumes "i < 8 * length data" "j < 8 * length data"
    and "\<And>n. n < 8 \<Longrightarrow> bit b n = (if n = 7 - i mod 8 then v else bit (data ! (i div 8)) n)"
  shows "msb_bit (data[i div 8 := b]) j = (if j = i then v else msb_bit data j)"
proof (cases "j div 8 = i div 8")
  case True
  have "7 - j mod 8 = 7 - i mod 8 \<longleftrightarrow> j mod 8 = i mod 8"
    using mod_less_divisor [of 8 i] mod_less_divisor [of 8 j] by linarith
  also have "\<dots> \<longleftrightarrow> j = i" using True by (metis mult_div_mod_eq)
  finally have "7 - j mod 8 = 7 - i mod 8 \<longleftrightarrow> j = i" .
  moreover have "i div 8 < length data" using assms(1) by (simp add: div_less_iff_less_mult)
  ultimately show ?thesis using True assms(3) [of "7 - j mod 8"] by (simp add: msb_bit_def)
next
  case False
  then show ?thesis by (auto simp: msb_bit_def)
qed

lemma get_bit_view:
  assumes "unat i < 8 * length data"
  shows "get_bit data i = Some (bit_view data ! unat i)"
proof -
  have "(drop_bit k (ucast d :: u32) AND 1) \<noteq> 0 \<longleftrightarrow> bit d k" for d :: byte and k
  proof -
    have "(x AND 1) \<noteq> 0 \<longleftrightarrow> odd x" for x :: u32
      by (simp add: and_one_eq mod_2_eq_odd)
    then show ?thesis
      by (auto simp: bit_unsigned_iff simp flip: bit_iff_odd_drop_bit dest: bit_imp_le_length)
  qed
  then show ?thesis using assms
    by (simp add: get_bit_def unat_byte_index unat_bit_index span_simps in_bounds msb_bit_def)
qed

lemma update_bit_view:
  assumes "unat i < 8 * length data"
    and "\<And>n. n < 8 \<Longrightarrow>
      bit b n = (if n = 7 - unat i mod 8 then v else bit (data ! (unat i div 8)) n)"
  shows "bit_view (data[unat i div 8 := b]) = (bit_view data)[unat i := v]"
  by (rule nth_equalityI) (auto simp: nth_list_update msb_bit_update [OF assms(1) _ assms(2)])

lemma set_bit_view:
  assumes "unat i < 8 * length data"
  shows "map_option bit_view (set_bit_at data i) = Some ((bit_view data)[unat i := True])"
proof -
  have "7 - unat i mod 8 < 8" by simp
  then show ?thesis using assms
    by (simp add: set_bit_at_def unat_byte_index unat_bit_index span_simps in_bounds)
      (rule update_bit_view; simp add: assms bit_or_iff bit_one_mask)
qed

lemma clear_bit_view:
  assumes "unat i < 8 * length data"
  shows "map_option bit_view (clear_bit_at data i) = Some ((bit_view data)[unat i := False])"
proof -
  have "bit (ucast (NOT (push_bit k (1 :: u32))) :: byte) n \<longleftrightarrow> n \<noteq> k" if "n < 8" for n k
    using that by (auto simp: bit_simps)
  then show ?thesis using assms
    by (simp add: clear_bit_at_def unat_byte_index unat_bit_index span_simps in_bounds)
      (rule update_bit_view; simp add: assms bit_and_iff)
qed

lemma invert_bit_view:
  assumes "unat i < 8 * length data"
  shows "map_option bit_view (invert_bit_at data i)
    = Some ((bit_view data)[unat i := \<not> bit_view data ! unat i])"
proof -
  have "7 - unat i mod 8 < 8" by simp
  then show ?thesis using assms
    by (simp add: invert_bit_at_def unat_byte_index unat_bit_index span_simps in_bounds)
      (rule update_bit_view; auto simp: assms bit_xor_iff bit_one_mask msb_bit_def)
qed

section \<open>Alignment\<close>

definition align_up :: "'n::len word \<Rightarrow> 'n word \<Rightarrow> 'n word" where
  "align_up value alignment = (value + alignment - 1) AND NOT (alignment - 1)"

definition align_down :: "'n::len word \<Rightarrow> 'n word \<Rightarrow> 'n word" where
  "align_down value alignment = value AND NOT (alignment - 1)"

lemma and_not_low_bits:
  "v AND NOT (2 ^ k - 1) = push_bit k (drop_bit k (v :: 'n::len word))"
  by (rule bit_word_eqI) (auto simp: bit_simps simp flip: mask_eq_exp_minus_1)

lemma unat_align_down:
  assumes "k < LENGTH('n)"
  shows "unat (align_down (v :: 'n::len word) (2 ^ k)) = unat v div 2 ^ k * 2 ^ k"
proof -
  have "unat v div 2 ^ k * 2 ^ k \<le> unat v" by simp
  then have "unat v div 2 ^ k * 2 ^ k < 2 ^ LENGTH('n)"
    using unat_less_power [of v] by linarith
  then show ?thesis
    unfolding align_down_def and_not_low_bits unsigned_push_bit_eq unat_drop_bit_eq
    by (simp add: push_bit_eq_mult drop_bit_eq_div take_bit_eq_mod)
qed

lemma unat_align_up:
  assumes "k < LENGTH('n)" and fits: "unat v + (2 ^ k - 1) < 2 ^ LENGTH('n)"
  shows "unat (align_up (v :: 'n::len word) (2 ^ k)) = (unat v + (2 ^ k - 1)) div 2 ^ k * 2 ^ k"
proof -
  have "unat (word_of_nat (2 ^ k) :: 'n word) = 2 ^ k"
    unfolding unat_of_nat using assms(1) by simp
  moreover have "(1 :: 'n word) \<le> word_of_nat (2 ^ k)"
    using calculation by (simp add: word_le_nat_alt)
  ultimately have "unat (2 ^ k - 1 :: 'n word) = 2 ^ k - 1"
    by (simp add: unat_sub)
  then have "unat (v + (2 ^ k - 1)) = unat v + (2 ^ k - 1)"
    using fits by (simp add: unat_word_ariths)
  moreover have "align_up v (2 ^ k) = align_down (v + (2 ^ k - 1)) (2 ^ k)"
    by (simp add: align_up_def align_down_def add_diff_eq)
  ultimately show ?thesis using assms(1) by (simp add: unat_align_down)
qed

end
