(* ===== verification/Payloads.thy ===== *)
theory Payloads
  imports Wire_Constants Bit_Array
begin

unbundle bit_operations_syntax

text \<open>
  The typed payloads that travel inside fields (\<open>hotline/protocol/payload.h\<close>,
  \<open>payload.cpp\<close>): file and user records ending in a counted name, the 64-bit access mask
  and the time stamp.  The mask is related to the bit-array helpers of the framework: privilege
  \<open>p\<close> is bit \<open>p\<close> of the eight wire bytes.
\<close>

section \<open>File records\<close>

definition kFileInfoHeaderSize :: nat where "kFileInfoHeaderSize = 20"

record file_info =
  fi_type :: u32
  fi_creator :: u32
  fi_file_size :: u32
  fi_name_script :: u16
  fi_name :: string

definition append_raw :: "bytes \<Rightarrow> string \<Rightarrow> bytes" where
  "append_raw out text = out @ map byte_of_char text"

definition read_raw_name :: "bytes \<Rightarrow> string" where
  "read_raw_name name_bytes = map char_of_byte name_bytes"

definition encode_file_info :: "file_info \<Rightarrow> EncodeError + bytes" where
  "encode_file_info info =
     (if length (fi_name info) > kMaxFieldDataSize then Inl string_too_long
      else Inr (append_raw
        (write_u32le (fi_type info) @ write_u32le (fi_creator info) @
         write_u32be (fi_file_size info) @ write_u32be 0 @ write_u16be (fi_name_script info) @
         write_u16be (word_of_nat (length (fi_name info))))
        (fi_name info)))"

definition try_decode_file_info :: "bytes \<Rightarrow> (DecodeError, file_info) checked" where
  "try_decode_file_info bs =
     (if length bs < kFileInfoHeaderSize then Some (Inl truncated)
      else do {
        name_size \<leftarrow> u16be_at 18 bs;
        let total = kFileInfoHeaderSize + unat name_size;
        if length bs < total then Some (Inl truncated)
        else if length bs > total then Some (Inl trailing_bytes)
        else do {
          type \<leftarrow> u32le_at 0 bs;
          creator \<leftarrow> u32le_at 4 bs;
          file_size \<leftarrow> u32be_at 8 bs;
          name_script \<leftarrow> u16be_at 16 bs;
          name \<leftarrow> span_sub kFileInfoHeaderSize (unat name_size) bs;
          Some (Inr \<lparr> fi_type = type, fi_creator = creator, fi_file_size = file_size,
            fi_name_script = name_script, fi_name = read_raw_name name \<rparr>) } })"

section \<open>User records\<close>

definition kUserInfoHeaderSize :: nat where "kUserInfoHeaderSize = 8"

text \<open>\<open>std::int16_t icon_id\<close> is its 16-bit pattern.\<close>

record user_info =
  ui_id :: u16
  ui_icon_id :: u16
  ui_flags :: u16
  ui_name :: string

definition encode_user_info :: "user_info \<Rightarrow> EncodeError + bytes" where
  "encode_user_info info =
     (if length (ui_name info) > kMaxFieldDataSize then Inl string_too_long
      else Inr (append_raw
        (write_u16be (ui_id info) @ write_u16be (ui_icon_id info) @ write_u16be (ui_flags info) @
         write_u16be (word_of_nat (length (ui_name info))))
        (ui_name info)))"

definition try_decode_user_info :: "bytes \<Rightarrow> (DecodeError, user_info) checked" where
  "try_decode_user_info bs =
     (if length bs < kUserInfoHeaderSize then Some (Inl truncated)
      else do {
        name_size \<leftarrow> u16be_at 6 bs;
        let total = kUserInfoHeaderSize + unat name_size;
        if length bs < total then Some (Inl truncated)
        else if length bs > total then Some (Inl trailing_bytes)
        else do {
          uid \<leftarrow> u16be_at 0 bs;
          icon_id \<leftarrow> u16be_at 2 bs;
          flags \<leftarrow> u16be_at 4 bs;
          name \<leftarrow> span_sub kUserInfoHeaderSize (unat name_size) bs;
          Some (Inr \<lparr> ui_id = uid, ui_icon_id = icon_id, ui_flags = flags,
            ui_name = read_raw_name name \<rparr>) } })"

section \<open>Access masks\<close>

definition kAccessMaskSize :: nat where "kAccessMaskSize = 8"

record access_mask =
  am_bits :: u64

definition mask_new :: access_mask where
  "mask_new = \<lparr> am_bits = 0 \<rparr>"

definition mask_shift :: "AccessPrivilege \<Rightarrow> nat" where
  "mask_shift p = unat (63 - (ucast (privilege_value p) :: u32))"

definition mask_has :: "access_mask \<Rightarrow> AccessPrivilege \<Rightarrow> bool" where
  "mask_has m p = ((drop_bit (mask_shift p) (am_bits m) AND 1) \<noteq> 0)"

definition mask_set :: "access_mask \<Rightarrow> AccessPrivilege \<Rightarrow> bool \<Rightarrow> access_mask" where
  "mask_set m p value =
     (if value then m\<lparr> am_bits := am_bits m OR push_bit (mask_shift p) 1 \<rparr>
      else m\<lparr> am_bits := am_bits m AND NOT (push_bit (mask_shift p) 1) \<rparr>)"

definition mask_clear :: "access_mask \<Rightarrow> access_mask" where
  "mask_clear m = m\<lparr> am_bits := 0 \<rparr>"

definition mask_fill :: "access_mask \<Rightarrow> access_mask" where
  "mask_fill m = m\<lparr> am_bits := NOT 0 \<rparr>"

definition encode_access_mask :: "access_mask \<Rightarrow> bytes" where
  "encode_access_mask m = write_u64be (am_bits m)"

definition decode_access_mask :: "bytes \<Rightarrow> access_mask" where
  "decode_access_mask bs = \<lparr> am_bits = read_u64be bs \<rparr>"

definition try_decode_access_mask :: "bytes \<Rightarrow> (DecodeError, access_mask) checked" where
  "try_decode_access_mask bs =
     (if length bs < kAccessMaskSize then Some (Inl truncated)
      else if length bs > kAccessMaskSize then Some (Inl trailing_bytes)
      else do { b \<leftarrow> span_first kAccessMaskSize bs; Some (Inr (decode_access_mask b)) })"

section \<open>Time stamps\<close>

definition kDateTimeStampSize :: nat where "kDateTimeStampSize = 8"

record date_time_stamp =
  dts_year :: u16
  dts_msecs :: u16
  dts_seconds :: u32

definition encode_date_time_stamp :: "date_time_stamp \<Rightarrow> bytes" where
  "encode_date_time_stamp s =
     write_u16be (dts_year s) @ write_u16be (dts_msecs s) @ write_u32be (dts_seconds s)"

definition decode_date_time_stamp :: "bytes \<Rightarrow> date_time_stamp" where
  "decode_date_time_stamp b = \<lparr> dts_year = read_u16be (take 2 b),
     dts_msecs = read_u16be (take 2 (drop 2 b)), dts_seconds = read_u32be (take 4 (drop 4 b)) \<rparr>"

definition try_decode_date_time_stamp :: "bytes \<Rightarrow> (DecodeError, date_time_stamp) checked" where
  "try_decode_date_time_stamp bs =
     (if length bs < kDateTimeStampSize then Some (Inl truncated)
      else if length bs > kDateTimeStampSize then Some (Inl trailing_bytes)
      else do { b \<leftarrow> span_first kDateTimeStampSize bs; Some (Inr (decode_date_time_stamp b)) })"

lemmas payload_sizes [simp] =
  kFileInfoHeaderSize_def kUserInfoHeaderSize_def kAccessMaskSize_def kDateTimeStampSize_def

section \<open>The codec contracts\<close>

lemma read_raw_name_inverse [simp]:
  "read_raw_name (map byte_of_char s) = s" "map byte_of_char (read_raw_name bs) = bs"
  by (simp_all add: read_raw_name_def del: map_map)

lemma length_read_raw_name [simp]: "length (read_raw_name bs) = length bs"
  by (simp add: read_raw_name_def)

definition file_info_ok :: "file_info \<Rightarrow> bool" where
  "file_info_ok i \<longleftrightarrow> length (fi_name i) \<le> kMaxFieldDataSize"

definition user_info_ok :: "user_info \<Rightarrow> bool" where
  "user_info_ok i \<longleftrightarrow> length (ui_name i) \<le> kMaxFieldDataSize"

text \<open>Decoding the wire form of a record with \<open>xs\<close> behind it.\<close>

lemma try_decode_file_info_wire:
  "length ns \<le> 65535 \<Longrightarrow> length rsvd = 4 \<Longrightarrow>
   try_decode_file_info (write_u32le a @ write_u32le b @ write_u32be c @ rsvd @ write_u16be d @
       write_u16be (word_of_nat (length ns)) @ ns @ xs) =
     (if xs \<noteq> [] then Some (Inl trailing_bytes)
      else Some (Inr \<lparr> fi_type = a, fi_creator = b, fi_file_size = c, fi_name_script = d,
        fi_name = read_raw_name ns \<rparr>))"
  by (simp add: try_decode_file_info_def span_simps)

lemma try_decode_user_info_wire:
  "length ns \<le> 65535 \<Longrightarrow>
   try_decode_user_info (write_u16be a @ write_u16be b @ write_u16be c @
       write_u16be (word_of_nat (length ns)) @ ns @ xs) =
     (if xs \<noteq> [] then Some (Inl trailing_bytes)
      else Some (Inr \<lparr> ui_id = a, ui_icon_id = b, ui_flags = c, ui_name = read_raw_name ns \<rparr>))"
  by (simp add: try_decode_user_info_def span_simps)

lemma encode_file_info_wire:
  "encode_file_info x = Inr bs \<longleftrightarrow> file_info_ok x \<and>
     bs = write_u32le (fi_type x) @ write_u32le (fi_creator x) @ write_u32be (fi_file_size x) @
       write_u32be 0 @ write_u16be (fi_name_script x) @
       write_u16be (word_of_nat (length (map byte_of_char (fi_name x)))) @ map byte_of_char (fi_name x) @ []"
  by (auto simp: encode_file_info_def file_info_ok_def append_raw_def)

lemma encode_user_info_wire:
  "encode_user_info x = Inr bs \<longleftrightarrow> user_info_ok x \<and>
     bs = write_u16be (ui_id x) @ write_u16be (ui_icon_id x) @ write_u16be (ui_flags x) @
       write_u16be (word_of_nat (length (map byte_of_char (ui_name x)))) @ map byte_of_char (ui_name x) @ []"
  by (auto simp: encode_user_info_def user_info_ok_def append_raw_def)

lemma try_decode_file_info_safe: "try_decode_file_info bs \<noteq> None"
proof (cases "length bs < 20")
  case False
  then have at: "u16be_at 18 bs = Some (read_u16be (take 2 (drop 18 bs)))" by (simp add: span_simps)
  obtain n where n: "unat (read_u16be (take 2 (drop 18 bs))) = n" by simp
  consider "length bs < 20 + n" | "length bs > 20 + n" | "length bs = 20 + n" by linarith
  then show ?thesis
    by cases (simp_all add: try_decode_file_info_def at n span_simps)
qed (simp add: try_decode_file_info_def)

lemma try_decode_user_info_cases:
  assumes "8 \<le> length bs" and n: "unat (read_u16be (take 2 (drop 6 bs))) = n"
  shows "try_decode_user_info bs =
    (if length bs < 8 + n then Some (Inl truncated)
     else if length bs > 8 + n then Some (Inl trailing_bytes)
     else Some (Inr \<lparr> ui_id = read_u16be (take 2 bs), ui_icon_id = read_u16be (take 2 (drop 2 bs)),
      ui_flags = read_u16be (take 2 (drop 4 bs)), ui_name = read_raw_name (drop 8 bs) \<rparr>))"
proof -
  have at: "u16be_at 6 bs = Some (read_u16be (take 2 (drop 6 bs)))"
    using assms(1) by (simp add: span_simps)
  consider "length bs < 8 + n" | "length bs > 8 + n" | "length bs = 8 + n" by linarith
  then show ?thesis
    using assms(1) by cases (simp_all add: try_decode_user_info_def at n span_simps)
qed

lemma try_decode_user_info_safe: "try_decode_user_info bs \<noteq> None"
proof (cases "length bs < 8")
  case False
  obtain n where n: "unat (read_u16be (take 2 (drop 6 bs))) = n" by simp
  from False show ?thesis by (simp add: try_decode_user_info_cases [OF _ n])
qed (simp add: try_decode_user_info_def)

interpretation finfo: codec encode_file_info try_decode_file_info file_info_ok
proof (unfold_locales, goal_cases)
  case (1 x)
  then show ?case by (simp add: encode_file_info_wire)
next
  case (2 x bs)
  then show ?case
    using try_decode_file_info_wire [of "map byte_of_char (fi_name x)" "write_u32be 0" _ _ _ _ "[]"]
    by (simp add: encode_file_info_wire file_info_ok_def del: append_Nil2)
next
  case (3 bs)
  show ?case by (rule try_decode_file_info_safe)
next
  case (4 x bs xs)
  then show ?case
    using try_decode_file_info_wire [of "map byte_of_char (fi_name x)" "write_u32be 0" _ _ _ _ xs]
    by (simp add: encode_file_info_wire file_info_ok_def)
qed

lemma try_decode_user_info_inv:
  assumes "try_decode_user_info bs = Some (Inr x)"
  shows "user_info_ok x \<and> encode_user_info x = Inr bs"
proof -
  obtain n where n: "unat (read_u16be (take 2 (drop 6 bs))) = n" by simp
  have "8 \<le> length bs" using assms by (auto simp: try_decode_user_info_def split: if_splits)
  then have l: "length bs = 8 + n"
    and x: "x = \<lparr> ui_id = read_u16be (take 2 bs), ui_icon_id = read_u16be (take 2 (drop 2 bs)),
      ui_flags = read_u16be (take 2 (drop 4 bs)), ui_name = read_raw_name (drop 8 bs) \<rparr>"
    using assms by (simp_all add: try_decode_user_info_cases [OF _ n] split: if_splits)
  have le: "n \<le> 65535" using unat_u16_le [of "read_u16be (take 2 (drop 6 bs))"] n by simp
  have "word_of_nat n = read_u16be (take 2 (drop 6 bs))" unfolding n [symmetric] by simp
  then have "write_u16be (word_of_nat n) = take 2 (drop 6 bs)"
    using \<open>8 \<le> length bs\<close> by simp
  then have "encode_user_info x = Inr (take 2 bs @ take 2 (drop 2 bs) @ take 2 (drop 4 bs) @
      take 2 (drop 6 bs) @ drop 8 bs)"
    using l le unfolding x by (simp add: encode_user_info_def append_raw_def)
  also have "take 2 (drop 6 bs) @ drop 8 bs = drop 6 bs" by (rule take_drop_join) simp
  also have "take 2 (drop 4 bs) @ drop 6 bs = drop 4 bs" by (rule take_drop_join) simp
  also have "take 2 (drop 2 bs) @ drop 4 bs = drop 2 bs" by (rule take_drop_join) simp
  finally have "encode_user_info x = Inr bs" by simp
  moreover have "user_info_ok x"
    unfolding x user_info_ok_def using l le by simp
  ultimately show ?thesis by simp
qed

interpretation uinfo: canonical_codec encode_user_info try_decode_user_info user_info_ok
proof (unfold_locales, goal_cases)
  case (1 x)
  then show ?case by (simp add: encode_user_info_wire)
next
  case (2 x bs)
  then show ?case
    using try_decode_user_info_wire [of "map byte_of_char (ui_name x)" _ _ _ "[]"]
    by (simp add: encode_user_info_wire user_info_ok_def del: append_Nil2)
next
  case (3 bs)
  show ?case by (rule try_decode_user_info_safe)
next
  case (4 x bs xs)
  then show ?case
    using try_decode_user_info_wire [of "map byte_of_char (ui_name x)" _ _ _ xs]
    by (simp add: encode_user_info_wire user_info_ok_def)
next
  case (5 bs x)
  then show ?case by (rule try_decode_user_info_inv)
qed

lemma try_decode_access_mask_fixed:
  "try_decode_access_mask = try_fixed kAccessMaskSize decode_access_mask"
  by (simp add: fun_eq_iff try_decode_access_mask_def try_fixed_def)

lemma try_decode_date_time_stamp_fixed:
  "try_decode_date_time_stamp = try_fixed kDateTimeStampSize decode_date_time_stamp"
  by (simp add: fun_eq_iff try_decode_date_time_stamp_def try_fixed_def)

interpretation mask: fixed_codec kAccessMaskSize encode_access_mask decode_access_mask "\<lambda>_. True"
  by unfold_locales (simp_all add: encode_access_mask_def decode_access_mask_def)

lemma encode_decode_date_time_stamp:
  assumes "length bs = 8"
  shows "encode_date_time_stamp (decode_date_time_stamp bs) = bs"
proof -
  have "encode_date_time_stamp (decode_date_time_stamp bs) =
      take 2 bs @ take 2 (drop 2 bs) @ drop 4 bs"
    using assms by (simp add: encode_date_time_stamp_def decode_date_time_stamp_def)
  also have "take 2 (drop 2 bs) @ drop 4 bs = drop 2 bs" by (rule take_drop_join) simp
  finally show ?thesis by simp
qed

interpretation dts: fixed_codec kDateTimeStampSize encode_date_time_stamp decode_date_time_stamp
  "\<lambda>_. True"
proof (unfold_locales, goal_cases)
  case (2 x)
  then show ?case by (simp add: encode_date_time_stamp_def decode_date_time_stamp_def)
qed (simp_all add: encode_decode_date_time_stamp, simp add: encode_date_time_stamp_def)

section \<open>Privileges\<close>

lemma unat_privilege: "unat (ucast (privilege_value p) :: u32) = unat (privilege_value p)"
proof -
  have "unat (privilege_value p) < 2 ^ 32" using privilege_value_less [of p] by simp
  then show ?thesis by (simp add: unsigned_ucast_eq take_bit_nat_eq_self)
qed

lemma mask_shift_alt: "mask_shift p = 63 - unat (privilege_value p)"
  using privilege_value_less [of p] by (simp add: mask_shift_def unat_sub word_le_nat_alt unat_privilege)

lemma mask_shift_less: "mask_shift p < 64"
  by (simp add: mask_shift_alt)

lemma mask_shift_inj: "mask_shift p = mask_shift q \<longleftrightarrow> p = q"
proof
  assume "mask_shift p = mask_shift q"
  then have "unat (privilege_value p) = unat (privilege_value q)"
    using privilege_value_less [of p] privilege_value_less [of q] by (simp add: mask_shift_alt)
  then show "p = q" by (intro privilege_value_inj) (simp only: word_unat_eq_iff)
qed simp

lemma mask_has_bit: "mask_has m p \<longleftrightarrow> bit (am_bits m) (mask_shift p)"
  by (simp add: mask_has_def and_one_eq bit_iff_odd_drop_bit mod_2_eq_odd)

lemma mask_has_set [simp]: "mask_has (mask_set m p v) q = (if q = p then v else mask_has m q)"
  using mask_shift_less [of p] mask_shift_less [of q] mask_shift_inj [of q p]
  by (auto simp: mask_has_bit mask_set_def bit_simps)

lemma mask_has_constant [simp]:
  "\<not> mask_has mask_new p" "\<not> mask_has (mask_clear m) p" "mask_has (mask_fill m) p"
  using mask_shift_less [of p] by (simp_all add: mask_has_bit mask_new_def mask_clear_def mask_fill_def)

text \<open>Bit \<open>n\<close> of the big-endian reading is a bit of one wire byte.\<close>

lemma octet_index:
  assumes "k < (8 :: nat)"
  shows "(8 + k) div 8 = 1" "(8 + k) mod 8 = k" "(16 + k) div 8 = 2" "(16 + k) mod 8 = k"
    "(24 + k) div 8 = 3" "(24 + k) mod 8 = k"
  using assms by presburger+

lemma bit_read_u32be:
  assumes "n < 32"
  shows "bit (read_u32be bs) n = bit (bs ! (3 - n div 8)) (n mod 8)"
proof -
  have "n < LENGTH(32)" using assms by simp
  then show ?thesis
    by (cases rule: octet_cases) (auto simp: read_u32be_def bit_simps not_bit_byte octet_index)
qed

lemma bit_read_u64be:
  assumes "n < 64" and "length bs = 8"
  shows "bit (read_u64be bs) n = bit (bs ! (7 - n div 8)) (n mod 8)"
proof (cases "n < 32")
  case True
  then have "n div 8 < 4" by (simp add: div_less_iff_less_mult)
  then have "4 + (3 - n div 8) = 7 - n div 8" by simp
  moreover have "bit (read_u64be bs) n = bit (read_u32be (take 4 (drop 4 bs))) n"
    using True by (auto simp: read_u64be_def bit_simps)
  ultimately show ?thesis
    using True \<open>n div 8 < 4\<close> assms(2) by (simp add: bit_read_u32be)
next
  case False
  define m where "m = n - 32"
  have m: "n = 32 + m" "m < 32" using False assms by (simp_all add: m_def)
  then have "m div 8 < 4" by (simp add: div_less_iff_less_mult)
  have "n div 8 = 4 + m div 8" "n mod 8 = m mod 8" unfolding m(1) by presburger+
  moreover have "bit (read_u64be bs) n = bit (read_u32be (take 4 bs)) m"
    using m by (auto simp: read_u64be_def bit_simps dest: bit_imp_le_length)
  ultimately show ?thesis
    using m(2) \<open>m div 8 < 4\<close> by (simp add: bit_read_u32be)
qed

lemma mirror_index:
  assumes "(v :: nat) < 64"
  shows "7 - (63 - v) div 8 = v div 8" "(63 - v) mod 8 = 7 - v mod 8"
proof -
  define q r where "q = v div 8" and "r = v mod 8"
  have v: "v = 8 * q + r" "r < 8" and q: "q < 8"
    using assms by (simp_all add: q_def r_def div_less_iff_less_mult)
  then have "63 - v = 8 * (7 - q) + (7 - r)" by simp
  moreover have "(8 * (7 - q) + (7 - r)) div 8 = 7 - q" "(8 * (7 - q) + (7 - r)) mod 8 = 7 - r"
    using v(2) by (simp_all only: div_mult_self4 mod_mult_self4) simp_all
  ultimately show "7 - (63 - v) div 8 = v div 8" "(63 - v) mod 8 = 7 - v mod 8"
    using q by (simp_all flip: q_def r_def)
qed

lemma bit_decoded_mask:
  assumes "length bs = 8" and "n < 64"
  shows "bit (am_bits (decode_access_mask bs)) n = msb_bit bs (63 - n)"
  using mirror_index [of "63 - n"] assms bit_read_u64be [of n bs]
  by (simp add: decode_access_mask_def msb_bit_def)

lemma mask_has_msb_bit:
  "length bs = 8 \<Longrightarrow> mask_has (decode_access_mask bs) p = msb_bit bs (unat (privilege_value p))"
  using privilege_value_less [of p] by (simp add: mask_has_bit mask_shift_alt bit_decoded_mask)

section \<open>Properties\<close>

text \<open>C22: User records have one wire form each, file records round-trip whatever their reserved
  bytes, neither decoder can read out of bounds, and a record with bytes behind it is refused.\<close>

theorem name_records_codecs:
  "(try_decode_user_info bs = Some (Inr u) \<longleftrightarrow> user_info_ok u \<and> encode_user_info u = Inr bs) \<and>
   (file_info_ok f \<longrightarrow> (\<exists>w. encode_file_info f = Inr w \<and> try_decode_file_info w = Some (Inr f) \<and>
      (\<forall>xs. xs \<noteq> [] \<longrightarrow> try_decode_file_info (w @ xs) = Some (Inl trailing_bytes)))) \<and>
   try_decode_user_info bs \<noteq> None \<and> try_decode_file_info bs \<noteq> None"
  using uinfo.accepts_iff [of bs u] uinfo.dec_safe [of bs] finfo.dec_safe [of bs]
    finfo.enc_total [of f] finfo.dec_enc [of f] finfo.dec_extended [of f] by blast

theorem name_records_codecs_witness:
  "\<exists>w. encode_file_info \<lparr> fi_type = 1, fi_creator = 2, fi_file_size = 3, fi_name_script = 0,
      fi_name = ''a'' \<rparr> = Inr w \<and>
    try_decode_file_info (w @ [0]) = Some (Inl trailing_bytes)"
  using name_records_codecs [where f = "\<lparr> fi_type = 1, fi_creator = 2, fi_file_size = 3,
      fi_name_script = 0, fi_name = ''a'' \<rparr>"]
  by (fastforce simp: file_info_ok_def)

text \<open>An access mask is a set of privileges: setting or clearing one changes that one only,
  and the empty and full masks hold none and all of them.\<close>

theorem access_mask_is_set:
  "{q. mask_has (mask_set m p True) q} = insert p {q. mask_has m q} \<and>
   {q. mask_has (mask_set m p False) q} = {q. mask_has m q} - {p} \<and>
   {q. mask_has mask_new q} = {} \<and> {q. mask_has (mask_clear m) q} = {} \<and>
   {q. mask_has (mask_fill m) q} = UNIV"
  by auto

text \<open>The mask decoded from eight bytes has privilege \<open>p\<close> exactly when bit \<open>p\<close> of
  those bytes is set in the bit order of the framework's bit arrays, and encoding gives the bytes
  back: the mask never depends on the byte order of a host.\<close>

theorem access_mask_wire_bits:
  assumes "length bs = 8"
  shows "get_bit bs (ucast (privilege_value p)) = Some (mask_has (decode_access_mask bs) p)
    \<and> encode_access_mask (decode_access_mask bs) = bs"
  using get_bit_view [of "ucast (privilege_value p)" bs] mask_has_msb_bit [OF assms] assms
    privilege_value_less [of p]
  by (simp add: unat_privilege encode_access_mask_def decode_access_mask_def)

theorem access_mask_wire_bits_witness:
  "get_bit [0, 0x40, 0, 0, 0, 0, 0, 0] (ucast (privilege_value P_ReadChat))
     = Some (mask_has (decode_access_mask [0, 0x40, 0, 0, 0, 0, 0, 0]) P_ReadChat)"
  using access_mask_wire_bits [of "[0, 0x40, 0, 0, 0, 0, 0, 0]" P_ReadChat] by simp

end
