(* ===== verification/Digest_Common.thy ===== *)
theory Digest_Common
  imports Prelude
begin

unbundle bit_operations_syntax

text \<open>
  What the two message digests of \<open>appwarrior/crypto\<close> share: the rotation, the loop that
  consumes whole 64-byte blocks, and the padding rule of RFC 1321 and FIPS 180-1, against which
  the in-place tail handling of \<open>md5.cpp\<close> and \<open>sha1.cpp\<close> is proved.
\<close>

definition rotate_left :: "u32 \<Rightarrow> nat \<Rightarrow> u32" where
  "rotate_left value amount = push_bit amount value OR drop_bit (32 - amount) value"

text \<open>\<open>while (remaining >= block_size) { process_block(...); ... }\<close>\<close>

function block_loop :: "('s \<Rightarrow> bytes \<Rightarrow> 's) \<Rightarrow> 's \<Rightarrow> bytes \<Rightarrow> 's \<times> bytes" where
  "block_loop step s bs =
     (if length bs \<ge> 64 then block_loop step (step s (take 64 bs)) (drop 64 bs) else (s, bs))"
  by pat_completeness auto
termination by (relation "measure (\<lambda>(_, _, bs). length bs)") auto

declare block_loop.simps [simp del]

section \<open>Padding\<close>

fun blocks64 :: "nat \<Rightarrow> bytes \<Rightarrow> bytes list" where
  "blocks64 0 bs = []"
| "blocks64 (Suc n) bs = take 64 bs # blocks64 n (drop 64 bs)"

lemma length_blocks64 [simp]: "length (blocks64 n bs) = n"
  by (induction n arbitrary: bs) simp_all

definition pad_zeros :: "nat \<Rightarrow> nat" where
  "pad_zeros n = (119 - n mod 64) mod 64"

definition padded :: "(nat \<Rightarrow> bytes) \<Rightarrow> bytes \<Rightarrow> bytes" where
  "padded len8 msg = msg @ [0x80] @ replicate (pad_zeros (length msg)) 0 @ len8 (length msg)"

definition pad_blocks :: "(nat \<Rightarrow> bytes) \<Rightarrow> bytes \<Rightarrow> bytes list" where
  "pad_blocks len8 msg = blocks64 (length (padded len8 msg) div 64) (padded len8 msg)"

lemma pad_zeros_cases:
  "pad_zeros n = (if n mod 64 \<le> 55 then 55 - n mod 64 else 119 - n mod 64)"
proof (cases "n mod 64 \<le> 55")
  case True
  then have "119 - n mod 64 = 64 + (55 - n mod 64)" by simp
  then have "pad_zeros n = (64 + (55 - n mod 64)) mod 64" by (simp only: pad_zeros_def)
  also have "\<dots> = (55 - n mod 64) mod 64" by (rule mod_add_self1)
  finally show ?thesis using True by simp
next
  case False
  then show ?thesis by (simp add: pad_zeros_def)
qed

lemma padded_multiple:
  assumes "length (len8 (length msg)) = 8"
  shows "length (padded len8 msg) mod 64 = 0"
proof -
  let ?n = "length msg"
  have *: "q * 64 + m + 1 + (if m \<le> 55 then 55 - m else 119 - m) + 8
      = (q + (if m \<le> 55 then 1 else 2)) * 64" if "m < 64" for q m :: nat
    using that by auto
  have "?n + 1 + pad_zeros ?n + 8 = (?n div 64 + (if ?n mod 64 \<le> 55 then 1 else 2)) * 64"
    using * [of "?n mod 64" "?n div 64"] unfolding pad_zeros_cases div_mult_mod_eq by simp
  moreover have "length (padded len8 msg) = ?n + 1 + pad_zeros ?n + 8"
    using assms by (simp add: padded_def)
  ultimately show ?thesis by simp
qed

lemma block_loop_fold:
  "block_loop step s bs =
     (foldl step s (blocks64 (length bs div 64) bs), drop (length bs div 64 * 64) bs)"
proof (induction step s bs rule: block_loop.induct)
  case (1 step s bs)
  show ?case
  proof (cases "length bs \<ge> 64")
    case True
    then have "length bs div 64 = Suc (length (drop 64 bs) div 64)"
      by (simp add: le_div_geq)
    then show ?thesis using True 1 [OF True]
      by (simp add: block_loop.simps [of step s bs] add.commute)
  next
    case False
    then show ?thesis by (simp add: block_loop.simps [of step s bs])
  qed
qed

lemma blocks64_append: "length xs = n * 64 \<Longrightarrow> blocks64 (n + m) (xs @ ys) = blocks64 n xs @ blocks64 m ys"
  by (induction n arbitrary: xs) auto

lemma blocks64_two: "length xs = 64 \<Longrightarrow> length ys = 64 \<Longrightarrow> blocks64 2 (xs @ ys) = [xs, ys]"
  by (simp add: numeral_2_eq_2)

text \<open>
  The last one or two blocks, from the rest \<open>r\<close> that the block loop leaves: one block if
  the marker and the length fit behind it, else two.
\<close>

lemma pad_blocks_split:
  assumes len8: "length (len8 (length msg)) = 8"
  defines "n \<equiv> length msg div 64"
  defines "r \<equiv> drop (n * 64) msg"
  shows "pad_blocks len8 msg = blocks64 n msg @
     (if length r + 1 > 56
      then [r @ [0x80] @ replicate (63 - length r) 0, replicate 56 0 @ len8 (length msg)]
      else [r @ [0x80] @ replicate (55 - length r) 0 @ len8 (length msg)])"
proof -
  have lr: "length r = length msg mod 64"
    by (simp add: r_def n_def minus_div_mult_eq_mod)
  then have r64: "length r < 64" by simp
  have split: "msg = take (n * 64) msg @ r" by (simp add: r_def)
  have lt: "length (take (n * 64) msg) = n * 64" by (simp add: n_def)
  have same: "blocks64 n (take (n * 64) msg) = blocks64 n msg"
    using blocks64_append [OF lt, of 0 r] split by simp
  define tail where "tail = r @ [0x80] @ replicate (pad_zeros (length msg)) 0 @ len8 (length msg)"
  have pad: "padded len8 msg = take (n * 64) msg @ tail"
    using split unfolding padded_def tail_def by (metis append.assoc)
  have zeros: "pad_zeros (length msg) = (if length r + 1 > 56 then 119 - length r else 55 - length r)"
    using r64 unfolding pad_zeros_cases lr [symmetric] by auto
  have ltail: "length tail = (if length r + 1 > 56 then 2 * 64 else 1 * 64)"
    using r64 len8 by (simp add: tail_def zeros)
  then have blocks: "pad_blocks len8 msg = blocks64 n msg @ blocks64 (length tail div 64) tail"
    unfolding pad_blocks_def pad using blocks64_append [OF lt, of "length tail div 64" tail] lt
    by (simp add: same)
  show ?thesis
  proof (cases "length r + 1 > 56")
    case True
    have "replicate (119 - length r) (0 :: byte) = replicate (63 - length r) 0 @ replicate 56 0"
      using r64 by (simp flip: replicate_add)
    then have "tail = (r @ [0x80] @ replicate (63 - length r) 0) @ replicate 56 0 @ len8 (length msg)"
      using True by (simp add: tail_def zeros)
    moreover have "length (r @ [0x80] @ replicate (63 - length r) (0 :: byte)) = 64"
      using r64 by simp
    moreover have "length (replicate 56 (0 :: byte) @ len8 (length msg)) = 64"
      using len8 by simp
    ultimately have "blocks64 2 tail =
        [r @ [0x80] @ replicate (63 - length r) 0, replicate 56 0 @ len8 (length msg)]"
      by (metis blocks64_two)
    then show ?thesis using True ltail blocks by simp
  next
    case False
    then have "blocks64 1 tail = [r @ [0x80] @ replicate (55 - length r) 0 @ len8 (length msg)]"
      using ltail by (simp add: tail_def zeros)
    then show ?thesis using False ltail blocks by simp
  qed
qed

end
