(* ===== verification/Digest_MD5.thy ===== *)
theory Digest_MD5
  imports Digest_Common
begin

unbundle bit_operations_syntax

text \<open>
  The MD5 digest of \<open>appwarrior/crypto/md5.h\<close> and \<open>md5.cpp\<close>.  The digest
  works on the message in place and builds the final block in a local array; it is proved equal
  to the compression of the padded message of RFC 1321.
\<close>

definition md5_k :: "u32 list" where
  "md5_k = [
    0xd76aa478, 0xe8c7b756, 0x242070db, 0xc1bdceee, 0xf57c0faf, 0x4787c62a,
    0xa8304613, 0xfd469501, 0x698098d8, 0x8b44f7af, 0xffff5bb1, 0x895cd7be,
    0x6b901122, 0xfd987193, 0xa679438e, 0x49b40821, 0xf61e2562, 0xc040b340,
    0x265e5a51, 0xe9b6c7aa, 0xd62f105d, 0x02441453, 0xd8a1e681, 0xe7d3fbc8,
    0x21e1cde6, 0xc33707d6, 0xf4d50d87, 0x455a14ed, 0xa9e3e905, 0xfcefa3f8,
    0x676f02d9, 0x8d2a4c8a, 0xfffa3942, 0x8771f681, 0x6d9d6122, 0xfde5380c,
    0xa4beea44, 0x4bdecfa9, 0xf6bb4b60, 0xbebfbc70, 0x289b7ec6, 0xeaa127fa,
    0xd4ef3085, 0x04881d05, 0xd9d4d039, 0xe6db99e5, 0x1fa27cf8, 0xc4ac5665,
    0xf4292244, 0x432aff97, 0xab9423a7, 0xfc93a039, 0x655b59c3, 0x8f0ccc92,
    0xffeff47d, 0x85845dd1, 0x6fa87e4f, 0xfe2ce6e0, 0xa3014314, 0x4e0811a1,
    0xf7537e82, 0xbd3af235, 0x2ad7d2bb, 0xeb86d391]"

definition md5_shift :: "nat list" where
  "md5_shift = [
    7, 12, 17, 22, 7, 12, 17, 22, 7, 12, 17, 22, 7, 12, 17, 22, 5, 9, 14, 20,
    5, 9, 14, 20, 5, 9, 14, 20, 5, 9, 14, 20, 4, 11, 16, 23, 4, 11, 16, 23,
    4, 11, 16, 23, 4, 11, 16, 23, 6, 10, 15, 21, 6, 10, 15, 21, 6, 10, 15, 21,
    6, 10, 15, 21]"

record md5_state =
  md5_a :: u32
  md5_b :: u32
  md5_c :: u32
  md5_d :: u32
  md5_bytes :: u64

definition md5_init :: md5_state where
  "md5_init = \<lparr> md5_a = 0x67452301, md5_b = 0xefcdab89, md5_c = 0x98badcfe,
     md5_d = 0x10325476, md5_bytes = 0 \<rparr>"

definition md5_words :: "bytes \<Rightarrow> u32 list" where
  "md5_words block = map (\<lambda>i. let at = i * 4 in
     ucast (block ! at) OR push_bit 8 (ucast (block ! (at + 1))) OR
     push_bit 16 (ucast (block ! (at + 2))) OR push_bit 24 (ucast (block ! (at + 3)))) [0..<16]"

fun md5_rounds :: "u32 list \<Rightarrow> nat \<Rightarrow> nat \<Rightarrow> u32 \<times> u32 \<times> u32 \<times> u32
    \<Rightarrow> u32 \<times> u32 \<times> u32 \<times> u32" where
  "md5_rounds m i 0 (a, b, c, d) = (a, b, c, d)"
| "md5_rounds m i (Suc n) (a, b, c, d) =
     (let (f, g) =
        (if i < 16 then ((b AND c) OR (NOT b AND d), i)
         else if i < 32 then ((d AND b) OR (NOT d AND c), (5 * i + 1) mod 16)
         else if i < 48 then (b XOR c XOR d, (3 * i + 5) mod 16)
         else (c XOR (b OR NOT d), (7 * i) mod 16));
          temp = d;
          d = c;
          c = b;
          b = b + rotate_left (a + f + md5_k ! i + m ! g) (md5_shift ! i);
          a = temp
      in md5_rounds m (i + 1) n (a, b, c, d))"

definition md5_process_block :: "md5_state \<Rightarrow> bytes \<Rightarrow> md5_state" where
  "md5_process_block state block =
     (let m = md5_words block;
          (a, b, c, d) = md5_rounds m 0 64 (md5_a state, md5_b state, md5_c state, md5_d state)
      in state\<lparr> md5_a := md5_a state + a, md5_b := md5_b state + b,
                md5_c := md5_c state + c, md5_d := md5_d state + d \<rparr>)"

definition md5_consume :: "md5_state \<Rightarrow> bytes \<Rightarrow> md5_state" where
  "md5_consume state block =
     (let state = md5_process_block state block in state\<lparr> md5_bytes := md5_bytes state + 64 \<rparr>)"

definition md5_emit :: "u32 \<Rightarrow> bytes" where
  "md5_emit value = map (\<lambda>i. ucast (drop_bit (8 * i) value AND 0xFF)) [0..<4]"

definition md5_length_bytes :: "u64 \<Rightarrow> bytes" where
  "md5_length_bytes bit_length = map (\<lambda>i. ucast (drop_bit (8 * i) bit_length AND 0xFF)) [0..<8]"

text \<open>\<open>tail\<close> is the list of the first \<open>n\<close> bytes of the 128-byte array.\<close>

definition md5_digest :: "bytes \<Rightarrow> bytes" where
  "md5_digest message =
     (let (state, at) = block_loop md5_consume md5_init message;
          remaining = length at;
          bit_length = (md5_bytes state + word_of_nat remaining) * 8;
          tail = at @ [0x80];
          n = remaining + 1;
          (state, tail, n) =
            (if n > 56 then (md5_process_block state (tail @ replicate (64 - n) 0), [], 0)
             else (state, tail, n));
          tail = tail @ replicate (56 - n) 0;
          state = md5_process_block state (tail @ md5_length_bytes bit_length)
      in md5_emit (md5_a state) @ md5_emit (md5_b state) @
         md5_emit (md5_c state) @ md5_emit (md5_d state))"

section \<open>The digest is the compression of the padded message\<close>

definition md5_result :: "md5_state \<Rightarrow> bytes" where
  "md5_result state = md5_emit (md5_a state) @ md5_emit (md5_b state) @
     md5_emit (md5_c state) @ md5_emit (md5_d state)"

definition md5_spec :: "bytes \<Rightarrow> bytes" where
  "md5_spec message = md5_result (foldl md5_process_block md5_init
     (pad_blocks (\<lambda>n. md5_length_bytes (word_of_nat (n * 8))) message))"

lemma md5_process_block_bytes:
  "md5_process_block (s\<lparr> md5_bytes := n \<rparr>) blk = (md5_process_block s blk)\<lparr> md5_bytes := n \<rparr>"
  by (simp add: md5_process_block_def Let_def split: prod.split)

lemma md5_bytes_process [simp]: "md5_bytes (md5_process_block s blk) = md5_bytes s"
  by (simp add: md5_process_block_def Let_def split: prod.split)

lemma md5_consume_fold:
  "foldl md5_consume s bl =
     (foldl md5_process_block s bl)\<lparr> md5_bytes := md5_bytes s + word_of_nat (length bl * 64) \<rparr>"
proof (induction bl rule: rev_induct)
  case (snoc b bl)
  then show ?case
    by (simp add: md5_consume_def Let_def md5_process_block_bytes algebra_simps)
qed simp

lemma md5_result_bytes [simp]: "md5_result (s\<lparr> md5_bytes := n \<rparr>) = md5_result s"
  by (simp add: md5_result_def)

theorem md5_digest_spec: "md5_digest message = md5_spec message"
proof -
  define n where "n = length message div 64"
  define r where "r = drop (n * 64) message"
  define s where "s = foldl md5_process_block md5_init (blocks64 n message)"
  let ?len = "\<lambda>n. md5_length_bytes (word_of_nat (n * 8))"
  have "length message = n * 64 + length r"
    by (simp add: r_def n_def)
  then have total: "(word_of_nat (n * 64) + word_of_nat (length r)) * 8
      = (word_of_nat (length message * 8) :: u64)" by (simp add: algebra_simps)
  have loop: "block_loop md5_consume md5_init message
      = (s\<lparr> md5_bytes := word_of_nat (n * 64) \<rparr>, r)"
    unfolding block_loop_fold md5_consume_fold
    by (simp add: s_def r_def n_def md5_init_def)
  have len8: "length (?len (length message)) = 8" by (simp add: md5_length_bytes_def)
  note pads = pad_blocks_split [of ?len message, OF len8, folded n_def, folded r_def]
  show ?thesis
    unfolding md5_digest_def md5_spec_def loop pads md5_result_def [symmetric]
    using total
    by (simp add: Let_def md5_process_block_bytes flip: s_def md5_result_def)
qed

lemma length_md5_digest [simp]: "length (md5_digest message) = 16"
  unfolding md5_digest_spec by (simp add: md5_spec_def md5_result_def md5_emit_def)

end
