(* ===== verification/Digest_SHA1.thy ===== *)
theory Digest_SHA1
  imports Digest_Common
begin

unbundle bit_operations_syntax

text \<open>
  The SHA-1 digest of \<open>appwarrior/crypto/sha1.h\<close> and \<open>sha1.cpp\<close>, proved equal to
  the compression of the padded message of FIPS 180-1.
\<close>

record sha1_state =
  sha1_h0 :: u32
  sha1_h1 :: u32
  sha1_h2 :: u32
  sha1_h3 :: u32
  sha1_h4 :: u32
  sha1_bytes :: u64

definition sha1_init :: sha1_state where
  "sha1_init = \<lparr> sha1_h0 = 0x67452301, sha1_h1 = 0xEFCDAB89, sha1_h2 = 0x98BADCFE,
     sha1_h3 = 0x10325476, sha1_h4 = 0xC3D2E1F0, sha1_bytes = 0 \<rparr>"

definition sha1_words :: "bytes \<Rightarrow> u32 list" where
  "sha1_words block = map (\<lambda>i. let at = i * 4 in
     push_bit 24 (ucast (block ! at)) OR push_bit 16 (ucast (block ! (at + 1))) OR
     push_bit 8 (ucast (block ! (at + 2))) OR ucast (block ! (at + 3))) [0..<16]"

text \<open>\<open>for (i = 16; i < 80; ++i) w[i] = ...\<close>, with \<open>i\<close> the number of words so far.\<close>

fun sha1_extend :: "nat \<Rightarrow> u32 list \<Rightarrow> u32 list" where
  "sha1_extend 0 w = w"
| "sha1_extend (Suc n) w =
     (let i = length w in
      sha1_extend n (w @ [rotate_left
        (w ! (i - 3) XOR w ! (i - 8) XOR w ! (i - 14) XOR w ! (i - 16)) 1]))"

fun sha1_rounds :: "u32 list \<Rightarrow> nat \<Rightarrow> nat \<Rightarrow> u32 \<times> u32 \<times> u32 \<times> u32 \<times> u32
    \<Rightarrow> u32 \<times> u32 \<times> u32 \<times> u32 \<times> u32" where
  "sha1_rounds w i 0 (a, b, c, d, e) = (a, b, c, d, e)"
| "sha1_rounds w i (Suc n) (a, b, c, d, e) =
     (let (f, k) =
        (if i < 20 then ((b AND c) OR (NOT b AND d), 0x5A827999)
         else if i < 40 then (b XOR c XOR d, 0x6ED9EBA1)
         else if i < 60 then ((b AND c) OR (b AND d) OR (c AND d), 0x8F1BBCDC)
         else (b XOR c XOR d, 0xCA62C1D6));
          temp = rotate_left a 5 + f + e + k + w ! i;
          e = d;
          d = c;
          c = rotate_left b 30;
          b = a;
          a = temp
      in sha1_rounds w (i + 1) n (a, b, c, d, e))"

definition sha1_process_block :: "sha1_state \<Rightarrow> bytes \<Rightarrow> sha1_state" where
  "sha1_process_block state block =
     (let w = sha1_extend 64 (sha1_words block);
          (a, b, c, d, e) = sha1_rounds w 0 80
             (sha1_h0 state, sha1_h1 state, sha1_h2 state, sha1_h3 state, sha1_h4 state)
      in state\<lparr> sha1_h0 := sha1_h0 state + a, sha1_h1 := sha1_h1 state + b,
                sha1_h2 := sha1_h2 state + c, sha1_h3 := sha1_h3 state + d,
                sha1_h4 := sha1_h4 state + e \<rparr>)"

definition sha1_consume :: "sha1_state \<Rightarrow> bytes \<Rightarrow> sha1_state" where
  "sha1_consume state block =
     (let state = sha1_process_block state block in state\<lparr> sha1_bytes := sha1_bytes state + 64 \<rparr>)"

definition sha1_emit :: "u32 \<Rightarrow> bytes" where
  "sha1_emit value = map (\<lambda>i. ucast (drop_bit (8 * (3 - i)) value AND 0xFF)) [0..<4]"

definition sha1_length_bytes :: "u64 \<Rightarrow> bytes" where
  "sha1_length_bytes bit_length =
     map (\<lambda>i. ucast (drop_bit (8 * (7 - i)) bit_length AND 0xFF)) [0..<8]"

text \<open>\<open>tail\<close> is the list of the first \<open>n\<close> bytes of the 128-byte array.\<close>

definition sha1_digest :: "bytes \<Rightarrow> bytes" where
  "sha1_digest message =
     (let (state, at) = block_loop sha1_consume sha1_init message;
          remaining = length at;
          bit_length = (sha1_bytes state + word_of_nat remaining) * 8;
          tail = at @ [0x80];
          n = remaining + 1;
          (state, tail, n) =
            (if n > 56 then (sha1_process_block state (tail @ replicate (64 - n) 0), [], 0)
             else (state, tail, n));
          tail = tail @ replicate (56 - n) 0;
          state = sha1_process_block state (tail @ sha1_length_bytes bit_length)
      in sha1_emit (sha1_h0 state) @ sha1_emit (sha1_h1 state) @ sha1_emit (sha1_h2 state) @
         sha1_emit (sha1_h3 state) @ sha1_emit (sha1_h4 state))"

section \<open>The digest is the compression of the padded message\<close>

definition sha1_result :: "sha1_state \<Rightarrow> bytes" where
  "sha1_result state =
     sha1_emit (sha1_h0 state) @ sha1_emit (sha1_h1 state) @ sha1_emit (sha1_h2 state) @
     sha1_emit (sha1_h3 state) @ sha1_emit (sha1_h4 state)"

definition sha1_spec :: "bytes \<Rightarrow> bytes" where
  "sha1_spec message = sha1_result (foldl sha1_process_block sha1_init
     (pad_blocks (\<lambda>n. sha1_length_bytes (word_of_nat (n * 8))) message))"

lemma sha1_process_block_bytes:
  "sha1_process_block (s\<lparr> sha1_bytes := n \<rparr>) blk = (sha1_process_block s blk)\<lparr> sha1_bytes := n \<rparr>"
  by (simp add: sha1_process_block_def Let_def split: prod.split)

lemma sha1_bytes_process [simp]: "sha1_bytes (sha1_process_block s blk) = sha1_bytes s"
  by (simp add: sha1_process_block_def Let_def split: prod.split)

lemma sha1_consume_fold:
  "foldl sha1_consume s bl =
     (foldl sha1_process_block s bl)\<lparr> sha1_bytes := sha1_bytes s + word_of_nat (length bl * 64) \<rparr>"
proof (induction bl rule: rev_induct)
  case (snoc b bl)
  then show ?case
    by (simp add: sha1_consume_def Let_def sha1_process_block_bytes algebra_simps)
qed simp

lemma sha1_result_bytes [simp]: "sha1_result (s\<lparr> sha1_bytes := n \<rparr>) = sha1_result s"
  by (simp add: sha1_result_def)

theorem sha1_digest_spec: "sha1_digest message = sha1_spec message"
proof -
  define n where "n = length message div 64"
  define r where "r = drop (n * 64) message"
  define s where "s = foldl sha1_process_block sha1_init (blocks64 n message)"
  let ?len = "\<lambda>n. sha1_length_bytes (word_of_nat (n * 8))"
  have "length message = n * 64 + length r"
    by (simp add: r_def n_def)
  then have total: "(word_of_nat (n * 64) + word_of_nat (length r)) * 8
      = (word_of_nat (length message * 8) :: u64)" by (simp add: algebra_simps)
  have loop: "block_loop sha1_consume sha1_init message
      = (s\<lparr> sha1_bytes := word_of_nat (n * 64) \<rparr>, r)"
    unfolding block_loop_fold sha1_consume_fold
    by (simp add: s_def r_def n_def sha1_init_def)
  have len8: "length (?len (length message)) = 8" by (simp add: sha1_length_bytes_def)
  note pads = pad_blocks_split [of ?len message, OF len8, folded n_def, folded r_def]
  show ?thesis
    unfolding sha1_digest_def sha1_spec_def loop pads sha1_result_def [symmetric]
    using total
    by (simp add: Let_def sha1_process_block_bytes flip: s_def sha1_result_def)
qed

lemma length_sha1_digest [simp]: "length (sha1_digest message) = 20"
  unfolding sha1_digest_spec by (simp add: sha1_spec_def sha1_result_def sha1_emit_def)

end
