(* ===== verification/Hmac.thy ===== *)
theory Hmac
  imports Digest_MD5 Digest_SHA1
begin

unbundle bit_operations_syntax

text \<open>
  HMAC (RFC 2104), \<open>appwarrior/crypto/hmac.h\<close>.  The template parameter
  \<open>message_digest H\<close> is a record of the digest function and its two sizes; the C++ concept
  of the same name is the locale \<open>message_digest\<close>, interpreted on MD5 and SHA-1.
\<close>

record digest_alg =
  alg_digest :: "bytes \<Rightarrow> bytes"
  alg_block_size :: nat
  alg_digest_size :: nat

definition Md5 :: digest_alg where
  "Md5 = \<lparr> alg_digest = md5_digest, alg_block_size = 64, alg_digest_size = 16 \<rparr>"

definition Sha1 :: digest_alg where
  "Sha1 = \<lparr> alg_digest = sha1_digest, alg_block_size = 64, alg_digest_size = 20 \<rparr>"

text \<open>
  \<open>copy_into n src\<close> is \<open>std::ranges::copy(src, k.begin())\<close> into a zero-initialised
  array of \<open>n\<close> bytes; copying more than fits writes out of bounds.
\<close>

definition copy_into :: "nat \<Rightarrow> bytes \<Rightarrow> bytes option" where
  "copy_into n src = (if length src \<le> n then Some (src @ replicate (n - length src) 0) else None)"

definition hmac :: "digest_alg \<Rightarrow> bytes \<Rightarrow> bytes \<Rightarrow> bytes option" where
  "hmac H key message = do {
     k \<leftarrow> (if length key > alg_block_size H
           then copy_into (alg_block_size H) (alg_digest H key)
           else copy_into (alg_block_size H) key);
     let inner = map (\<lambda>b. b XOR 0x36) k;
     let outer = map (\<lambda>b. b XOR 0x5C) k;
     let first = alg_digest H (inner @ message);
     let second = alg_digest H (outer @ first);
     Some second }"

locale message_digest =
  fixes H :: digest_alg
  assumes digest_length: "length (alg_digest H m) = alg_digest_size H"
    and digest_nonempty: "0 < alg_digest_size H"
    and digest_fits: "alg_digest_size H \<le> alg_block_size H"
begin

lemma hmac_total: "\<exists>mac. hmac H key message = Some mac \<and> length mac = alg_digest_size H"
  by (simp add: hmac_def copy_into_def digest_length digest_fits Let_def)

lemma hmac_length: "hmac H key message = Some mac \<Longrightarrow> length mac = alg_digest_size H"
  using hmac_total [of key message] by auto

lemma hmac_nonempty: "hmac H key message = Some mac \<Longrightarrow> mac \<noteq> []"
  using hmac_length digest_nonempty by fastforce

text \<open>A key longer than a block and its digest give the same code, as RFC 2104 warns.\<close>

lemma hmac_long_key:
  "length key > alg_block_size H \<Longrightarrow> hmac H key message = hmac H (alg_digest H key) message"
  using digest_fits by (simp add: hmac_def digest_length)

lemma hmac_zero_padding:
  assumes "length key + n \<le> alg_block_size H"
  shows "hmac H (key @ replicate n 0) message = hmac H key message"
proof -
  have "alg_block_size H - length key = n + (alg_block_size H - (length key + n))"
    using assms by simp
  then show ?thesis using assms
    by (simp add: hmac_def copy_into_def replicate_add flip: replicate_add)
qed

end

interpretation md5: message_digest Md5
  by unfold_locales (simp_all add: Md5_def)

interpretation sha1: message_digest Sha1
  by unfold_locales (simp_all add: Sha1_def)

end
