(* ===== verification/Login_Keys.thy ===== *)
theory Login_Keys
  imports Hmac
begin

unbundle bit_operations_syntax

text \<open>
  The login-field scrambling (\<open>hotline/protocol/auth.h\<close>) and the login key schedule
  (\<open>hotline/protocol/key_schedule.h\<close>).  HMAC copies a long key's digest into a block-sized
  buffer, so it is partial over arbitrary digests and total over the two the program has.
\<close>

definition scramble :: "bytes \<Rightarrow> bytes" where
  "scramble bs = map (\<lambda>b. NOT b) bs"

record login_keys =
  lk_first :: bytes
  lk_second :: bytes

definition derive_login_keys :: "digest_alg \<Rightarrow> bytes \<Rightarrow> bytes \<Rightarrow> login_keys option" where
  "derive_login_keys H password session_key = do {
     first0 \<leftarrow> hmac H password session_key;
     first \<leftarrow> hmac H password first0;
     second \<leftarrow> hmac H password first;
     Some \<lparr> lk_first = first, lk_second = second \<rparr> }"

text \<open>\<open>while (rounds-- > 0)\<close> runs its body \<open>rounds\<close> times.\<close>

fun permute_key :: "digest_alg \<Rightarrow> bytes \<Rightarrow> bytes \<Rightarrow> nat \<Rightarrow> bytes option" where
  "permute_key H key session_key 0 = Some key"
| "permute_key H key session_key (Suc rounds) = do {
     key' \<leftarrow> hmac H session_key key;
     permute_key H key' session_key rounds }"

lemma scramble_simps [simp]: "scramble (scramble bs) = bs" "length (scramble bs) = length bs"
  by (simp_all add: scramble_def comp_def)

context message_digest
begin

lemma derive_login_keys_total:
  "\<exists>k. derive_login_keys H password session_key = Some k \<and>
     length (lk_first k) = alg_digest_size H \<and> length (lk_second k) = alg_digest_size H"
proof -
  obtain f0 where 0: "hmac H password session_key = Some f0" using hmac_total by blast
  obtain f where 1: "hmac H password f0 = Some f" "length f = alg_digest_size H"
    using hmac_total by blast
  obtain s where 2: "hmac H password f = Some s" "length s = alg_digest_size H"
    using hmac_total by blast
  show ?thesis by (simp add: derive_login_keys_def 0 1 2)
qed

lemma derive_login_keys_nonempty:
  "derive_login_keys H password session_key = Some k \<Longrightarrow> lk_first k \<noteq> [] \<and> lk_second k \<noteq> []"
  using derive_login_keys_total [of password session_key] digest_nonempty by fastforce

lemma permute_key_total:
  "key \<noteq> [] \<Longrightarrow> \<exists>key'. permute_key H key session_key n = Some key' \<and> key' \<noteq> []"
proof (induction n arbitrary: key)
  case (Suc n)
  obtain mac where "hmac H session_key key = Some mac" using hmac_total by blast
  moreover from this have "mac \<noteq> []" by (rule hmac_nonempty)
  ultimately show ?case using Suc.IH by simp
qed simp

lemma permute_key_length:
  "permute_key H key session_key (Suc n) = Some key' \<Longrightarrow> length key' = alg_digest_size H"
proof (induction n arbitrary: key)
  case 0
  then show ?case by (auto simp: bind_eq_Some_conv dest: hmac_length)
next
  case (Suc n)
  then show ?case by (auto simp: bind_eq_Some_conv)
qed

end

lemma permute_key_add:
  "permute_key H key session_key (m + n) =
     Option.bind (permute_key H key session_key m) (\<lambda>k. permute_key H k session_key n)"
  by (induction m arbitrary: key) simp_all

end
