(* ===== verification/Session.thy ===== *)
theory Session
  imports Connection Payloads Login_Keys
begin

unbundle bit_operations_syntax

text \<open>
  The login session of the server (\<open>hotline/net/session.h\<close>, \<open>session.cpp\<close>).  The user
  database is the callback \<open>lookup_user\<close> of the configuration.  A run of a session is an
  inductive relation with the history of the transactions processed and the replies given.
\<close>

section \<open>The state machine\<close>

datatype SessionState = fresh | awaiting_agreement | active | session_closed

datatype LoginError = unknown_user | wrong_password | malformed_login

record user_record =
  ur_name :: string
  ur_password :: bytes
  ur_access :: access_mask

record session_config =
  sg_server_name :: string
  sg_server_version :: u16
  sg_community_banner_id :: u32
  sg_lookup_user :: "(string \<Rightarrow> LoginError + user_record) option"
  sg_incorrect_login_message :: string

record outgoing_reply =
  or_id :: u32
  or_error :: u32
  or_fields :: field_list

record session =
  ss_config :: session_config
  ss_state :: SessionState
  ss_login :: string
  ss_access :: access_mask

definition session_new :: "session_config \<Rightarrow> session" where
  "session_new config = \<lparr> ss_config = config, ss_state = fresh, ss_login = '''',
     ss_access = mask_new \<rparr>"

definition normalize_char :: "char \<Rightarrow> char" where
  "normalize_char character =
     (let n = (of_char character :: nat) in
      if 65 \<le> n \<and> n \<le> 90 then char_of (n - 65 + 97)
      else if n = 13 then CHR ''-''
      else character)"

definition normalize_login :: "string \<Rightarrow> string" where
  "normalize_login login = map normalize_char login"

definition failed_login :: "received_transaction \<Rightarrow> string \<Rightarrow> session \<Rightarrow> session \<times> outgoing_reply option" where
  "failed_login r text s =
     (s\<lparr> ss_state := session_closed \<rparr>,
      Some \<lparr> or_id = th_id (rt_header r), or_error = 1,
        or_fields = [make_string_field (field_id_value F_ErrorText) text] \<rparr>)"

definition session_login :: "received_transaction \<Rightarrow> session \<Rightarrow> (session \<times> outgoing_reply option) option" where
  "session_login r s = do {
     decoded \<leftarrow> decode_field_list (rt_data r);
     case decoded of
       Inl _ \<Rightarrow> Some (failed_login r ''Bad login.'' s)
     | Inr listed \<Rightarrow>
         (case (find_field listed (field_id_value F_UserLogin),
                find_field listed (field_id_value F_UserPassword)) of
            (Some login_field, Some password_field) \<Rightarrow>
              if field_bytes login_field = [] then Some (failed_login r ''Bad login.'' s)
              else
                (let normalized = normalize_login (map char_of_byte (scramble (field_bytes login_field)));
                     user = (case sg_lookup_user (ss_config s) of
                               Some lookup_user \<Rightarrow> lookup_user normalized
                             | None \<Rightarrow> Inl unknown_user)
                 in case user of
                      Inl _ \<Rightarrow> Some (failed_login r (sg_incorrect_login_message (ss_config s)) s)
                    | Inr u \<Rightarrow>
                        if length (field_bytes password_field) \<noteq> length (ur_password u)
                          \<or> field_bytes password_field \<noteq> ur_password u
                        then Some (failed_login r (sg_incorrect_login_message (ss_config s)) s)
                        else Some
                          (s\<lparr> ss_login := normalized, ss_access := ur_access u,
                             ss_state := awaiting_agreement \<rparr>,
                           Some \<lparr> or_id = th_id (rt_header r), or_error = 0,
                             or_fields =
                               [make_integer_field (field_id_value F_Vers) (ucast (sg_server_version (ss_config s))),
                                make_integer_field (field_id_value F_CommunityBannerId) (sg_community_banner_id (ss_config s)),
                                make_string_field (field_id_value F_ServerName) (sg_server_name (ss_config s))] \<rparr>))
          | _ \<Rightarrow> Some (failed_login r ''Bad login.'' s)) }"

definition session_process :: "received_transaction \<Rightarrow> session \<Rightarrow> (session \<times> outgoing_reply option) option" where
  "session_process r s =
     (if th_is_reply (rt_header r) \<noteq> 0 \<or> ss_state s = session_closed then Some (s, None)
      else if th_type (rt_header r) = transaction_type_value TT_Login then session_login r s
      else if th_type (rt_header r) = transaction_type_value TT_Agreed then
        Some (if ss_state s = awaiting_agreement then s\<lparr> ss_state := active \<rparr> else s, None)
      else Some (s, None))"

definition session_close :: "session \<Rightarrow> session" where
  "session_close s = s\<lparr> ss_state := session_closed \<rparr>"

section \<open>What a verified login is\<close>

definition verified :: "session_config \<Rightarrow> received_transaction \<Rightarrow> string \<Rightarrow> user_record \<Rightarrow> bool" where
  "verified config r login user \<longleftrightarrow>
     (\<exists>listed lf pf lookup. decode_field_list (rt_data r) = Some (Inr listed)
        \<and> find_field listed (field_id_value F_UserLogin) = Some lf \<and> field_bytes lf \<noteq> []
        \<and> find_field listed (field_id_value F_UserPassword) = Some pf
        \<and> login = normalize_login (map char_of_byte (scramble (field_bytes lf)))
        \<and> sg_lookup_user config = Some lookup \<and> lookup login = Inr user
        \<and> field_bytes pf = ur_password user)"

lemma verified_unique:
  assumes "verified config r l u" and "verified config r l' u'"
  shows "l' = l \<and> u' = u"
proof -
  have a: "l = normalize_login (map char_of_byte (scramble (field_bytes lf))) \<and>
      (\<exists>lookup. sg_lookup_user config = Some lookup \<and> lookup l = Inr u)"
    if "verified config r l u" "decode_field_list (rt_data r) = Some (Inr fs)"
      "find_field fs (field_id_value F_UserLogin) = Some lf" for l u fs lf
    using that unfolding verified_def by force
  obtain fs lf where "decode_field_list (rt_data r) = Some (Inr fs)"
    "find_field fs (field_id_value F_UserLogin) = Some lf"
    using assms(1) unfolding verified_def by blast
  from a [OF assms(1) this] a [OF assms(2) this] show ?thesis by auto
qed

lemma session_login_verified:
  assumes "verified (ss_config s) r login user"
  shows "session_login r s = Some
    (s\<lparr> ss_login := login, ss_access := ur_access user, ss_state := awaiting_agreement \<rparr>,
     Some \<lparr> or_id = th_id (rt_header r), or_error = 0,
       or_fields =
         [make_integer_field (field_id_value F_Vers) (ucast (sg_server_version (ss_config s))),
          make_integer_field (field_id_value F_CommunityBannerId) (sg_community_banner_id (ss_config s)),
          make_string_field (field_id_value F_ServerName) (sg_server_name (ss_config s))] \<rparr>)"
  using assms by (auto simp: verified_def session_login_def)

lemma session_login_refused:
  assumes "\<And>login user. \<not> verified (ss_config s) r login user"
  shows "\<exists>text. session_login r s = Some (failed_login r text s)"
proof -
  obtain decoded where d: "decode_field_list (rt_data r) = Some decoded"
    using decode_field_list_safe [of "rt_data r"] by auto
  show ?thesis
  proof (cases decoded)
    case (Inr listed)
    show ?thesis
    proof (cases "find_field listed (field_id_value F_UserLogin)")
      case (Some lf)
      note lf = this
      show ?thesis
      proof (cases "find_field listed (field_id_value F_UserPassword)")
        case (Some pf)
        show ?thesis
          using assms [of "normalize_login (map char_of_byte (scramble (field_bytes lf)))"] lf Some d Inr
          by (auto simp: session_login_def verified_def Let_def split: option.split sum.split)
      qed (use lf d Inr in \<open>auto simp: session_login_def\<close>)
    qed (use d Inr in \<open>auto simp: session_login_def\<close>)
  qed (use d in \<open>auto simp: session_login_def\<close>)
qed

lemma session_process_total: "\<exists>s' out. session_process r s = Some (s', out)"
  using session_login_verified [of s r] session_login_refused [of s r]
  by (cases "\<exists>login user. verified (ss_config s) r login user") (auto simp: session_process_def failed_login_def)

section \<open>Runs\<close>

type_synonym session_history = "(received_transaction \<times> outgoing_reply option) list"

inductive session_run :: "session_config \<Rightarrow> session_history \<Rightarrow> session \<Rightarrow> bool" for config where
  start: "session_run config [] (session_new config)"
| process: "session_run config hist s \<Longrightarrow> session_process r s = Some (s', out)
    \<Longrightarrow> session_run config (hist @ [(r, out)]) s'"
| close: "session_run config hist s \<Longrightarrow> session_run config hist (session_close s)"

inductive_cases session_runE: "session_run config hist s"

text \<open>The login the session holds was verified, and an active session saw the agreement after it.\<close>

definition logged_in :: "session_config \<Rightarrow> session_history \<Rightarrow> session \<Rightarrow> bool" where
  "logged_in config hist s \<longleftrightarrow> (\<exists>h1 r out h2 user. hist = h1 @ (r, out) # h2
     \<and> th_type (rt_header r) = transaction_type_value TT_Login \<and> th_is_reply (rt_header r) = 0
     \<and> verified config r (ss_login s) user \<and> ss_access s = ur_access user
     \<and> (ss_state s = active \<longrightarrow> (\<exists>(a, o') \<in> set h2.
          th_type (rt_header a) = transaction_type_value TT_Agreed \<and> th_is_reply (rt_header a) = 0)))"

lemma logged_in_extend: "logged_in config hist s \<Longrightarrow> logged_in config (hist @ [x]) s"
  unfolding logged_in_def by (elim exE) (rule exI, rule exI, rule exI, rule_tac x = "h2 @ [x]" in exI, auto)

lemma logged_in_now:
  "th_type (rt_header r) = transaction_type_value TT_Login \<Longrightarrow> th_is_reply (rt_header r) = 0 \<Longrightarrow>
   verified config r (ss_login s) user \<Longrightarrow> ss_access s = ur_access user \<Longrightarrow> ss_state s \<noteq> active \<Longrightarrow>
   logged_in config (hist @ [(r, out)]) s"
  unfolding logged_in_def by (intro exI [of _ hist] exI [of _ r] exI [of _ out] exI [of _ "[]"] exI [of _ user]) simp

lemma logged_in_agree:
  assumes "logged_in config hist s" and "th_type (rt_header a) = transaction_type_value TT_Agreed"
    and "th_is_reply (rt_header a) = 0"
  shows "logged_in config (hist @ [(a, out)]) (s\<lparr> ss_state := active \<rparr>)"
proof -
  obtain h1 r o' h2 user where h: "hist = h1 @ (r, o') # h2"
    "th_type (rt_header r) = transaction_type_value TT_Login" "th_is_reply (rt_header r) = 0"
    "verified config r (ss_login s) user" "ss_access s = ur_access user"
    using assms(1) unfolding logged_in_def by blast
  show ?thesis
    unfolding logged_in_def
    by (intro exI [of _ h1] exI [of _ r] exI [of _ o'] exI [of _ "h2 @ [(a, out)]"] exI [of _ user])
      (use h assms(2,3) in simp)
qed

lemma session_process_cases:
  assumes "session_process r s = Some (s', out)"
  obtains (ignored) "s' = s" "out = None"
  | (login) login user where "th_type (rt_header r) = transaction_type_value TT_Login"
      "th_is_reply (rt_header r) = 0" "ss_state s \<noteq> session_closed" "verified (ss_config s) r login user"
      "s' = s\<lparr> ss_login := login, ss_access := ur_access user, ss_state := awaiting_agreement \<rparr>"
  | (refused) msg where "th_type (rt_header r) = transaction_type_value TT_Login"
      "th_is_reply (rt_header r) = 0" "(s', out) = failed_login r msg s"
  | (agreed) "th_type (rt_header r) = transaction_type_value TT_Agreed" "th_is_reply (rt_header r) = 0"
      "ss_state s = awaiting_agreement" "s' = s\<lparr> ss_state := active \<rparr>" "out = None"
proof (cases "th_is_reply (rt_header r) \<noteq> 0 \<or> ss_state s = session_closed")
  case True
  then show ?thesis using assms ignored by (simp add: session_process_def)
next
  case False
  show ?thesis
  proof (cases "th_type (rt_header r) = transaction_type_value TT_Login")
    case True
    then have l: "session_login r s = Some (s', out)" using assms False by (simp add: session_process_def)
    show ?thesis
    proof (cases "\<exists>login user. verified (ss_config s) r login user")
      case v: True
      then obtain a u where "verified (ss_config s) r a u" by blast
      with login [of a u] l True False session_login_verified [of s r a u] show ?thesis by simp
    next
      case v: False
      then obtain msg where "session_login r s = Some (failed_login r msg s)"
        using session_login_refused [of s r] by blast
      with l True False refused [of msg] show ?thesis by simp
    qed
  next
    case other: False
    show ?thesis
    proof (cases "th_type (rt_header r) = transaction_type_value TT_Agreed \<and> ss_state s = awaiting_agreement")
      case True
      show ?thesis by (rule agreed) (use assms False other True in \<open>simp_all add: session_process_def\<close>)
    next
      case neither: False
      show ?thesis
        by (rule ignored)
          (use assms False other neither in \<open>simp_all add: session_process_def split: if_splits\<close>)
    qed
  qed
qed

lemma session_run_invariant:
  "session_run config hist s \<Longrightarrow> ss_config s = config \<and>
     (ss_state s = awaiting_agreement \<or> ss_state s = active \<longrightarrow> logged_in config hist s)"
proof (induction rule: session_run.induct)
  case start
  show ?case by (simp add: session_new_def)
next
  case (process hist s r s' out)
  note IH = process.IH
  show ?case
    using process.hyps(2)
  proof (cases rule: session_process_cases)
    case ignored
    then show ?thesis using IH by (simp add: logged_in_extend)
  next
    case (login a u)
    then show ?thesis using IH by (simp add: logged_in_now)
  next
    case (refused msg)
    then show ?thesis using IH by (simp add: failed_login_def)
  next
    case agreed
    then show ?thesis using IH by (simp add: logged_in_agree)
  qed
qed (simp add: session_close_def)

end
