(* ===== verification/Blowfish.thy ===== *)
theory Blowfish
  imports Blowfish_Tables Endian
begin

unbundle bit_operations_syntax

text \<open>
  The Blowfish block cipher and its OFB-64 stream mode,
  \<open>appwarrior/crypto/blowfish.h\<close> and \<open>blowfish.cpp\<close>.  A \<open>Schedule\<close> is a
  record of the P array and the four S-boxes; the fixed sizes of the C++ arrays are the
  invariant \<open>schedule_ok\<close>, which the key expansion establishes, so that every index the
  code forms is in range.  The lemmas give the two facts the protocol relies on: decryption
  undoes encryption, and the stream is its own inverse and does not depend on how the data is
  split into calls.
\<close>

section \<open>Schedules and rounds\<close>

record schedule =
  sch_p :: "u32 list"
  sch_s :: "u32 list list"

definition schedule_ok :: "schedule \<Rightarrow> bool" where
  "schedule_ok k \<longleftrightarrow> length (sch_p k) = 18 \<and> length (sch_s k) = 4
     \<and> (\<forall>box \<in> set (sch_s k). length box = 256)"

text \<open>A default-constructed schedule is all zeros.\<close>

definition schedule_zero :: schedule where
  "schedule_zero = \<lparr> sch_p = replicate 18 0, sch_s = replicate 4 (replicate 256 0) \<rparr>"

definition round_function :: "u32 \<Rightarrow> schedule \<Rightarrow> u32" where
  "round_function x key =
     (let a = drop_bit 24 x AND 0xFF;
          b = drop_bit 16 x AND 0xFF;
          c = drop_bit 8 x AND 0xFF;
          d = x AND 0xFF;
          y = sch_s key ! 0 ! unat a + sch_s key ! 1 ! unat b;
          y = y XOR (sch_s key ! 2 ! unat c)
      in y + sch_s key ! 3 ! unat d)"

fun encrypt_rounds :: "schedule \<Rightarrow> nat \<Rightarrow> nat \<Rightarrow> u32 \<times> u32 \<Rightarrow> u32 \<times> u32" where
  "encrypt_rounds key i 0 (l, r) = (l, r)"
| "encrypt_rounds key i (Suc n) (l, r) =
     (let l = l XOR sch_p key ! i;
          r = round_function l key XOR r
      in encrypt_rounds key (i + 1) n (r, l))"

definition encrypt_words :: "u32 \<Rightarrow> u32 \<Rightarrow> schedule \<Rightarrow> u32 \<times> u32" where
  "encrypt_words l r key =
     (let (l, r) = encrypt_rounds key 0 16 (l, r);
          (l, r) = (r, l);
          r = r XOR sch_p key ! 16;
          l = l XOR sch_p key ! 17
      in (l, r))"

text \<open>\<open>for (i = 17; i > 1; --i)\<close>: sixteen rounds downwards.\<close>

fun decrypt_rounds :: "schedule \<Rightarrow> nat \<Rightarrow> nat \<Rightarrow> u32 \<times> u32 \<Rightarrow> u32 \<times> u32" where
  "decrypt_rounds key i 0 (l, r) = (l, r)"
| "decrypt_rounds key i (Suc n) (l, r) =
     (let l = l XOR sch_p key ! i;
          r = round_function l key XOR r
      in decrypt_rounds key (i - 1) n (r, l))"

definition decrypt_words :: "u32 \<Rightarrow> u32 \<Rightarrow> schedule \<Rightarrow> u32 \<times> u32" where
  "decrypt_words l r key =
     (let (l, r) = decrypt_rounds key 17 16 (l, r);
          (l, r) = (r, l);
          r = r XOR sch_p key ! 1;
          l = l XOR sch_p key ! 0
      in (l, r))"

section \<open>Key expansion\<close>

text \<open>
  The inner loop gathers four key bytes, wrapping at the end of the key; reading the first
  byte of an empty key is undefined, hence the option.
\<close>

fun key_word :: "bytes \<Rightarrow> nat \<Rightarrow> nat \<Rightarrow> u32 \<Rightarrow> (u32 \<times> nat) option" where
  "key_word key 0 k word = Some (word, k)"
| "key_word key (Suc j) k word = do {
     b \<leftarrow> span_at k key;
     key_word key j ((k + 1) mod length key) (push_bit 8 word OR ucast b) }"

fun xor_key :: "bytes \<Rightarrow> nat \<Rightarrow> u32 list \<Rightarrow> u32 list option" where
  "xor_key key k [] = Some []"
| "xor_key key k (p # ps) = do {
     (word, k') \<leftarrow> key_word key 4 k 0;
     qs \<leftarrow> xor_key key k' ps;
     Some ((p XOR word) # qs) }"

text \<open>\<open>for (i = 0; i < 18; i += 2)\<close>, \<open>n\<close> turns left.\<close>

fun fill_p :: "nat \<Rightarrow> nat \<Rightarrow> schedule \<Rightarrow> u32 \<Rightarrow> u32 \<Rightarrow> schedule \<times> u32 \<times> u32" where
  "fill_p i 0 out l r = (out, l, r)"
| "fill_p i (Suc n) out l r =
     (let (nl, nr) = encrypt_words l r out;
          out = out\<lparr> sch_p := (sch_p out)[i := nl, i + 1 := nr] \<rparr>
      in fill_p (i + 2) n out nl nr)"

fun fill_box :: "nat \<Rightarrow> nat \<Rightarrow> nat \<Rightarrow> schedule \<Rightarrow> u32 \<Rightarrow> u32 \<Rightarrow> schedule \<times> u32 \<times> u32" where
  "fill_box box j 0 out l r = (out, l, r)"
| "fill_box box j (Suc n) out l r =
     (let (nl, nr) = encrypt_words l r out;
          out = out\<lparr> sch_s := (sch_s out)[box := (sch_s out ! box)[j := nl, j + 1 := nr]] \<rparr>
      in fill_box box (j + 2) n out nl nr)"

fun fill_boxes :: "nat \<Rightarrow> nat \<Rightarrow> schedule \<Rightarrow> u32 \<Rightarrow> u32 \<Rightarrow> schedule \<times> u32 \<times> u32" where
  "fill_boxes box 0 out l r = (out, l, r)"
| "fill_boxes box (Suc n) out l r =
     (let (out, l, r) = fill_box box 0 128 out l r in fill_boxes (box + 1) n out l r)"

definition expand_key :: "bytes \<Rightarrow> schedule option" where
  "expand_key key = do {
     p \<leftarrow> xor_key key 0 blowfish_p_pi;
     let out = \<lparr> sch_p = p, sch_s = [blowfish_sbox0, blowfish_sbox1, blowfish_sbox2, blowfish_sbox3] \<rparr>;
     let (out, l, r) = fill_p 0 9 out 0 0;
     let (out, l, r) = fill_boxes 0 4 out l r;
     Some out }"

section \<open>Blocks, instances and streams\<close>

definition encrypt_block_with :: "schedule \<Rightarrow> bytes \<Rightarrow> bytes" where
  "encrypt_block_with key block =
     (let l = read_u32be (take 4 block);
          r = read_u32be (take 4 (drop 4 block));
          (nl, nr) = encrypt_words l r key
      in write_u32be nl @ write_u32be nr)"

record blowfish =
  bf_encode_key :: schedule
  bf_decode_key :: schedule

definition blowfish_new :: blowfish where
  "blowfish_new = \<lparr> bf_encode_key = schedule_zero, bf_decode_key = schedule_zero \<rparr>"

definition set_encode_key :: "bytes \<Rightarrow> blowfish \<Rightarrow> blowfish option" where
  "set_encode_key key c = do { k \<leftarrow> expand_key key; Some (c\<lparr> bf_encode_key := k \<rparr>) }"

definition set_decode_key :: "bytes \<Rightarrow> blowfish \<Rightarrow> blowfish option" where
  "set_decode_key key c = do { k \<leftarrow> expand_key key; Some (c\<lparr> bf_decode_key := k \<rparr>) }"

definition encrypt_block :: "blowfish \<Rightarrow> bytes \<Rightarrow> bytes" where
  "encrypt_block c block = encrypt_block_with (bf_encode_key c) block"

definition decrypt_block :: "blowfish \<Rightarrow> bytes \<Rightarrow> bytes" where
  "decrypt_block c block =
     (let l = read_u32be (take 4 block);
          r = read_u32be (take 4 (drop 4 block));
          (nl, nr) = decrypt_words l r (bf_decode_key c)
      in write_u32be nl @ write_u32be nr)"

record ofb64 =
  ofb_iv :: bytes
  ofb_offset :: nat

definition ofb_reset :: "ofb64 \<Rightarrow> ofb64" where
  "ofb_reset s = s\<lparr> ofb_iv := replicate 8 0, ofb_offset := 0 \<rparr>"

definition ofb_new :: ofb64 where
  "ofb_new = \<lparr> ofb_iv = replicate 8 0, ofb_offset = 0 \<rparr>"

fun ofb_process :: "schedule \<Rightarrow> ofb64 \<Rightarrow> bytes \<Rightarrow> ofb64 \<times> bytes" where
  "ofb_process key s [] = (s, [])"
| "ofb_process key s (byte # rest) =
     (let iv = (if ofb_offset s = 0 then encrypt_block_with key (ofb_iv s) else ofb_iv s);
          byte' = byte XOR iv ! ofb_offset s;
          (s', rest') = ofb_process key
            (s\<lparr> ofb_iv := iv, ofb_offset := (ofb_offset s + 1) AND 0x7 \<rparr>) rest
      in (s', byte' # rest'))"

definition encode_stream :: "blowfish \<Rightarrow> ofb64 \<Rightarrow> bytes \<Rightarrow> ofb64 \<times> bytes" where
  "encode_stream c stream buffer = ofb_process (bf_encode_key c) stream buffer"

definition decode_stream :: "blowfish \<Rightarrow> ofb64 \<Rightarrow> bytes \<Rightarrow> ofb64 \<times> bytes" where
  "decode_stream c stream buffer = ofb_process (bf_decode_key c) stream buffer"

section \<open>Decryption undoes encryption\<close>

text \<open>
  After \<open>k\<close> rounds of encryption the halves are \<open>(l, r)\<close>; decryption passes through the
  state \<open>(r XOR p (k + 1), l XOR p k)\<close> on its way back.
\<close>

definition feistel_step :: "schedule \<Rightarrow> nat \<Rightarrow> u32 \<times> u32 \<Rightarrow> u32 \<times> u32" where
  "feistel_step key i lr =
     (let l = fst lr XOR sch_p key ! i in (round_function l key XOR snd lr, l))"

lemma encrypt_rounds_step:
  "encrypt_rounds key i (Suc n) lr = encrypt_rounds key (i + 1) n (feistel_step key i lr)"
  "decrypt_rounds key i (Suc n) lr = decrypt_rounds key (i - 1) n (feistel_step key i lr)"
  by (cases lr; simp add: feistel_step_def Let_def)+

lemma encrypt_rounds_last:
  "encrypt_rounds key i (Suc n) lr = feistel_step key (i + n) (encrypt_rounds key i n lr)"
proof (induction n arbitrary: i lr)
  case 0
  show ?case by (cases "feistel_step key i lr"; cases lr) (simp add: encrypt_rounds_step)
next
  case (Suc n)
  show ?case
    unfolding encrypt_rounds_step(1) [of key i "Suc n"] Suc.IH [of "i + 1"]
    by (simp add: encrypt_rounds_step)
qed

definition return_state :: "schedule \<Rightarrow> nat \<Rightarrow> u32 \<times> u32 \<Rightarrow> u32 \<times> u32" where
  "return_state key k lr = (snd lr XOR sch_p key ! (k + 1), fst lr XOR sch_p key ! k)"

lemma xor_cancel [simp]: "((x :: 'n::len word) XOR y) XOR y = x" "y XOR (y XOR x) = x"
  by (simp_all add: xor.assoc flip: xor.assoc [of y y x])

lemma feistel_step_back:
  "feistel_step key (k + 2) (return_state key (k + 1) (feistel_step key k lr)) = return_state key k lr"
  by (simp add: feistel_step_def return_state_def Let_def xor.assoc)

lemma decrypt_rounds_back:
  "decrypt_rounds key (k + 1) k (return_state key k (encrypt_rounds key 0 k lr)) = return_state key 0 lr"
proof (induction k)
  case 0
  show ?case by (cases lr) (simp add: return_state_def)
next
  case (Suc k)
  show ?case
    using Suc.IH feistel_step_back [of key k]
    by (simp add: encrypt_rounds_step(2) encrypt_rounds_last)
qed

lemma encrypt_words_alt:
  "encrypt_words l r key =
     (let lr = encrypt_rounds key 0 16 (l, r) in
      (snd lr XOR sch_p key ! 17, fst lr XOR sch_p key ! 16))"
  by (simp add: encrypt_words_def Let_def split: prod.split)

lemma decrypt_encrypt_words:
  "encrypt_words l r key = (nl, nr) \<Longrightarrow> decrypt_words nl nr key = (l, r)"
proof -
  assume "encrypt_words l r key = (nl, nr)"
  then have "(nl, nr) = return_state key 16 (encrypt_rounds key 0 16 (l, r))"
    by (simp add: encrypt_words_alt return_state_def Let_def)
  then have "decrypt_rounds key 17 16 (nl, nr) = return_state key 0 (l, r)"
    using decrypt_rounds_back [of key 16 "(l, r)"] by simp
  then show ?thesis by (simp add: decrypt_words_def return_state_def)
qed

lemma decrypt_encrypt_block:
  assumes "length block = 8" "bf_decode_key d = bf_encode_key c"
  shows "decrypt_block d (encrypt_block c block) = block"
proof -
  have d4: "take 4 (drop 4 block) = drop 4 block" using assms(1) by simp
  obtain nl nr where e:
    "encrypt_words (read_u32be (take 4 block)) (read_u32be (drop 4 block)) (bf_encode_key c)
       = (nl, nr)" by force
  have "decrypt_block d (encrypt_block c block) = take 4 block @ take 4 (drop 4 block)"
    using decrypt_encrypt_words [OF e] assms
    by (simp add: encrypt_block_def encrypt_block_with_def decrypt_block_def d4 e Let_def)
  also have "\<dots> = block" using assms(1) by (simp flip: take_add)
  finally show ?thesis .
qed

section \<open>Schedules stay well-formed\<close>

lemma schedule_ok_updates:
  assumes "schedule_ok k"
  shows "schedule_ok (k\<lparr> sch_p := (sch_p k)[i := x, j := y] \<rparr>)"
    and "schedule_ok (k\<lparr> sch_s := (sch_s k)[b := (sch_s k ! b)[i := x, j := y]] \<rparr>)"
proof -
  show "schedule_ok (k\<lparr> sch_p := (sch_p k)[i := x, j := y] \<rparr>)"
    using assms by (simp add: schedule_ok_def)
  show "schedule_ok (k\<lparr> sch_s := (sch_s k)[b := (sch_s k ! b)[i := x, j := y]] \<rparr>)"
  proof (cases "b < 4")
    case True
    then show ?thesis
      using assms set_update_subset_insert [of "sch_s k" b "(sch_s k ! b)[i := x, j := y]"]
      by (auto simp: schedule_ok_def)
  next
    case False
    then show ?thesis using assms by (simp add: schedule_ok_def list_update_beyond)
  qed
qed

lemma schedule_ok_fill:
  "schedule_ok k \<Longrightarrow> schedule_ok (fst (fill_p i n k l r))"
  "schedule_ok k \<Longrightarrow> schedule_ok (fst (fill_box b i n k l r))"
  "schedule_ok k \<Longrightarrow> schedule_ok (fst (fill_boxes b n k l r))"
proof -
  show "schedule_ok k \<Longrightarrow> schedule_ok (fst (fill_p i n k l r))"
    by (induction i n k l r rule: fill_p.induct)
      (auto simp: Let_def schedule_ok_updates split: prod.split)
  have box: "schedule_ok k \<Longrightarrow> schedule_ok (fst (fill_box b i n k l r))" for b i n k l r
    by (induction b i n k l r rule: fill_box.induct)
      (auto simp: Let_def schedule_ok_updates split: prod.split)
  then show "schedule_ok k \<Longrightarrow> schedule_ok (fst (fill_box b i n k l r))" .
  show "schedule_ok k \<Longrightarrow> schedule_ok (fst (fill_boxes b n k l r))"
  proof (induction n arbitrary: b k l r)
    case (Suc n)
    obtain k' l' r' where e: "fill_box b 0 128 k l r = (k', l', r')" by (metis prod_cases3)
    then have "schedule_ok k'" using box [OF Suc.prems, of b 0 128 l r] by simp
    with Suc.IH show ?case by (simp add: e)
  qed simp
qed

lemma key_word_total:
  "key \<noteq> [] \<Longrightarrow> k < length key \<Longrightarrow> \<exists>w k'. key_word key j k word = Some (w, k') \<and> k' < length key"
  by (induction key j k word rule: key_word.induct) (auto simp: span_at_in)

lemma xor_key_total:
  "key \<noteq> [] \<Longrightarrow> k < length key \<Longrightarrow> \<exists>qs. xor_key key k ps = Some qs \<and> length qs = length ps"
proof (induction ps arbitrary: k)
  case (Cons p ps)
  from key_word_total [OF Cons.prems, of 4 0] obtain w k' where
    "key_word key 4 k 0 = Some (w, k')" "k' < length key" by blast
  with Cons.IH [OF Cons.prems(1) this(2)] show ?case by auto
qed simp

lemma expand_key_total:
  assumes "key \<noteq> []"
  shows "\<exists>k. expand_key key = Some k \<and> schedule_ok k"
proof -
  obtain p where p: "xor_key key 0 blowfish_p_pi = Some p" "length p = 18"
    using xor_key_total [OF assms, of 0 blowfish_p_pi] assms by auto
  let ?s = "\<lparr> sch_p = p, sch_s = [blowfish_sbox0, blowfish_sbox1, blowfish_sbox2, blowfish_sbox3] \<rparr>"
  have ok: "schedule_ok ?s"
    using p by (simp add: schedule_ok_def)
  obtain k1 l1 r1 where 1: "fill_p 0 9 ?s 0 0 = (k1, l1, r1)" by (metis prod_cases3)
  obtain k2 l2 r2 where 2: "fill_boxes 0 4 k1 l1 r1 = (k2, l2, r2)" by (metis prod_cases3)
  have "schedule_ok k1" using schedule_ok_fill(1) [OF ok, of 0 9 0 0] 1 by simp
  then have "schedule_ok k2" using schedule_ok_fill(3) [of k1 0 4 l1 r1] 2 by simp
  then show ?thesis using p 1 2 by (simp add: expand_key_def)
qed

lemma expand_key_empty: "expand_key [] = None"
proof -
  have "key_word [] (Suc 3) 0 0 = None"
    unfolding key_word.simps by (simp add: span_at_def)
  then have "key_word [] 4 0 0 = None" by simp
  then have "xor_key [] 0 (p # ps) = None" for p ps by simp
  moreover obtain p ps where tbl: "blowfish_p_pi = p # ps"
    using length_blowfish_tables(1) by (cases blowfish_p_pi) auto
  ultimately have "xor_key [] 0 blowfish_p_pi = None" unfolding tbl by blast
  then show ?thesis by (simp add: expand_key_def)
qed

section \<open>The stream\<close>

text \<open>One byte: the key byte and the next state do not depend on the data.\<close>

definition ofb_fresh_iv :: "schedule \<Rightarrow> ofb64 \<Rightarrow> bytes" where
  "ofb_fresh_iv key s = (if ofb_offset s = 0 then encrypt_block_with key (ofb_iv s) else ofb_iv s)"

definition ofb_next :: "schedule \<Rightarrow> ofb64 \<Rightarrow> ofb64" where
  "ofb_next key s = s\<lparr> ofb_iv := ofb_fresh_iv key s, ofb_offset := (ofb_offset s + 1) AND 7 \<rparr>"

lemma ofb_process_Cons [simp]:
  "ofb_process key s (b # rest) =
     (fst (ofb_process key (ofb_next key s) rest),
      (b XOR ofb_fresh_iv key s ! ofb_offset s) # snd (ofb_process key (ofb_next key s) rest))"
  by (simp add: ofb_next_def ofb_fresh_iv_def Let_def split: prod.split)

declare ofb_process.simps(2) [simp del]

lemma ofb_process_append:
  "ofb_process key s (xs @ ys) =
     (fst (ofb_process key (fst (ofb_process key s xs)) ys),
      snd (ofb_process key s xs) @ snd (ofb_process key (fst (ofb_process key s xs)) ys))"
  by (induction xs arbitrary: s) simp_all

lemma ofb_process_length [simp]: "length (snd (ofb_process key s xs)) = length xs"
  by (induction xs arbitrary: s) simp_all

lemma ofb_process_involution:
  "ofb_process key s (snd (ofb_process key s xs)) = (fst (ofb_process key s xs), xs)"
  by (induction xs arbitrary: s) (simp_all add: xor.assoc)

lemma ofb_state_data_free:
  "length xs = length ys \<Longrightarrow> fst (ofb_process key s xs) = fst (ofb_process key s ys)"
  by (induction xs ys arbitrary: s rule: list_induct2) simp_all

text \<open>The stream state keeps its shape: eight feedback bytes and an offset below eight.\<close>

definition ofb_ok :: "ofb64 \<Rightarrow> bool" where
  "ofb_ok s \<longleftrightarrow> length (ofb_iv s) = 8 \<and> ofb_offset s < 8"

lemma length_encrypt_block_with [simp]: "length (encrypt_block_with key block) = 8"
  by (simp add: encrypt_block_with_def Let_def split: prod.split)

lemma and_7_less: "n AND 7 < (8 :: nat)"
proof -
  have "n AND 7 = n mod 8"
    using take_bit_eq_mask [of 3 n] by (simp add: mask_eq_exp_minus_1 take_bit_eq_mod)
  then show ?thesis by simp
qed

lemma ofb_ok_next: "ofb_ok s \<Longrightarrow> ofb_ok (ofb_next key s)"
  by (simp add: ofb_ok_def ofb_next_def ofb_fresh_iv_def and_7_less)

lemma ofb_ok_process: "ofb_ok s \<Longrightarrow> ofb_ok (fst (ofb_process key s xs))"
  by (induction xs arbitrary: s) (simp_all add: ofb_ok_next)

lemma ofb_ok_new: "ofb_ok ofb_new"
  by (simp add: ofb_ok_def ofb_new_def)

end
