(* ===== verification/Transaction_Cipher.thy ===== *)
theory Transaction_Cipher
  imports Login_Keys Blowfish Transaction_Codec
begin

unbundle bit_operations_syntax

text \<open>
  The encrypted-transaction stream cipher (\<open>hotline/protocol/transaction_cipher.h\<close>).  The
  class is a record, its member functions are state passing functions that return the new state
  and the bytes the in-place update leaves in the spans, and \<^const>\<open>None\<close> is undefined
  behaviour (an empty Blowfish key).  \<open>in_step a b\<close> is the contract between two ends: what
  \<open>a\<close> encodes, \<open>b\<close> decodes, and they stay in step.
\<close>

record transaction_cipher =
  tc_session_key :: bytes
  tc_encode_key :: bytes
  tc_decode_key :: bytes
  tc_cipher :: blowfish
  tc_encode_stream :: ofb64
  tc_decode_stream :: ofb64

definition transaction_cipher_new ::
    "digest_alg \<Rightarrow> bytes \<Rightarrow> bytes \<Rightarrow> bool \<Rightarrow> transaction_cipher option" where
  "transaction_cipher_new H password session_key is_client = do {
     keys \<leftarrow> derive_login_keys H password session_key;
     let encode_key = (if is_client then lk_second keys else lk_first keys);
     let decode_key = (if is_client then lk_first keys else lk_second keys);
     c1 \<leftarrow> set_encode_key encode_key blowfish_new;
     c2 \<leftarrow> set_decode_key decode_key c1;
     Some \<lparr> tc_session_key = session_key, tc_encode_key = encode_key,
       tc_decode_key = decode_key, tc_cipher = c2,
       tc_encode_stream = ofb_new, tc_decode_stream = ofb_new \<rparr> }"

text \<open>One \<open>encode_stream\<close> call on the object's encode stream, and one on its decode stream.\<close>

definition tc_stream_out :: "bytes \<Rightarrow> transaction_cipher \<Rightarrow> transaction_cipher \<times> bytes" where
  "tc_stream_out buffer t =
     (let (s, out) = encode_stream (tc_cipher t) (tc_encode_stream t) buffer
      in (t\<lparr> tc_encode_stream := s \<rparr>, out))"

definition tc_stream_in :: "bytes \<Rightarrow> transaction_cipher \<Rightarrow> transaction_cipher \<times> bytes" where
  "tc_stream_in buffer t =
     (let (s, out) = decode_stream (tc_cipher t) (tc_decode_stream t) buffer
      in (t\<lparr> tc_decode_stream := s \<rparr>, out))"

definition tc_encode :: "digest_alg \<Rightarrow> bytes \<Rightarrow> bytes \<Rightarrow> u8 \<Rightarrow> transaction_cipher
    \<Rightarrow> (transaction_cipher \<times> bytes \<times> bytes) option" where
  "tc_encode H header data flag t =
     (let (t1, header') = tc_stream_out header t in
      if data = [] then Some (t1, header', data)
      else if flag \<noteq> 0 then
        (let prefix = min 2 (length data);
             (t2, data1) = tc_stream_out (take prefix data) t1
         in do {
           key \<leftarrow> permute_key H (tc_encode_key t2) (tc_session_key t2) (unat flag);
           c \<leftarrow> set_encode_key key (tc_cipher t2);
           let (t3, data2) = tc_stream_out (drop prefix data)
             (t2\<lparr> tc_encode_key := key, tc_cipher := c \<rparr>);
           Some (t3, header', data1 @ data2) })
      else (let (t2, data') = tc_stream_out data t1 in Some (t2, header', data')))"

definition tc_decode_header :: "bytes \<Rightarrow> transaction_cipher \<Rightarrow> transaction_cipher \<times> bytes \<times> u8" where
  "tc_decode_header header t =
     (let (t1, header') = tc_stream_in header t in (t1, header', header' ! 0))"

definition tc_decode_data :: "digest_alg \<Rightarrow> bytes \<Rightarrow> u8 \<Rightarrow> transaction_cipher
    \<Rightarrow> (transaction_cipher \<times> bytes) option" where
  "tc_decode_data H data flag t =
     (if data = [] then Some (t, data)
      else if flag \<noteq> 0 then
        (let prefix = min 2 (length data);
             (t1, data1) = tc_stream_in (take prefix data) t
         in do {
           key \<leftarrow> permute_key H (tc_decode_key t1) (tc_session_key t1) (unat flag);
           c \<leftarrow> set_decode_key key (tc_cipher t1);
           let (t2, data2) = tc_stream_in (drop prefix data)
             (t1\<lparr> tc_decode_key := key, tc_cipher := c \<rparr>);
           Some (t2, data1 @ data2) })
      else (let (t1, data') = tc_stream_in data t in Some (t1, data')))"

definition tc_decode :: "digest_alg \<Rightarrow> bytes \<Rightarrow> bytes \<Rightarrow> transaction_cipher
    \<Rightarrow> (transaction_cipher \<times> bytes \<times> bytes \<times> u8) option" where
  "tc_decode H header data t =
     (let (t1, header', flag) = tc_decode_header header t in do {
        (t2, data') \<leftarrow> tc_decode_data H data flag t1;
        Some (t2, header', data', flag) })"

definition legacy_flag_quirk :: "u32 \<Rightarrow> u32 \<Rightarrow> u32 \<Rightarrow> u8" where
  "legacy_flag_quirk r0 r1 r2 =
     (let flag = (ucast (drop_bit 4 r0) :: u8) in
      if flag = 2 \<or> flag = 7 \<or> flag = 13 then
        (let flag = (ucast (drop_bit 2 r1) :: u8) in
         if flag = 0 then ucast (drop_bit 3 r2 + 1) else flag)
      else 0)"

section \<open>The invariant of one end\<close>

definition tc_ok :: "transaction_cipher \<Rightarrow> bool" where
  "tc_ok t \<longleftrightarrow> tc_encode_key t \<noteq> [] \<and> tc_decode_key t \<noteq> []
     \<and> expand_key (tc_encode_key t) = Some (bf_encode_key (tc_cipher t))
     \<and> expand_key (tc_decode_key t) = Some (bf_decode_key (tc_cipher t))
     \<and> ofb_ok (tc_encode_stream t) \<and> ofb_ok (tc_decode_stream t)"

lemma tc_stream_out_alt:
  "tc_stream_out buffer t =
     (t\<lparr> tc_encode_stream := fst (ofb_process (bf_encode_key (tc_cipher t)) (tc_encode_stream t) buffer) \<rparr>,
      snd (ofb_process (bf_encode_key (tc_cipher t)) (tc_encode_stream t) buffer))"
  by (simp add: tc_stream_out_def encode_stream_def split: prod.split)

lemma tc_stream_in_alt:
  "tc_stream_in buffer t =
     (t\<lparr> tc_decode_stream := fst (ofb_process (bf_decode_key (tc_cipher t)) (tc_decode_stream t) buffer) \<rparr>,
      snd (ofb_process (bf_decode_key (tc_cipher t)) (tc_decode_stream t) buffer))"
  by (simp add: tc_stream_in_def decode_stream_def split: prod.split)

lemmas tc_stream_alts = tc_stream_out_alt tc_stream_in_alt

lemma set_key_eq:
  "key \<noteq> [] \<Longrightarrow> \<exists>k. expand_key key = Some k \<and> set_encode_key key c = Some (c\<lparr> bf_encode_key := k \<rparr>)
     \<and> set_decode_key key c = Some (c\<lparr> bf_decode_key := k \<rparr>)"
  using expand_key_total [of key] by (auto simp: set_encode_key_def set_decode_key_def)

section \<open>Two ends in step\<close>

definition in_step :: "transaction_cipher \<Rightarrow> transaction_cipher \<Rightarrow> bool" where
  "in_step a b \<longleftrightarrow> tc_ok a \<and> tc_ok b \<and> tc_session_key a = tc_session_key b
     \<and> tc_encode_key a = tc_decode_key b \<and> tc_encode_stream a = tc_decode_stream b"

lemma in_step_schedules: "in_step a b \<Longrightarrow> bf_decode_key (tc_cipher b) = bf_encode_key (tc_cipher a)"
  by (auto simp: in_step_def tc_ok_def)

lemma tc_stream_in_step:
  assumes "in_step a b" "tc_stream_out xs a = (a', ys)"
  shows "\<exists>b'. tc_stream_in ys b = (b', xs) \<and> in_step a' b'"
    and "length ys = length xs"
  using assms in_step_schedules [OF assms(1)]
  by (auto simp: tc_stream_alts ofb_process_involution in_step_def tc_ok_def ofb_ok_process)

context message_digest
begin

lemma permute_in_step:
  assumes "in_step a b"
  shows "\<exists>key ca cb. permute_key H (tc_encode_key a) (tc_session_key a) n = Some key
    \<and> permute_key H (tc_decode_key b) (tc_session_key b) n = Some key
    \<and> set_encode_key key (tc_cipher a) = Some ca \<and> set_decode_key key (tc_cipher b) = Some cb
    \<and> in_step (a\<lparr> tc_encode_key := key, tc_cipher := ca \<rparr>)
        (b\<lparr> tc_decode_key := key, tc_cipher := cb \<rparr>)"
proof -
  have "tc_encode_key a \<noteq> []" using assms by (simp add: in_step_def tc_ok_def)
  from permute_key_total [OF this] obtain key where
    key: "permute_key H (tc_encode_key a) (tc_session_key a) n = Some key" "key \<noteq> []" by blast
  from key(2) obtain k where "expand_key key = Some k" using expand_key_total by blast
  with key assms show ?thesis
    by (simp add: in_step_def tc_ok_def set_encode_key_def set_decode_key_def)
qed

lemma tc_data_in_step:
  assumes "in_step a b"
  shows "\<exists>a' b' wire. tc_encode H [] data flag a = Some (a', [], wire)
    \<and> tc_decode_data H wire flag b = Some (b', data) \<and> in_step a' b' \<and> length wire = length data"
proof -
  have nil: "tc_stream_out [] a = (a, [])" by (simp add: tc_stream_out_alt)
  obtain a1 w1 where o1: "tc_stream_out (take (min 2 (length data)) data) a = (a1, w1)" by force
  from tc_stream_in_step [OF assms o1] obtain b1 where
    i1: "tc_stream_in w1 b = (b1, take (min 2 (length data)) data)" "in_step a1 b1"
    and l1: "length w1 = min 2 (length data)" by auto
  from permute_in_step [OF i1(2), of "unat flag"] obtain key ca cb where
    k: "permute_key H (tc_encode_key a1) (tc_session_key a1) (unat flag) = Some key"
       "permute_key H (tc_decode_key b1) (tc_session_key b1) (unat flag) = Some key"
       "set_encode_key key (tc_cipher a1) = Some ca" "set_decode_key key (tc_cipher b1) = Some cb"
    and k': "in_step (a1\<lparr> tc_encode_key := key, tc_cipher := ca \<rparr>)
        (b1\<lparr> tc_decode_key := key, tc_cipher := cb \<rparr>)" by blast
  obtain a2 w2 where o2: "tc_stream_out (drop (min 2 (length data)) data)
      (a1\<lparr> tc_encode_key := key, tc_cipher := ca \<rparr>) = (a2, w2)" by force
  from tc_stream_in_step [OF k' o2] obtain b2 where
    i2: "tc_stream_in w2 (b1\<lparr> tc_decode_key := key, tc_cipher := cb \<rparr>)
        = (b2, drop (min 2 (length data)) data)" "in_step a2 b2"
    and l2: "length w2 = length data - min 2 (length data)" by auto
  obtain a3 w3 where o3: "tc_stream_out data a = (a3, w3)" by force
  from tc_stream_in_step [OF assms o3] obtain b3 where
    i3: "tc_stream_in w3 b = (b3, data)" "in_step a3 b3" and l3: "length w3 = length data" by auto
  consider "data = []" | "data \<noteq> []" "flag = 0" | "data \<noteq> []" "flag \<noteq> 0" by blast
  then show ?thesis
  proof cases
    case 1
    then show ?thesis using assms by (simp add: tc_encode_def tc_decode_data_def nil)
  next
    case 2
    then have "w3 \<noteq> []" using l3 by auto
    with 2 show ?thesis using i3 l3 by (simp add: tc_encode_def tc_decode_data_def nil o3)
  next
    case 3
    have len: "length (w1 @ w2) = length data" using l1 l2 by simp
    have w: "take (min 2 (length data)) (w1 @ w2) = w1" "drop (min 2 (length data)) (w1 @ w2) = w2"
      using l1 by simp_all
    have "w1 @ w2 \<noteq> []" using len 3(1) by (metis length_0_conv)
    with 3 len have d: "tc_decode_data H (w1 @ w2) flag b = Some (b2, data)"
      unfolding tc_decode_data_def Let_def by (simp only: len w) (simp add: i1(1) k i2(1))
    have "tc_encode H [] data flag a = Some (a2, [], w1 @ w2)"
      using 3 unfolding tc_encode_def by (simp add: nil o1 k o2)
    with d i2(2) len show ?thesis by blast
  qed
qed

lemma tc_encode_split:
  "tc_encode H header data flag t =
     (let (t1, header') = tc_stream_out header t in
      map_option (\<lambda>(t', _, data'). (t', header', data')) (tc_encode H [] data flag t1))"
  by (auto simp: tc_encode_def tc_stream_out_alt Let_def option.map_comp comp_def
      split: prod.split option.split Option.bind_splits)

lemma tc_message_in_step:
  assumes "in_step a b"
  shows "\<exists>a' b' wh wd. tc_encode H header data (header ! 0) a = Some (a', wh, wd)
    \<and> tc_decode H wh wd b = Some (b', header, data, header ! 0) \<and> in_step a' b'
    \<and> length wh = length header \<and> length wd = length data"
proof -
  obtain a1 wh where o: "tc_stream_out header a = (a1, wh)" by force
  from tc_stream_in_step [OF assms o] obtain b1 where
    i: "tc_stream_in wh b = (b1, header)" "in_step a1 b1" and l: "length wh = length header" by auto
  from tc_data_in_step [OF i(2), of data "header ! 0"] obtain a' b' wd where
    d: "tc_encode H [] data (header ! 0) a1 = Some (a', [], wd)"
       "tc_decode_data H wd (header ! 0) b1 = Some (b', data)" "in_step a' b'"
       "length wd = length data" by blast
  have "tc_encode H header data (header ! 0) a = Some (a', wh, wd)"
    by (subst tc_encode_split) (simp add: o d(1))
  moreover have "tc_decode H wh wd b = Some (b', header, data, header ! 0)"
    by (simp add: tc_decode_def tc_decode_header_def i(1) d(2))
  ultimately show ?thesis using d l by blast
qed

text \<open>A fresh client and a fresh server made from one password and session key are in step in
  both directions.\<close>

lemma tc_new_in_step:
  "\<exists>c s. transaction_cipher_new H password session_key True = Some c
    \<and> transaction_cipher_new H password session_key False = Some s \<and> in_step c s \<and> in_step s c"
proof -
  obtain keys where k: "derive_login_keys H password session_key = Some keys"
    using derive_login_keys_total by blast
  from derive_login_keys_nonempty [OF k] have ne: "lk_first keys \<noteq> []" "lk_second keys \<noteq> []" by auto
  obtain f where f: "expand_key (lk_first keys) = Some f" using expand_key_total [OF ne(1)] by blast
  obtain s where s: "expand_key (lk_second keys) = Some s" using expand_key_total [OF ne(2)] by blast
  show ?thesis
    using ne by (simp add: transaction_cipher_new_def k set_encode_key_def set_decode_key_def f s
        in_step_def tc_ok_def ofb_ok_new)
qed

end

text \<open>The two directions of one end are independent.\<close>

lemma tc_stream_out_keeps: "tc_stream_out xs a = (a', ys) \<Longrightarrow> in_step b a \<Longrightarrow> in_step b a'"
  by (auto simp: tc_stream_out_alt in_step_def tc_ok_def ofb_ok_process)

lemma tc_stream_in_keeps: "tc_stream_in xs a = (a', ys) \<Longrightarrow> in_step a b \<Longrightarrow> in_step a' b"
  by (auto simp: tc_stream_in_alt in_step_def tc_ok_def ofb_ok_process)

end
