(* ===== verification/Secure_Channel.thy ===== *)
theory Secure_Channel
  imports Transaction_Cipher "HOL-Library.Sublist"
begin

text \<open>
  Two ends of an encrypted connection (\<open>TransactionCipher\<close>, one made with
  \<open>is_client = true\<close> and one with \<open>false\<close>) exchanging messages in both directions over
  two ordered byte pipes, as a step relation.  The abstract specification is a pair of queues:
  every message received is the next one sent, whatever the interleaving of the two directions
  and whatever key permutations the flags ask for.
\<close>

section \<open>The two lanes of one end\<close>

type_synonym lane = "bytes \<times> bytes \<times> schedule \<times> ofb64"

definition enc_lane :: "transaction_cipher \<Rightarrow> lane" where
  "enc_lane t = (tc_session_key t, tc_encode_key t, bf_encode_key (tc_cipher t), tc_encode_stream t)"

definition dec_lane :: "transaction_cipher \<Rightarrow> lane" where
  "dec_lane t = (tc_session_key t, tc_decode_key t, bf_decode_key (tc_cipher t), tc_decode_stream t)"

definition lane_ok :: "lane \<Rightarrow> bool" where
  "lane_ok = (\<lambda>(session, key, sched, stream).
     key \<noteq> [] \<and> expand_key key = Some sched \<and> ofb_ok stream)"

lemma tc_ok_lanes: "tc_ok t \<longleftrightarrow> lane_ok (enc_lane t) \<and> lane_ok (dec_lane t)"
  by (auto simp: tc_ok_def lane_ok_def enc_lane_def dec_lane_def)

lemma in_step_lanes: "in_step a b \<longleftrightarrow> tc_ok a \<and> tc_ok b \<and> enc_lane a = dec_lane b"
  using in_step_schedules [of a b] by (auto simp: in_step_def enc_lane_def dec_lane_def)

lemma stream_out_lanes:
  "tc_stream_out xs t = (t', ys) \<Longrightarrow> dec_lane t' = dec_lane t"
  by (auto simp: tc_stream_out_alt dec_lane_def)

lemma tc_encode_dec_lane:
  "tc_encode H header data flag t = Some (t', wh, wd) \<Longrightarrow> dec_lane t' = dec_lane t"
  by (auto simp: tc_encode_def tc_stream_out_alt Let_def dec_lane_def set_encode_key_def
      split: if_splits Option.bind_splits)

lemma stream_in_lanes:
  "tc_stream_in xs t = (t', ys) \<Longrightarrow> dec_lane t = dec_lane u
     \<Longrightarrow> \<exists>u'. tc_stream_in xs u = (u', ys) \<and> dec_lane u' = dec_lane t' \<and> enc_lane u' = enc_lane u"
  by (auto simp: tc_stream_in_alt dec_lane_def enc_lane_def)

lemma set_decode_key_lanes:
  "set_decode_key key (tc_cipher t) = Some c \<Longrightarrow> dec_lane t = dec_lane u
     \<Longrightarrow> \<exists>c'. set_decode_key key (tc_cipher u) = Some c'
       \<and> dec_lane (u\<lparr> tc_decode_key := key, tc_cipher := c' \<rparr>)
         = dec_lane (t\<lparr> tc_decode_key := key, tc_cipher := c \<rparr>)
       \<and> enc_lane (u\<lparr> tc_decode_key := key, tc_cipher := c' \<rparr>) = enc_lane u"
  by (auto simp: set_decode_key_def dec_lane_def enc_lane_def bind_eq_Some_conv)

lemma tc_decode_data_lanes:
  assumes dec: "tc_decode_data H wd flag t = Some (t', data)" and lane: "dec_lane t = dec_lane u"
  shows "\<exists>u'. tc_decode_data H wd flag u = Some (u', data)
    \<and> dec_lane u' = dec_lane t' \<and> enc_lane u' = enc_lane u"
proof (cases "wd = [] \<or> flag = 0")
  case True
  then show ?thesis
    using dec lane stream_in_lanes [OF _ lane, of wd]
    by (auto simp: tc_decode_data_def Let_def split: if_splits prod.splits)
next
  case False
  let ?p = "min 2 (length wd)"
  obtain t1 d1 where 1: "tc_stream_in (take ?p wd) t = (t1, d1)" by force
  from stream_in_lanes [OF 1 lane] obtain u1 where
    u1: "tc_stream_in (take ?p wd) u = (u1, d1)" "dec_lane u1 = dec_lane t1" "enc_lane u1 = enc_lane u"
    by blast
  have same: "tc_decode_key u1 = tc_decode_key t1" "tc_session_key u1 = tc_session_key t1"
    using u1(2) by (simp_all add: dec_lane_def)
  from dec False obtain key c where
    k: "permute_key H (tc_decode_key t1) (tc_session_key t1) (unat flag) = Some key"
    and c: "set_decode_key key (tc_cipher t1) = Some c"
    by (auto simp: tc_decode_data_def Let_def 1 bind_eq_Some_conv)
  from set_decode_key_lanes [OF c u1(2) [symmetric]] obtain c' where
    c': "set_decode_key key (tc_cipher u1) = Some c'"
    and l': "dec_lane (t1\<lparr> tc_decode_key := key, tc_cipher := c \<rparr>)
        = dec_lane (u1\<lparr> tc_decode_key := key, tc_cipher := c' \<rparr>)"
      "enc_lane (u1\<lparr> tc_decode_key := key, tc_cipher := c' \<rparr>) = enc_lane u1" by auto
  obtain t2 d2 where 2: "tc_stream_in (drop ?p wd) (t1\<lparr> tc_decode_key := key, tc_cipher := c \<rparr>)
      = (t2, d2)" by force
  from stream_in_lanes [OF 2 l'(1)] obtain u2 where
    u2: "tc_stream_in (drop ?p wd) (u1\<lparr> tc_decode_key := key, tc_cipher := c' \<rparr>) = (u2, d2)"
      "dec_lane u2 = dec_lane t2" "enc_lane u2 = enc_lane u" using l'(2) u1(3) by auto
  have "t' = t2" "data = d1 @ d2" using dec False by (simp_all add: tc_decode_data_def 1 k c 2)
  then show ?thesis using False u2 by (simp add: tc_decode_data_def u1(1) same k c')
qed

lemma tc_decode_lanes:
  assumes "tc_decode H wh wd t = Some (t', header, data, flag)" and "dec_lane t = dec_lane u"
  shows "\<exists>u'. tc_decode H wh wd u = Some (u', header, data, flag)
    \<and> dec_lane u' = dec_lane t' \<and> enc_lane u' = enc_lane u"
proof -
  obtain t1 where 1: "tc_stream_in wh t = (t1, header)" and flag: "flag = header ! 0"
    and d: "tc_decode_data H wd flag t1 = Some (t', data)"
    using assms(1) by (auto simp: tc_decode_def tc_decode_header_def bind_eq_Some_conv split: prod.splits)
  from stream_in_lanes [OF 1 assms(2)] obtain u1 where
    u1: "tc_stream_in wh u = (u1, header)" "dec_lane t1 = dec_lane u1" "enc_lane u1 = enc_lane u" by auto
  from tc_decode_data_lanes [OF d u1(2)] u1(3) obtain u2 where
    "tc_decode_data H wd flag u1 = Some (u2, data)" "dec_lane u2 = dec_lane t'" "enc_lane u2 = enc_lane u"
    by auto
  then show ?thesis by (simp add: tc_decode_def tc_decode_header_def u1(1) flag)
qed

section \<open>The channel\<close>

type_synonym message = "bytes \<times> bytes"

record channel =
  sc_client :: transaction_cipher
  sc_server :: transaction_cipher
  sc_up :: "message list"
  sc_down :: "message list"
  sc_up_sent :: "message list"
  sc_up_got :: "message list"
  sc_down_sent :: "message list"
  sc_down_got :: "message list"

inductive channel_start :: "digest_alg \<Rightarrow> bytes \<Rightarrow> bytes \<Rightarrow> channel \<Rightarrow> bool"
  for H password session_key where
  "transaction_cipher_new H password session_key True = Some c \<Longrightarrow>
   transaction_cipher_new H password session_key False = Some s \<Longrightarrow>
   channel_start H password session_key \<lparr> sc_client = c, sc_server = s, sc_up = [], sc_down = [],
     sc_up_sent = [], sc_up_got = [], sc_down_sent = [], sc_down_got = [] \<rparr>"

text \<open>
  A sender passes the flag it put into the header, as the two callers of \<open>encode\<close> in
  \<open>hotline/net\<close> do.
\<close>

inductive channel_step :: "digest_alg \<Rightarrow> channel \<Rightarrow> channel \<Rightarrow> bool" for H where
  client_send:
    "tc_encode H header data (header ! 0) (sc_client s) = Some (c, wh, wd) \<Longrightarrow>
     channel_step H s (s\<lparr> sc_client := c, sc_up := sc_up s @ [(wh, wd)],
       sc_up_sent := sc_up_sent s @ [(header, data)] \<rparr>)"
| server_recv:
    "sc_up s = (wh, wd) # rest \<Longrightarrow>
     tc_decode H wh wd (sc_server s) = Some (v, header, data, flag) \<Longrightarrow>
     channel_step H s (s\<lparr> sc_server := v, sc_up := rest,
       sc_up_got := sc_up_got s @ [(header, data)] \<rparr>)"
| server_send:
    "tc_encode H header data (header ! 0) (sc_server s) = Some (v, wh, wd) \<Longrightarrow>
     channel_step H s (s\<lparr> sc_server := v, sc_down := sc_down s @ [(wh, wd)],
       sc_down_sent := sc_down_sent s @ [(header, data)] \<rparr>)"
| client_recv:
    "sc_down s = (wh, wd) # rest \<Longrightarrow>
     tc_decode H wh wd (sc_client s) = Some (c, header, data, flag) \<Longrightarrow>
     channel_step H s (s\<lparr> sc_client := c, sc_down := rest,
       sc_down_got := sc_down_got s @ [(header, data)] \<rparr>)"

inductive channel_reach :: "digest_alg \<Rightarrow> bytes \<Rightarrow> bytes \<Rightarrow> channel \<Rightarrow> bool"
  for H password session_key where
  start: "channel_start H password session_key s \<Longrightarrow> channel_reach H password session_key s"
| step: "channel_reach H password session_key s \<Longrightarrow> channel_step H s s'
    \<Longrightarrow> channel_reach H password session_key s'"

inductive_cases channel_startE: "channel_start H password session_key s"
inductive_cases channel_stepE: "channel_step H s s'"

section \<open>What is in flight decodes to what was sent\<close>

fun carries :: "digest_alg \<Rightarrow> lane \<Rightarrow> transaction_cipher \<Rightarrow> message list \<Rightarrow> message list \<Rightarrow> bool" where
  "carries H l b [] [] = (lane_ok l \<and> l = dec_lane b)"
| "carries H l b ((wh, wd) # ws) (m # ms) =
     (\<exists>b'. tc_decode H wh wd b = Some (b', fst m, snd m, fst m ! 0) \<and> carries H l b' ws ms)"
| "carries H l b ws ms = False"

lemma carries_lane_cong:
  "carries H l b ws ms \<Longrightarrow> dec_lane b = dec_lane u \<Longrightarrow> carries H l u ws ms"
proof (induction H l b ws ms arbitrary: u rule: carries.induct)
  case (2 H l b wh wd ws m ms)
  then obtain b' where d: "tc_decode H wh wd b = Some (b', fst m, snd m, fst m ! 0)"
    and c: "carries H l b' ws ms" by auto
  from tc_decode_lanes [OF d "2.prems"(2)] obtain u' where
    "tc_decode H wh wd u = Some (u', fst m, snd m, fst m ! 0)" "dec_lane b' = dec_lane u'" by auto
  with "2.IH" c show ?case by auto
qed simp_all

context message_digest
begin

lemma lane_send:
  assumes "lane_ok (enc_lane a)" "enc_lane a = dec_lane b"
    and enc: "tc_encode H header data (header ! 0) a = Some (a', wh, wd)"
    and ok: "tc_ok a"
  shows "tc_ok a' \<and> (\<exists>b'. tc_decode H wh wd b = Some (b', header, data, header ! 0)
    \<and> lane_ok (enc_lane a') \<and> enc_lane a' = dec_lane b')"
proof -
  let ?b = "b\<lparr> tc_encode_key := tc_encode_key a, tc_encode_stream := tc_encode_stream a,
    tc_cipher := (tc_cipher b)\<lparr> bf_encode_key := bf_encode_key (tc_cipher a) \<rparr> \<rparr>"
  have l: "dec_lane ?b = dec_lane b" by (simp add: dec_lane_def)
  have "enc_lane ?b = enc_lane a" using assms(2) by (simp add: enc_lane_def dec_lane_def)
  then have "in_step a ?b" using assms(1,2) ok l by (simp add: in_step_lanes tc_ok_lanes)
  from tc_message_in_step [OF this, of header data] enc obtain b' where
    d: "tc_decode H wh wd ?b = Some (b', header, data, header ! 0)" and s: "in_step a' b'" by auto
  from tc_decode_lanes [OF d l] obtain b'' where
    "tc_decode H wh wd b = Some (b'', header, data, header ! 0)" "dec_lane b'' = dec_lane b'" by auto
  with s show ?thesis by (auto simp: in_step_lanes tc_ok_lanes)
qed

lemma carries_send:
  assumes "carries H (enc_lane a) b ws ms" "tc_ok a"
    and enc: "tc_encode H header data (header ! 0) a = Some (a', wh, wd)"
  shows "carries H (enc_lane a') b (ws @ [(wh, wd)]) (ms @ [(header, data)])"
  using assms(1)
proof (induction ws arbitrary: b ms)
  case Nil
  then have "ms = []" and lanes: "lane_ok (enc_lane a)" "enc_lane a = dec_lane b"
    by (cases ms; simp)+
  from lane_send [OF lanes enc assms(2)] show ?case unfolding \<open>ms = []\<close> by auto
next
  case (Cons w ws)
  then show ?case by (cases w; cases ms) auto
qed

lemma tc_encode_ok:
  assumes "tc_ok a" and enc: "tc_encode H header data (header ! 0) a = Some (a', wh, wd)"
  shows "tc_ok a'"
proof -
  let ?b = "a\<lparr> tc_decode_key := tc_encode_key a, tc_decode_stream := tc_encode_stream a,
    tc_cipher := (tc_cipher a)\<lparr> bf_decode_key := bf_encode_key (tc_cipher a) \<rparr> \<rparr>"
  have "enc_lane a = dec_lane ?b" by (simp add: enc_lane_def dec_lane_def)
  then show ?thesis using lane_send [OF _ _ enc, of ?b] assms(1) by (simp add: tc_ok_lanes)
qed

end

lemma tc_stream_in_ok: "tc_stream_in xs t = (t', ys) \<Longrightarrow> tc_ok t \<Longrightarrow> tc_ok t'"
  by (auto simp: tc_stream_in_alt tc_ok_def ofb_ok_process)

lemma set_decode_key_ok:
  "set_decode_key key (tc_cipher t) = Some c \<Longrightarrow> tc_ok t
     \<Longrightarrow> tc_ok (t\<lparr> tc_decode_key := key, tc_cipher := c \<rparr>)"
  using expand_key_empty by (auto simp: set_decode_key_def tc_ok_def bind_eq_Some_conv)

lemma tc_decode_ok:
  assumes "tc_decode H wh wd t = Some (t', header, data, flag)" and "tc_ok t"
  shows "tc_ok t' \<and> enc_lane t' = enc_lane t"
proof
  show "enc_lane t' = enc_lane t" using tc_decode_lanes [OF assms(1) refl] assms(1) by auto
  obtain t1 where 1: "tc_stream_in wh t = (t1, header)"
    and d: "tc_decode_data H wd flag t1 = Some (t', data)"
    using assms(1) by (auto simp: tc_decode_def tc_decode_header_def bind_eq_Some_conv split: prod.splits)
  have ok: "tc_ok t1" by (rule tc_stream_in_ok [OF 1 assms(2)])
  show "tc_ok t'"
  proof (cases "wd = [] \<or> flag = 0")
    case True
    then show ?thesis using d ok
      by (auto simp: tc_decode_data_def split: if_splits prod.splits dest: tc_stream_in_ok)
  next
    case False
    obtain t2 d2 where 2: "tc_stream_in (take (min 2 (length wd)) wd) t1 = (t2, d2)" by force
    from d False obtain key c where c: "set_decode_key key (tc_cipher t2) = Some c"
      and t': "t' = fst (tc_stream_in (drop (min 2 (length wd)) wd)
        (t2\<lparr> tc_decode_key := key, tc_cipher := c \<rparr>))"
      by (simp add: tc_decode_data_def Let_def 2 bind_eq_Some_conv split: prod.splits)
        (metis fst_conv surj_pair)
    have "tc_ok (t2\<lparr> tc_decode_key := key, tc_cipher := c \<rparr>)"
      by (rule set_decode_key_ok [OF c tc_stream_in_ok [OF 2 ok]])
    moreover obtain t3 d3 where 3: "tc_stream_in (drop (min 2 (length wd)) wd)
        (t2\<lparr> tc_decode_key := key, tc_cipher := c \<rparr>) = (t3, d3)" by force
    ultimately have "tc_ok t3" by (intro tc_stream_in_ok [OF 3])
    then show ?thesis by (simp add: t' 3)
  qed
qed

definition channel_inv :: "digest_alg \<Rightarrow> channel \<Rightarrow> bool" where
  "channel_inv H s \<longleftrightarrow> tc_ok (sc_client s) \<and> tc_ok (sc_server s)
     \<and> (\<exists>ms. sc_up_sent s = sc_up_got s @ ms
          \<and> carries H (enc_lane (sc_client s)) (sc_server s) (sc_up s) ms)
     \<and> (\<exists>ms. sc_down_sent s = sc_down_got s @ ms
          \<and> carries H (enc_lane (sc_server s)) (sc_client s) (sc_down s) ms)"

context message_digest
begin

lemma channel_inv_start:
  assumes "channel_start H password session_key s"
  shows "channel_inv H s"
proof -
  obtain c v where s: "s = \<lparr> sc_client = c, sc_server = v, sc_up = [], sc_down = [],
      sc_up_sent = [], sc_up_got = [], sc_down_sent = [], sc_down_got = [] \<rparr>"
    and new: "transaction_cipher_new H password session_key True = Some c"
      "transaction_cipher_new H password session_key False = Some v"
    using assms by (auto elim: channel_startE)
  with tc_new_in_step [of password session_key] have "in_step c v" "in_step v c" by auto
  with s show ?thesis by (simp add: channel_inv_def in_step_lanes tc_ok_lanes)
qed

lemma channel_inv_step:
  assumes "channel_step H s s'" and inv: "channel_inv H s"
  shows "channel_inv H s'"
proof -
  obtain us ds where ok: "tc_ok (sc_client s)" "tc_ok (sc_server s)"
    and u: "sc_up_sent s = sc_up_got s @ us"
      "carries H (enc_lane (sc_client s)) (sc_server s) (sc_up s) us"
    and d: "sc_down_sent s = sc_down_got s @ ds"
      "carries H (enc_lane (sc_server s)) (sc_client s) (sc_down s) ds"
    using inv by (auto simp: channel_inv_def)
  from assms(1) show ?thesis
  proof cases
    case (client_send header data c wh wd)
    have "carries H (enc_lane (sc_server s)) c (sc_down s) ds"
      using carries_lane_cong [OF d(2)] tc_encode_dec_lane [OF client_send(2)] by simp
    then show ?thesis
      using u d ok client_send tc_encode_ok [OF ok(1) client_send(2)]
        carries_send [OF u(2) ok(1) client_send(2)]
      by (auto simp: channel_inv_def)
  next
    case (server_recv wh wd rest v header data flag)
    with u(2) obtain m ms where us: "us = m # ms" "m = (header, data)"
      "carries H (enc_lane (sc_client s)) v rest ms"
      by (cases us) auto
    then show ?thesis
      using u d ok server_recv tc_decode_ok [OF server_recv(3) ok(2)]
      by (auto simp: channel_inv_def)
  next
    case (server_send header data v wh wd)
    have "carries H (enc_lane (sc_client s)) v (sc_up s) us"
      using carries_lane_cong [OF u(2)] tc_encode_dec_lane [OF server_send(2)] by simp
    then show ?thesis
      using u d ok server_send tc_encode_ok [OF ok(2) server_send(2)]
        carries_send [OF d(2) ok(2) server_send(2)]
      by (auto simp: channel_inv_def)
  next
    case (client_recv wh wd rest c header data flag)
    with d(2) obtain m ms where ds: "ds = m # ms" "m = (header, data)"
      "carries H (enc_lane (sc_server s)) c rest ms"
      by (cases ds) auto
    then show ?thesis
      using u d ok client_recv tc_decode_ok [OF client_recv(3) ok(1)]
      by (auto simp: channel_inv_def)
  qed
qed

lemma channel_inv_reach: "channel_reach H password session_key s \<Longrightarrow> channel_inv H s"
  by (induction rule: channel_reach.induct) (auto intro: channel_inv_start channel_inv_step)

lemma carries_progress:
  assumes "carries H l b ws ms"
  shows "(ws = [] \<longleftrightarrow> ms = []) \<and>
    (\<forall>wh wd rest. ws = (wh, wd) # rest \<longrightarrow>
      (\<exists>b'. tc_decode H wh wd b = Some (b', fst (hd ms), snd (hd ms), fst (hd ms) ! 0)))"
  using assms by (cases "(H, l, b, ws, ms)" rule: carries.cases) auto

lemma channel_fifo:
  assumes "channel_reach H password session_key s"
  shows "prefix (sc_up_got s) (sc_up_sent s) \<and> prefix (sc_down_got s) (sc_down_sent s)
    \<and> (sc_up s = [] \<longrightarrow> sc_up_got s = sc_up_sent s)
    \<and> (sc_down s = [] \<longrightarrow> sc_down_got s = sc_down_sent s)"
  using channel_inv_reach [OF assms]
  by (auto simp: channel_inv_def dest!: carries_progress)

lemma channel_live:
  assumes "channel_reach H password session_key s"
  shows "(sc_up s \<noteq> [] \<longrightarrow> (\<exists>s'. channel_step H s s' \<and> sc_up s' = tl (sc_up s)
      \<and> sc_up_got s' = take (Suc (length (sc_up_got s))) (sc_up_sent s)))
    \<and> (sc_down s \<noteq> [] \<longrightarrow> (\<exists>s'. channel_step H s s' \<and> sc_down s' = tl (sc_down s)
      \<and> sc_down_got s' = take (Suc (length (sc_down_got s))) (sc_down_sent s)))"
proof -
  obtain us ds where u: "sc_up_sent s = sc_up_got s @ us"
      "carries H (enc_lane (sc_client s)) (sc_server s) (sc_up s) us"
    and d: "sc_down_sent s = sc_down_got s @ ds"
      "carries H (enc_lane (sc_server s)) (sc_client s) (sc_down s) ds"
    using channel_inv_reach [OF assms] by (auto simp: channel_inv_def)
  show ?thesis
  proof (intro conjI impI)
    assume ne: "sc_up s \<noteq> []"
    then obtain wh wd rest where w: "sc_up s = (wh, wd) # rest" by (cases "sc_up s") auto
    with carries_progress [OF u(2)] obtain m ms v where "us = m # ms"
      "tc_decode H wh wd (sc_server s) = Some (v, fst m, snd m, fst m ! 0)"
      by (cases us) auto
    with channel_step.server_recv [OF w this(2)] w u(1) show
      "\<exists>s'. channel_step H s s' \<and> sc_up s' = tl (sc_up s)
        \<and> sc_up_got s' = take (Suc (length (sc_up_got s))) (sc_up_sent s)"
      by (intro exI [of _ "s\<lparr> sc_server := v, sc_up := rest, sc_up_got := sc_up_got s @ [m] \<rparr>"]) simp
  next
    assume ne: "sc_down s \<noteq> []"
    then obtain wh wd rest where w: "sc_down s = (wh, wd) # rest" by (cases "sc_down s") auto
    with carries_progress [OF d(2)] obtain m ms c where "ds = m # ms"
      "tc_decode H wh wd (sc_client s) = Some (c, fst m, snd m, fst m ! 0)"
      by (cases ds) auto
    with channel_step.client_recv [OF w this(2)] w d(1) show
      "\<exists>s'. channel_step H s s' \<and> sc_down s' = tl (sc_down s)
        \<and> sc_down_got s' = take (Suc (length (sc_down_got s))) (sc_down_sent s)"
      by (intro exI [of _ "s\<lparr> sc_client := c, sc_down := rest, sc_down_got := sc_down_got s @ [m] \<rparr>"]) simp
  qed
qed

end

section \<open>Properties\<close>

text \<open>The digests of the program; \<open>TransactionCipher\<close> is instantiated with these two.\<close>

lemma digest_cases:
  assumes "H \<in> {Md5, Sha1}"
  shows "message_digest H"
  using assms md5.message_digest_axioms sha1.message_digest_axioms by blast

text \<open>C5: The encrypted channel is a pair of queues.  In every state two ends can reach, with
  any interleaving of sends and receives in the two directions and any key-permutation flags, what
  each end has received is exactly an initial part of what the other has sent, all of it once
  nothing is in flight; and whenever something is in flight the receiver can decode it, and gets
  the very next message.\<close>

theorem encrypted_channel_fifo:
  assumes "H \<in> {Md5, Sha1}" and "channel_reach H password session_key s"
  shows "prefix (sc_up_got s) (sc_up_sent s) \<and> prefix (sc_down_got s) (sc_down_sent s)
    \<and> (sc_up s = [] \<longrightarrow> sc_up_got s = sc_up_sent s)
    \<and> (sc_down s = [] \<longrightarrow> sc_down_got s = sc_down_sent s)
    \<and> (sc_up s \<noteq> [] \<longrightarrow> (\<exists>s'. channel_step H s s' \<and> sc_up s' = tl (sc_up s)
      \<and> sc_up_got s' = take (Suc (length (sc_up_got s))) (sc_up_sent s)))
    \<and> (sc_down s \<noteq> [] \<longrightarrow> (\<exists>s'. channel_step H s s' \<and> sc_down s' = tl (sc_down s)
      \<and> sc_down_got s' = take (Suc (length (sc_down_got s))) (sc_down_sent s)))"
  using message_digest.channel_fifo [OF digest_cases [OF assms(1)] assms(2)]
    message_digest.channel_live [OF digest_cases [OF assms(1)] assms(2)] by blast

text \<open>After a login, a client sends a message whose flag byte asks for three key permutations.\<close>

theorem encrypted_channel_fifo_witness:
  "\<exists>s s'. channel_reach Sha1 [112, 119] [1, 2, 3] s \<and> sc_up_sent s = [([3, 0], [7, 8, 9])]
    \<and> channel_step Sha1 s s' \<and> sc_up_got s' = [([3, 0], [7, 8, 9])]"
proof -
  obtain c v where new: "transaction_cipher_new Sha1 [112, 119] [1, 2, 3] True = Some c"
    "transaction_cipher_new Sha1 [112, 119] [1, 2, 3] False = Some v" and st: "in_step c v"
    using sha1.tc_new_in_step [of "[112, 119]" "[1, 2, 3]"] by blast
  let ?s0 = "\<lparr> sc_client = c, sc_server = v, sc_up = [], sc_down = [], sc_up_sent = [],
    sc_up_got = [], sc_down_sent = [], sc_down_got = [] \<rparr>"
  obtain c' wh wd where enc: "tc_encode Sha1 [3, 0] [7, 8, 9] ([3, 0] ! 0) c = Some (c', wh, wd)"
    using sha1.tc_message_in_step [OF st, of "[3, 0]" "[7, 8, 9]"] by auto
  have r0: "channel_reach Sha1 [112, 119] [1, 2, 3] ?s0"
    by (intro channel_reach.start channel_start.intros new)
  let ?s1 = "?s0\<lparr> sc_client := c', sc_up := sc_up ?s0 @ [(wh, wd)],
    sc_up_sent := sc_up_sent ?s0 @ [([3, 0], [7, 8, 9])] \<rparr>"
  have r1: "channel_reach Sha1 [112, 119] [1, 2, 3] ?s1"
    by (rule channel_reach.step [OF r0], rule channel_step.client_send) (use enc in simp)
  have "Sha1 \<in> {Md5, Sha1}" by simp
  from encrypted_channel_fifo [OF this r1] obtain s' where
    "channel_step Sha1 ?s1 s'" "sc_up_got s' = [([3, 0], [7, 8, 9])]" by auto
  with r1 show ?thesis by (intro exI [of _ ?s1] exI [of _ s']) simp
qed

text \<open>Encoding never reaches undefined behaviour, keeps the sizes of header and data, and only
  moves the sending side of an end: keys are never empty, so Blowfish always has one.\<close>

theorem transaction_cipher_total:
  assumes "H \<in> {Md5, Sha1}" and "tc_ok a"
  shows "\<exists>a' wh wd. tc_encode H header data (header ! 0) a = Some (a', wh, wd) \<and> tc_ok a'
    \<and> dec_lane a' = dec_lane a \<and> length wh = length header \<and> length wd = length data"
proof -
  let ?b = "a\<lparr> tc_decode_key := tc_encode_key a, tc_decode_stream := tc_encode_stream a,
    tc_cipher := (tc_cipher a)\<lparr> bf_decode_key := bf_encode_key (tc_cipher a) \<rparr> \<rparr>"
  have "in_step a ?b" using assms(2) by (auto simp: in_step_def tc_ok_def)
  from message_digest.tc_message_in_step [OF digest_cases [OF assms(1)] this, of header data]
  show ?thesis by (auto simp: in_step_lanes dest: tc_encode_dec_lane)
qed

theorem transaction_cipher_total_witness:
  "\<exists>a a' wh wd. transaction_cipher_new Md5 [1] [2] True = Some a
    \<and> tc_encode Md5 [5, 0] [7] ([5, 0] ! 0) a = Some (a', wh, wd) \<and> length wh = 2 \<and> length wd = 1"
proof -
  obtain c v where new: "transaction_cipher_new Md5 [1] [2] True = Some c" and st: "in_step c v"
    using md5.tc_new_in_step [of "[1]" "[2]"] by blast
  then have "tc_ok c" by (simp add: in_step_def)
  with transaction_cipher_total [of Md5 c "[5, 0]" "[7]"] new show ?thesis by auto
qed

text \<open>The flag choice of the historical sender is either no permutation or between 1 and 63
  rounds when it is fed random bytes, and 63 is reached: the receiver's permutation count is not
  limited to the 32 rounds the format documents.\<close>

theorem legacy_flag_range:
  assumes "r1 < 256" and "r2 < 256"
  shows "unat (legacy_flag_quirk r0 r1 r2) \<le> 63 \<and>
    (legacy_flag_quirk r0 r1 r2 \<noteq> 0 \<longleftrightarrow> (ucast (drop_bit 4 r0) :: u8) \<in> {2, 7, 13}) \<and>
    legacy_flag_quirk 0x20 0xFF 0 = 63"
proof -
  have r1: "unat (ucast (drop_bit 2 r1) :: u8) \<le> 63"
  proof -
    have "unat r1 < 256" using assms(1) by (simp add: word_less_nat_alt)
    moreover have "unat (drop_bit 2 r1) = unat r1 div 4"
      unfolding unat_drop_bit_eq by (simp add: drop_bit_eq_div)
    ultimately have "unat (drop_bit 2 r1) < 64" by linarith
    then show ?thesis by (simp only: unsigned_ucast_eq) (simp add: take_bit_eq_mod)
  qed
  have r2: "unat (drop_bit 3 r2 + 1) \<le> 32" "unat (drop_bit 3 r2 + 1) > 0"
  proof -
    have "unat r2 < 256" using assms(2) by (simp add: word_less_nat_alt)
    moreover have "unat (drop_bit 3 r2) = unat r2 div 8"
      unfolding unat_drop_bit_eq by (simp add: drop_bit_eq_div)
    ultimately have "unat (drop_bit 3 r2) < 32" by linarith
    then show "unat (drop_bit 3 r2 + 1) \<le> 32" "unat (drop_bit 3 r2 + 1) > 0"
      by (simp_all only: unat_word_ariths) simp_all
  qed
  then have u2: "unat (ucast (drop_bit 3 r2 + 1) :: u8) = unat (drop_bit 3 r2 + 1)"
    by (simp only: unsigned_ucast_eq) (simp add: take_bit_eq_mod)
  then have "(ucast (drop_bit 3 r2 + 1) :: u8) \<noteq> 0" using r2 by (auto simp flip: unat_gt_0)
  with r1 r2 u2 show ?thesis by (auto simp: legacy_flag_quirk_def Let_def)
qed

theorem legacy_flag_range_witness:
  "unat (legacy_flag_quirk 0x70 4 9) \<le> 63"
  using legacy_flag_range [of 4 9 "0x70"] by simp

end
