(* ===== verification/Endpoints.thy ===== *)
theory Endpoints
  imports Connection_Receive Connection_Send Handshake Session Secure_Channel
begin

text \<open>
  The two roles: \<open>ClientConnection\<close> (\<open>hotline/client/connection.h\<close>, \<open>connection.cpp\<close>)
  and \<open>ServerConnection\<close> (\<open>hotline/server/connection.h\<close>, \<open>connection.cpp\<close>).  Their
  handshake handlers meet the contract of an endpoint for all lawful callbacks; the contracts of a
  connection are interpreted on them in \<open>Role_Contracts\<close>.
\<close>

section \<open>The client\<close>

definition client_new :: "u32 \<Rightarrow> 'a \<Rightarrow> kernel \<Rightarrow> 'a connection" where
  "client_new max_receive_size env k =
     (connection_new max_receive_size env k)\<lparr> cn_expected := kServerHandshakeReplySize \<rparr>"

text \<open>\<open>socket_ = std::move(socket)\<close> closes the socket the connection had.\<close>

definition attach_socket :: "socket \<Rightarrow> 'a connection \<Rightarrow> 'a connection" where
  "attach_socket s c =
     (let (target, source, k) = socket_move_assign (cn_socket c) s (cn_kernel c)
      in c\<lparr> cn_socket := target, cn_kernel := k \<rparr>)"

definition client_start :: "'a events \<Rightarrow> socket \<Rightarrow> u32 \<Rightarrow> u16 \<Rightarrow> 'a connection \<Rightarrow> 'a connection" where
  "client_start ev s sub_protocol sub_version c =
     (let c1 = (attach_socket s c)\<lparr> cn_state := awaiting_handshake_reply \<rparr>;
          handshake = \<lparr> ch_protocol = kProtocolTrTp, ch_sub_protocol = sub_protocol,
            ch_version = kProtocolVersion, ch_sub_version = sub_version \<rparr>
      in flush_sends ev (queue_bytes (encode_client_handshake handshake) c1))"

text \<open>The handlers run when \<open>expected_bytes_\<close> bytes have arrived, so \<open>first\<close> is in bounds.\<close>

definition client_handle_handshake :: "'a events \<Rightarrow> 'a connection \<Rightarrow> 'a connection" where
  "client_handle_handshake ev c =
     (case try_decode_server_handshake_reply (take kServerHandshakeReplySize (cn_inbound c)) of
        Some (Inr reply) \<Rightarrow>
          (let c1 = c\<lparr> cn_inbound := drop kServerHandshakeReplySize (cn_inbound c) \<rparr>
           in if validate_server_handshake_reply reply \<noteq> sr_accepted then mark_dead ev c1
              else mark_established ev c1)
      | _ \<Rightarrow> mark_dead ev c)"

section \<open>The server\<close>

definition server_new :: "u32 \<Rightarrow> 'a \<Rightarrow> kernel \<Rightarrow> 'a connection" where
  "server_new max_receive_size env k =
     (connection_new max_receive_size env k)\<lparr> cn_expected := kClientHandshakeSize \<rparr>"

definition server_start :: "socket \<Rightarrow> 'a connection \<Rightarrow> 'a connection" where
  "server_start s c = (attach_socket s c)\<lparr> cn_state := awaiting_handshake \<rparr>"

definition server_handle_handshake :: "'a events \<Rightarrow> 'a connection \<Rightarrow> 'a connection" where
  "server_handle_handshake ev c =
     (case try_decode_client_handshake (take kClientHandshakeSize (cn_inbound c)) of
        Some (Inr handshake) \<Rightarrow>
          (let rest = drop kClientHandshakeSize (cn_inbound c);
               c1 = c\<lparr> cn_remote_sub_protocol := ch_sub_protocol handshake,
                 cn_remote_version := ch_sub_version handshake \<rparr>;
               validation = validate_client_handshake handshake
           in if validation = not_transaction_client then mark_dead ev (c1\<lparr> cn_inbound := rest \<rparr>)
              else if validation = incompatible_version then
                (let reject = default_server_handshake_reply\<lparr> sr_error := normalize_reject_reason 1 \<rparr>;
                     c2 = (queue_bytes (encode_server_handshake_reply reject) c1)\<lparr> cn_inbound := rest,
                       cn_state := closing \<rparr>
                 in flush_sends ev c2)
              else
                (let c2 = (queue_bytes (encode_server_handshake_reply default_server_handshake_reply) c1)
                       \<lparr> cn_inbound := rest \<rparr>
                 in flush_sends ev (mark_established ev c2)))
      | _ \<Rightarrow> mark_dead ev c)"

section \<open>The handlers are lawful\<close>

context application
begin

lemma mark_established_inbound:
  "mark_established ev (c\<lparr> cn_inbound := bs \<rparr>) = (mark_established ev c)\<lparr> cn_inbound := bs \<rparr>"
  unfolding mark_established_def inbound_outermost
  by (rule invoke_inbound) (rule established_law)

lemma mark_established_keeps:
  "same_receive c (mark_established ev c) \<and> (queue_ok c \<longrightarrow> queue_ok (mark_established ev c)) \<and>
   (cn_state (mark_established ev c) = established \<or> cn_state (mark_established ev c) = dead)"
proof (cases "ev_established ev")
  case None
  then show ?thesis by (simp add: mark_established_def invoke_def same_receive_def queue_ok_def)
next
  case (Some g)
  let ?c = "c\<lparr> cn_state := established, cn_callbacks := cn_callbacks c @ [Established] \<rparr>"
  have "keeps ?c (g ?c)" by (rule send_side_keeps [OF established_law [OF Some]])
  moreover have "mark_established ev c = g ?c" using Some by (simp add: mark_established_def invoke_def)
  ultimately show ?thesis by (auto simp: keeps_def same_receive_def queue_ok_def may_die_def)
qed

lemmas inbound_free = mark_established_inbound send_side_inbound [OF send_side_mark_dead]
  send_side_inbound [OF send_side_flush] send_side_inbound [OF send_side_queue_bytes]

lemma keeps_fields:
  "keeps c d \<Longrightarrow> cn_inbound d = cn_inbound c \<and> cn_max_receive_size d = cn_max_receive_size c \<and>
     cn_partial d = cn_partial c \<and> cn_pending_data d = cn_pending_data c \<and> (queue_ok c \<longrightarrow> queue_ok d)"
  by (simp add: keeps_def same_receive_def)

lemmas operation_fields = keeps_fields [OF keeps_mark_dead] keeps_fields [OF send_side_keeps [OF send_side_flush]]
  keeps_fields [OF send_side_keeps [OF send_side_queue_bytes]]

lemma established_fields:
  "cn_inbound (mark_established ev c) = cn_inbound c \<and>
   cn_max_receive_size (mark_established ev c) = cn_max_receive_size c \<and>
   cn_partial (mark_established ev c) = cn_partial c \<and>
   cn_pending_data (mark_established ev c) = cn_pending_data c \<and>
   (queue_ok c \<longrightarrow> queue_ok (mark_established ev c))"
  using mark_established_keeps [of c] by (simp add: same_receive_def)

lemma queue_ok_other [simp]:
  "queue_ok (c\<lparr> cn_inbound := bs \<rparr>) = queue_ok c"
  "queue_ok (c\<lparr> cn_remote_sub_protocol := w, cn_remote_version := v \<rparr>) = queue_ok c"
  "queue_ok c \<Longrightarrow> queue_ok (c\<lparr> cn_state := closing \<rparr>)"
  by (simp_all add: queue_ok_def)

lemma client_handshake_lawful: "lawful_handshake kServerHandshakeReplySize (client_handle_handshake ev)"
  unfolding lawful_handshake_def
proof (intro allI impI conjI)
  fix c :: "'a connection" and bs
  assume len: "kServerHandshakeReplySize \<le> length (cn_inbound c)"
  show "client_handle_handshake ev (feed bs c) = feed bs (client_handle_handshake ev c)"
    using len
    by (auto simp: client_handle_handshake_def feed_def inbound_free operation_fields established_fields Let_def
        split: option.split sum.split)
  show "\<exists>m\<le>kServerHandshakeReplySize. cn_inbound (client_handle_handshake ev c) = drop m (cn_inbound c)"
    by (auto simp: client_handle_handshake_def operation_fields established_fields Let_def
        split: option.split sum.split intro: exI [of _ 0])
qed (auto simp: client_handle_handshake_def operation_fields established_fields Let_def split: option.split sum.split)

lemma server_handshake_lawful: "lawful_handshake kClientHandshakeSize (server_handle_handshake ev)"
  unfolding lawful_handshake_def
proof (intro allI impI conjI)
  fix c :: "'a connection" and bs
  assume len: "kClientHandshakeSize \<le> length (cn_inbound c)"
  show "server_handle_handshake ev (feed bs c) = feed bs (server_handle_handshake ev c)"
    using len
    by (auto simp: server_handle_handshake_def feed_def inbound_free operation_fields established_fields Let_def
        split: option.split sum.split)
  show "\<exists>m\<le>kClientHandshakeSize. cn_inbound (server_handle_handshake ev c) = drop m (cn_inbound c)"
    by (auto simp: server_handle_handshake_def operation_fields established_fields Let_def
        split: option.split sum.split intro: exI [of _ 0])
qed (auto simp: server_handle_handshake_def operation_fields established_fields Let_def split: option.split sum.split)

end

end
