(* ===== verification/Message_Flow.thy ===== *)
theory Message_Flow
  imports Connection_Receive Connection_Send Secure_Channel
begin

text \<open>
  From the send queue of one connection to the callbacks of another.  A channel is a pair of
  hooks and the relation by which the receiver's hooks decode; the plain channel has no hooks and
  the encrypted one wraps a \<open>TransactionCipher\<close> as the header of \<open>hotline/net/connection.h\<close>
  describes.  \<open>queue_all\<close> sends a list of messages.
\<close>

record outgoing =
  om_type :: u16
  om_id :: u32
  om_data :: bytes
  om_is_reply :: bool
  om_error :: u32

definition queue_message :: "'a events \<Rightarrow> outgoing \<Rightarrow> 'a connection \<Rightarrow> 'a connection" where
  "queue_message ev m = queue_transaction ev (om_type m) (om_id m) (om_data m) (om_is_reply m) (om_error m)"

fun queue_all :: "'a events \<Rightarrow> outgoing list \<Rightarrow> 'a connection \<Rightarrow> 'a connection" where
  "queue_all ev [] c = c"
| "queue_all ev (m # ms) c = queue_all ev ms (queue_message ev m c)"

text \<open>The receiver's view of a message: everything but the flag.\<close>

definition conveys :: "outgoing \<Rightarrow> received_transaction \<Rightarrow> bool" where
  "conveys m r \<longleftrightarrow> rt_data r = om_data m \<and> th_type (rt_header r) = om_type m
     \<and> th_id (rt_header r) = om_id m \<and> th_error (rt_header r) = om_error m
     \<and> th_is_reply (rt_header r) = (if om_is_reply m then 1 else 0)
     \<and> unat (th_total_size (rt_header r)) = length (om_data m)
     \<and> th_data_size (rt_header r) = th_total_size (rt_header r)"

text \<open>What a receiver with this limit does not refuse.\<close>

definition sendable :: "u32 \<Rightarrow> outgoing \<Rightarrow> bool" where
  "sendable max_size m \<longleftrightarrow> om_data m \<noteq> [] \<and> length (om_data m) \<le> unat max_size"

definition message_header :: "outgoing \<Rightarrow> u8 \<Rightarrow> transaction_header" where
  "message_header m flag = \<lparr> th_flag = flag, th_is_reply = (if om_is_reply m then 1 else 0),
     th_type = om_type m, th_id = om_id m, th_error = om_error m,
     th_total_size = word_of_nat (length (om_data m)), th_data_size = word_of_nat (length (om_data m)) \<rparr>"

lemma sendable_header:
  assumes "sendable max_size m"
  shows "conveys m \<lparr> rt_header = message_header m flag, rt_data = om_data m \<rparr>"
    and "length wh = 20 \<Longrightarrow> length wd = length (om_data m) \<Longrightarrow> frame_ok max_size (message_header m flag) wh wd"
    and "add_part parts (message_header m flag) (om_data m)
      = ([\<lparr> rt_header = message_header m flag, rt_data = om_data m \<rparr>], parts)"
proof -
  have "length (om_data m) < 4294967296"
    using assms unat_u32_less [of max_size] by (simp add: sendable_def)
  then have u: "unat (word_of_nat (length (om_data m)) :: u32) = length (om_data m)"
    by (rule word_of_nat_inverse32)
  then have nz: "(word_of_nat (length (om_data m)) :: u32) \<noteq> 0"
    using assms by (metis length_0_conv sendable_def unat_0)
  show "conveys m \<lparr> rt_header = message_header m flag, rt_data = om_data m \<rparr>"
    by (simp add: conveys_def message_header_def u)
  show "frame_ok max_size (message_header m flag) wh wd"
    if "length wh = 20" "length wd = length (om_data m)"
    using that assms nz by (simp add: frame_ok_def message_header_def u refused_def sendable_def word_less_nat_alt)
  show "add_part parts (message_header m flag) (om_data m)
      = ([\<lparr> rt_header = message_header m flag, rt_data = om_data m \<rparr>], parts)"
    by (simp add: add_part_def message_header_def)
qed

text \<open>Whole messages need no reassembly: they come out as they went in.\<close>

lemma reassemble_messages:
  assumes "list_all2 (\<lambda>m f. \<exists>flag. f = (message_header m flag, om_data m)) ms fs"
    and "\<forall>m\<in>set ms. sendable max_size m"
  shows "list_all2 conveys ms (fst (reassemble parts fs)) \<and> snd (reassemble parts fs) = parts"
  using assms
proof (induction rule: list_all2_induct)
  case (Cons m ms f fs)
  then obtain flag where f: "f = (message_header m flag, om_data m)" by blast
  have "sendable max_size m" using Cons.prems by simp
  note facts = sendable_header(1,3) [OF this]
  show ?case using Cons.IH Cons.prems facts by (auto simp: f split: prod.split)
qed simp

section \<open>What the hooks of a sender produce\<close>

definition sends :: "'a crypto_hooks \<Rightarrow> ('a \<Rightarrow> bool) \<Rightarrow> ('a \<Rightarrow> 'l)
    \<Rightarrow> ('l \<Rightarrow> bytes \<Rightarrow> bytes \<Rightarrow> 'l \<Rightarrow> transaction_header \<Rightarrow> bytes \<Rightarrow> bool) \<Rightarrow> bool" where
  "sends hooks ok lane R \<longleftrightarrow> (\<forall>c m. cn_crypto c = hooks \<longrightarrow> ok (cn_env c) \<longrightarrow>
     (\<exists>e wh wd flag. transaction_bytes (om_type m) (om_id m) (om_data m) (om_is_reply m) (om_error m) c = (e, wh @ wd)
        \<and> length wh = 20 \<and> length wd = length (om_data m) \<and> ok e
        \<and> R (lane (cn_env c)) wh wd (lane e) (message_header m flag) (om_data m)))"

text \<open>The hooks and what they need survive the sender's own \<open>on_closed\<close>.\<close>

definition closing_keeps :: "'a events \<Rightarrow> ('a crypto_hooks \<Rightarrow> 'a \<Rightarrow> 'b) \<Rightarrow> bool" where
  "closing_keeps ev p \<longleftrightarrow> (\<forall>g c. ev_closed ev = Some g \<longrightarrow>
     p (cn_crypto (g c)) (cn_env (g c)) = p (cn_crypto c) (cn_env c))"

lemma mark_dead_env:
  "closing_keeps ev p \<Longrightarrow>
     p (cn_crypto (mark_dead ev c)) (cn_env (mark_dead ev c)) = p (cn_crypto c) (cn_env c)"
  by (simp add: mark_dead_died invoke_def closing_keeps_def split: option.split)

lemma flush_env:
  assumes "closing_keeps ev p"
  shows "p (cn_crypto (flush_sends ev c)) (cn_env (flush_sends ev c)) = p (cn_crypto c) (cn_env c)"
proof (induction "length (kn_script (cn_kernel c))" arbitrary: c rule: less_induct)
  case less
  show ?case
  proof (cases "cn_send_queue c")
    case Nil
    then show ?thesis by (simp add: flush_sends.simps [of ev c] mark_dead_env [OF assms])
  next
    case (Cons q rest)
    obtain r k where s: "socket_send (cn_socket c) (drop (ps_offset q) (ps_bytes q)) (cn_kernel c) = (r, k)"
      by force
    show ?thesis
    proof (cases r)
      case (Inl e)
      have "p (cn_crypto (flush_sends ev (c\<lparr> cn_kernel := k \<rparr>))) (cn_env (flush_sends ev (c\<lparr> cn_kernel := k \<rparr>)))
          = p (cn_crypto c) (cn_env c)" if "e = interrupted"
        using less.hyps [of "c\<lparr> cn_kernel := k \<rparr>"] send_uses_script [OF s] Inl that by simp
      then show ?thesis
        using Cons s Inl mark_dead_env [OF assms, of "c\<lparr> cn_kernel := k \<rparr>"]
        by (cases e) (simp_all add: flush_sends.simps [of ev c])
    next
      case (Inr n)
      let ?d = "c\<lparr> cn_kernel := k, cn_send_queue := (if length (ps_bytes q) \<le> ps_offset q + n then rest
             else q\<lparr> ps_offset := ps_offset q + n \<rparr> # rest) \<rparr>"
      have "length (kn_script k) < length (kn_script (cn_kernel c))" using send_uses_script [OF s] Inr by simp
      then show ?thesis
        using Cons s Inr less.hyps [of ?d] by (simp add: flush_sends.simps [of ev c] Let_def)
    qed
  qed
qed

context application
begin

lemma queue_all_dead: "cn_state c = dead \<Longrightarrow> cn_state (queue_all ev ms c) = dead"
proof (induction ms arbitrary: c)
  case (Cons m ms)
  have "cn_state (queue_message ev m c) = dead"
    using Cons.prems keeps_stays_dead [OF send_side_keeps [OF send_side_queue_transaction]]
    by (simp add: queue_message_def)
  then show ?case using Cons.IH by simp
qed simp

lemma queue_all_wire:
  assumes "sends hooks ok lane R"
    and keep: "closing_keeps ev (\<lambda>hs e. (hs, lane e, ok e))"
  shows "queue_ok c \<Longrightarrow> cn_crypto c = hooks \<Longrightarrow> ok (cn_env c) \<Longrightarrow>
    cn_state (queue_all ev ms c) \<noteq> dead \<Longrightarrow> \<forall>m\<in>set ms. sendable max_size m \<Longrightarrow>
    \<exists>ws fs. outflow (queue_all ev ms c) = outflow c @ wire ws \<and>
      list_all2 (\<lambda>m f. \<exists>flag. f = (message_header m flag, om_data m)) ms fs \<and>
      decodes_all max_size R (lane (cn_env c)) ws fs (lane (cn_env (queue_all ev ms c)))"
proof (induction ms arbitrary: c)
  case Nil
  show ?case by (intro exI [of _ "[]"]) simp
next
  case (Cons m ms)
  obtain e wh wd flag where b: "transaction_bytes (om_type m) (om_id m) (om_data m) (om_is_reply m) (om_error m) c = (e, wh @ wd)"
    and len: "length wh = 20" "length wd = length (om_data m)" and ok: "ok e"
    and R: "R (lane (cn_env c)) wh wd (lane e) (message_header m flag) (om_data m)"
    using assms(1) Cons.prems(2,3) unfolding sends_def by blast
  let ?c = "queue_message ev m c"
  have alive: "cn_state ?c \<noteq> dead" using Cons.prems(4) queue_all_dead by auto
  have flow: "outflow ?c = outflow c @ wh @ wd"
    using queue_transaction_output [OF Cons.prems(1), of "om_type m" "om_id m" "om_data m" "om_is_reply m" "om_error m"]
      alive by (simp add: queue_message_def b)
  have "queue_ok ?c"
    using send_side_keeps [OF send_side_queue_transaction] Cons.prems(1)
    by (simp add: queue_message_def keeps_def)
  moreover have env: "cn_crypto ?c = hooks \<and> lane (cn_env ?c) = lane e \<and> ok (cn_env ?c)"
    using flush_env [OF keep, of "queue_bytes (wh @ wd) (c\<lparr> cn_env := e \<rparr>)"] Cons.prems(2) ok
    by (simp add: queue_message_def queue_transaction_bytes b queue_bytes_def)
  ultimately obtain ws fs where
    "outflow (queue_all ev ms ?c) = outflow ?c @ wire ws"
    "list_all2 (\<lambda>m f. \<exists>flag. f = (message_header m flag, om_data m)) ms fs"
    "decodes_all max_size R (lane e) ws fs (lane (cn_env (queue_all ev ms ?c)))"
    using Cons.IH [of ?c] Cons.prems(4,5) by auto
  then show ?case
    using flow R len sendable_header(2) [of max_size m wh wd flag] Cons.prems(5)
    by (intro exI [of _ "(wh, wd) # ws"] exI [of _ "(message_header m flag, om_data m) # fs"]) auto
qed

end

section \<open>The plain channel\<close>

definition plain_decodes :: "unit \<Rightarrow> bytes \<Rightarrow> bytes \<Rightarrow> unit \<Rightarrow> transaction_header \<Rightarrow> bytes \<Rightarrow> bool" where
  "plain_decodes l wh wd l' header data \<longleftrightarrow> header = decode_header wh \<and> data = wd"

lemma plain_sends: "sends no_crypto (\<lambda>_. True) (\<lambda>_. ()) plain_decodes"
  unfolding sends_def
proof (intro allI impI)
  fix c :: "'a connection" and m
  assume "cn_crypto c = no_crypto"
  then have "transaction_bytes (om_type m) (om_id m) (om_data m) (om_is_reply m) (om_error m) c
      = (cn_env c, encode_header (message_header m 0) @ om_data m)"
    by (simp add: transaction_bytes_def no_crypto_def message_header_def encode_transaction_def)
  then show "\<exists>e wh wd flag. transaction_bytes (om_type m) (om_id m) (om_data m) (om_is_reply m) (om_error m) c = (e, wh @ wd)
        \<and> length wh = 20 \<and> length wd = length (om_data m) \<and> True
        \<and> plain_decodes () wh wd () (message_header m flag) (om_data m)"
    by (intro exI [of _ "cn_env c"] exI [of _ "encode_header (message_header m 0)"] exI [of _ "om_data m"]
        exI [of _ 0]) (simp add: plain_decodes_def)
qed

lemma plain_hooks_decode: "hooks_decode no_crypto (\<lambda>_. ()) plain_decodes"
  by (simp add: hooks_decode_def plain_decodes_def no_crypto_def)

section \<open>The encrypted channel\<close>

text \<open>Hooks that wrap the transaction cipher \<open>get\<close> reads from the environment and \<open>put\<close>
  writes back; \<open>pick\<close> chooses the flag.\<close>

definition cipher_hooks :: "digest_alg \<Rightarrow> ('a \<Rightarrow> transaction_cipher) \<Rightarrow> (transaction_cipher \<Rightarrow> 'a \<Rightarrow> 'a)
    \<Rightarrow> ('a \<Rightarrow> u8 \<times> 'a) \<Rightarrow> 'a crypto_hooks" where
  "cipher_hooks H get put pick = \<lparr>
     cr_choose_flag = Some pick,
     cr_encode = Some (\<lambda>header data flag e.
       case tc_encode H header data flag (get e) of
         Some (t, wh, wd) \<Rightarrow> (wh, wd, put t e)
       | None \<Rightarrow> (header, data, e)),
     cr_decode_header = Some (\<lambda>header e.
       let (t, raw, flag) = tc_decode_header header (get e) in (raw, flag, put t e)),
     cr_decode_data = Some (\<lambda>data flag e.
       case tc_decode_data H data flag (get e) of
         Some (t, data') \<Rightarrow> (data', put t e)
       | None \<Rightarrow> (data, e)) \<rparr>"

definition cipher_place :: "('a \<Rightarrow> transaction_cipher) \<Rightarrow> (transaction_cipher \<Rightarrow> 'a \<Rightarrow> 'a) \<Rightarrow> ('a \<Rightarrow> u8 \<times> 'a) \<Rightarrow> bool" where
  "cipher_place get put pick \<longleftrightarrow> (\<forall>t e. get (put t e) = t) \<and> (\<forall>e. get (snd (pick e)) = get e)"

definition cipher_decodes :: "digest_alg \<Rightarrow> lane \<Rightarrow> bytes \<Rightarrow> bytes \<Rightarrow> lane \<Rightarrow> transaction_header \<Rightarrow> bytes \<Rightarrow> bool" where
  "cipher_decodes H l wh wd l' header data \<longleftrightarrow> (\<exists>raw flag. decode_header raw = header \<and>
     (\<forall>t. dec_lane t = l \<longrightarrow>
       (\<exists>t'. tc_decode H wh wd t = Some (t', raw, data, flag) \<and> dec_lane t' = l')))"

lemma cipher_hooks_decode:
  assumes "cipher_place get put pick"
  shows "hooks_decode (cipher_hooks H get put pick) (\<lambda>e. dec_lane (get e)) (cipher_decodes H)"
  unfolding hooks_decode_def
proof (intro allI impI)
  fix e wh wd l' header data
  assume "cipher_decodes H (dec_lane (get e)) wh wd l' header data"
  then obtain raw flag t' where d: "decode_header raw = header" "dec_lane t' = l'"
    "tc_decode H wh wd (get e) = Some (t', raw, data, flag)" by (auto simp: cipher_decodes_def)
  obtain t1 raw1 flag1 where 1: "tc_decode_header wh (get e) = (t1, raw1, flag1)"
    by (cases "tc_decode_header wh (get e)") auto
  have r: "raw1 = raw" "flag1 = flag" and 2: "tc_decode_data H wd flag t1 = Some (t', data)"
    using d(3) 1 by (auto simp: tc_decode_def bind_eq_Some_conv)
  show "\<exists>raw flag e1 e2.
        (case cr_decode_header (cipher_hooks H get put pick) of Some f \<Rightarrow> f wh e | None \<Rightarrow> (wh, 0, e)) = (raw, flag, e1) \<and>
        decode_header raw = header \<and>
        (case cr_decode_data (cipher_hooks H get put pick) of Some f \<Rightarrow> f wd flag e1 | None \<Rightarrow> (wd, e1)) = (data, e2) \<and>
        dec_lane (get e2) = l'"
    using assms d 1 2
    by (intro exI [of _ raw] exI [of _ flag] exI [of _ "put t1 e"] exI [of _ "put t' (put t1 e)"])
      (simp add: cipher_hooks_def r cipher_place_def)
qed

context message_digest
begin

lemma tc_encode_total:
  assumes "tc_ok a"
  shows "\<exists>a' wh wd. tc_encode H header data (header ! 0) a = Some (a', wh, wd)
    \<and> length wh = length header \<and> length wd = length data"
proof -
  let ?b = "a\<lparr> tc_decode_key := tc_encode_key a, tc_decode_stream := tc_encode_stream a,
    tc_cipher := (tc_cipher a)\<lparr> bf_decode_key := bf_encode_key (tc_cipher a) \<rparr> \<rparr>"
  have "in_step a ?b" using assms by (simp add: in_step_def tc_ok_def)
  from tc_message_in_step [OF this, of header data] show ?thesis by blast
qed

lemma cipher_sends:
  assumes place: "cipher_place get put pick"
  shows "sends (cipher_hooks H get put pick) (\<lambda>e. tc_ok (get e)) (\<lambda>e. enc_lane (get e)) (cipher_decodes H)"
  unfolding sends_def
proof (intro allI impI)
  fix c :: "'a connection" and m
  assume crypto: "cn_crypto c = cipher_hooks H get put pick" and ok: "tc_ok (get (cn_env c))"
  obtain flag e1 where ch: "pick (cn_env c) = (flag, e1)" by force
  have g: "get e1 = get (cn_env c)" using place ch by (metis cipher_place_def snd_conv)
  let ?h = "encode_header (message_header m flag)"
  have h0: "?h ! 0 = flag" by (simp add: encode_header_def message_header_def)
  obtain t wh wd where enc: "tc_encode H ?h (om_data m) flag (get e1) = Some (t, wh, wd)"
    and len: "length wh = 20" "length wd = length (om_data m)"
    using tc_encode_total [OF ok, of ?h "om_data m"] by (auto simp: h0 g)
  have "transaction_bytes (om_type m) (om_id m) (om_data m) (om_is_reply m) (om_error m) c = (put t e1, wh @ wd)"
    using enc by (simp add: transaction_bytes_def crypto cipher_hooks_def ch message_header_def Let_def)
  moreover have "tc_ok t"
    by (rule tc_encode_ok [OF ok, of ?h "om_data m" t wh wd]) (use enc in \<open>simp only: h0 g\<close>)
  moreover have "cipher_decodes H (enc_lane (get (cn_env c))) wh wd (enc_lane t) (message_header m flag) (om_data m)"
    unfolding cipher_decodes_def
  proof (intro exI [of _ ?h] exI [of _ flag] conjI allI impI)
    fix b assume b: "dec_lane b = enc_lane (get (cn_env c))"
    have enc': "tc_encode H ?h (om_data m) (?h ! 0) (get (cn_env c)) = Some (t, wh, wd)"
      using enc unfolding h0 g .
    have "lane_ok (enc_lane (get (cn_env c)))" using ok unfolding tc_ok_lanes by blast
    from lane_send [OF this b [symmetric] enc' ok] obtain b' where
      "tc_decode H wh wd b = Some (b', ?h, om_data m, flag)" "enc_lane t = dec_lane b'" unfolding h0 by blast
    then show "\<exists>t'. tc_decode H wh wd b = Some (t', ?h, om_data m, flag) \<and> dec_lane t' = enc_lane t"
      by (intro exI [of _ b']) (rule conjI, assumption, rule sym, assumption)
  qed simp
  moreover have "get (put t e1) = t" using place by (simp add: cipher_place_def)
  ultimately show "\<exists>e wh wd flag. transaction_bytes (om_type m) (om_id m) (om_data m) (om_is_reply m) (om_error m) c = (e, wh @ wd)
        \<and> length wh = 20 \<and> length wd = length (om_data m) \<and> tc_ok (get e)
        \<and> cipher_decodes H (enc_lane (get (cn_env c))) wh wd (enc_lane (get e)) (message_header m flag) (om_data m)"
    using len by (intro exI [of _ "put t e1"] exI [of _ wh] exI [of _ wd] exI [of _ flag]) simp
qed

end

end
