(* ===== verification/Connection_Runs.thy ===== *)
theory Connection_Runs
  imports Connection_Receive Connection_Send
begin

text \<open>
  Runs of a connection: any sequence of the operations its owner may call, the answers of the
  kernel being arbitrary.  The theory has the rules by which a property of the state is carried
  through the two loops and through a run, and the invariant of every run: what is held and what
  is delivered is bounded by the receive limit, the send queue is well formed, and the connection
  is closed at most once.
\<close>

section \<open>Rules\<close>

lemma flush_invariant:
  assumes "\<And>c. P c \<Longrightarrow> P (mark_dead ev c)"
    and "\<And>c k q. P c \<Longrightarrow> queue_ok (c\<lparr> cn_send_queue := q \<rparr>) \<or> \<not> queue_ok c \<Longrightarrow>
      P (c\<lparr> cn_kernel := k, cn_send_queue := q \<rparr>)"
  shows "P c \<Longrightarrow> P (flush_sends ev c)"
proof (induction "length (kn_script (cn_kernel c))" arbitrary: c rule: less_induct)
  case less
  show ?case
  proof (cases "cn_send_queue c")
    case Nil
    then show ?thesis using less.prems assms(1) by (simp add: flush_sends.simps [of ev c])
  next
    case (Cons p rest)
    obtain r k where s: "socket_send (cn_socket c) (drop (ps_offset p) (ps_bytes p)) (cn_kernel c) = (r, k)"
      by force
    have same: "P (c\<lparr> cn_kernel := k \<rparr>)" using assms(2) [OF less.prems, of "cn_send_queue c" k] by simp
    show ?thesis
    proof (cases r)
      case (Inl e)
      have "P (flush_sends ev (c\<lparr> cn_kernel := k \<rparr>))" if "e = interrupted"
        using less.hyps [OF _ same] send_uses_script [OF s] Inl that by simp
      then show ?thesis
        using Cons s Inl same assms(1) by (cases e) (simp_all add: flush_sends.simps [of ev c])
    next
      case (Inr n)
      let ?q = "if length (ps_bytes p) \<le> ps_offset p + n then rest
             else p\<lparr> ps_offset := ps_offset p + n \<rparr> # rest"
      have "queue_ok (c\<lparr> cn_send_queue := ?q \<rparr>) \<or> \<not> queue_ok c" using Cons by (auto simp: queue_ok_def)
      then have "P (c\<lparr> cn_kernel := k, cn_send_queue := ?q \<rparr>)" by (rule assms(2) [OF less.prems])
      moreover have "length (kn_script k) < length (kn_script (cn_kernel c))"
        using send_uses_script [OF s] Inr by simp
      ultimately show ?thesis
        using Cons s Inr less.hyps [of "c\<lparr> cn_kernel := k, cn_send_queue := ?q \<rparr>"]
        by (simp add: flush_sends.simps [of ev c] Let_def)
    qed
  qed
qed

lemma receive_invariant:
  assumes "\<And>c k bs. P c \<Longrightarrow> P (c\<lparr> cn_kernel := k, cn_inbound := cn_inbound c @ bs \<rparr>)"
  shows "P c \<Longrightarrow> P (snd (receive_loop c))"
proof (induction "length (kn_script (cn_kernel c))" arbitrary: c rule: less_induct)
  case less
  obtain r k where s: "socket_receive (cn_socket c) 4096 (cn_kernel c) = (r, k)" by force
  have same: "P (c\<lparr> cn_kernel := k, cn_inbound := cn_inbound c @ bs \<rparr>)" for bs by (rule assms [OF less.prems])
  have nil: "c\<lparr> cn_kernel := k, cn_inbound := cn_inbound c @ [] \<rparr> = c\<lparr> cn_kernel := k \<rparr>" by simp
  show ?case
  proof (cases r)
    case (Inl e)
    have "P (snd (receive_loop (c\<lparr> cn_kernel := k \<rparr>)))" if "e = interrupted"
      using less.hyps [of "c\<lparr> cn_kernel := k \<rparr>"] same [of "[]"] receive_uses_script [OF s] Inl that
      by (simp add: nil)
    then show ?thesis
      using s Inl same [of "[]"] by (cases e) (simp_all add: receive_loop.simps [of c] nil)
  next
    case (Inr bs)
    have "length (kn_script k) < length (kn_script (cn_kernel c))" using receive_uses_script [OF s] Inr by simp
    then have "P (snd (receive_loop (c\<lparr> cn_kernel := k, cn_inbound := cn_inbound c @ bs \<rparr>)))"
      using less.hyps [OF _ same [of bs]] by simp
    then show ?thesis using s Inr by (simp add: receive_loop.simps [of c])
  qed
qed

lemma parse_invariant:
  assumes "\<And>c c'. P c \<Longrightarrow> parse_round ev h c = Inl c' \<or> parse_round ev h c = Inr c' \<Longrightarrow> P c'"
    and "parse_inbound ev h c = Some c'" and "P c"
  shows "P c'"
proof -
  define Q where "Q = (\<lambda>ev' h' c c'. ev' = ev \<longrightarrow> h' = h \<longrightarrow> P c \<longrightarrow> P c')"
  have "Q ev h c c'"
  proof (rule parse_inbound.raw_induct [OF _ assms(2)])
    fix parse ev' h' c c'
    assume IH: "\<And>ev' h' d d'. parse ev' h' d = Some d' \<Longrightarrow> Q ev' h' d d'"
      and eq: "(case parse_round ev' h' c of Inl d \<Rightarrow> Some d | Inr d \<Rightarrow> parse ev' h' d) = Some c'"
    show "Q ev' h' c c'"
      unfolding Q_def
    proof (intro impI)
      assume e: "ev' = ev" "h' = h" and "P c"
      show "P c'"
      proof (cases "parse_round ev h c")
        case (Inl d)
        then have "c' = d" using eq e by simp
        then show ?thesis using assms(1) [OF \<open>P c\<close>] Inl by blast
      next
        case (Inr d)
        then have "parse ev h d = Some c'" using eq e by simp
        from IH [OF this] have "P d \<longrightarrow> P c'" by (simp add: Q_def)
        then show ?thesis using assms(1) [OF \<open>P c\<close>] Inr by blast
      qed
    qed
  qed
  then show ?thesis using assms(3) by (simp add: Q_def)
qed

section \<open>Runs\<close>

inductive connection_run :: "'a events \<Rightarrow> ('a connection \<Rightarrow> 'a connection) \<Rightarrow> ('a crypto_hooks \<Rightarrow> bool)
    \<Rightarrow> 'a connection \<Rightarrow> 'a connection \<Rightarrow> bool" for ev h allowed c0 where
  start: "connection_run ev h allowed c0 c0"
| readable: "connection_run ev h allowed c0 c \<Longrightarrow> service_readable ev h c = Some d
    \<Longrightarrow> connection_run ev h allowed c0 d"
| writable: "connection_run ev h allowed c0 c \<Longrightarrow> connection_run ev h allowed c0 (service_writable ev c)"
| send: "connection_run ev h allowed c0 c
    \<Longrightarrow> connection_run ev h allowed c0 (queue_transaction ev kind tid data is_reply error c)"
| keepalive: "connection_run ev h allowed c0 c \<Longrightarrow> connection_run ev h allowed c0 (queue_keepalive ev c)"
| close: "connection_run ev h allowed c0 c \<Longrightarrow> connection_run ev h allowed c0 (close_connection c)"
| crypto: "connection_run ev h allowed c0 c \<Longrightarrow> allowed hooks
    \<Longrightarrow> connection_run ev h allowed c0 (set_crypto hooks c)"

section \<open>The invariant\<close>

text \<open>Hooks work on spans in place, so they keep lengths.\<close>

definition hook_lengths :: "'a crypto_hooks \<Rightarrow> bool" where
  "hook_lengths hooks \<longleftrightarrow> (\<forall>f data flag e. cr_decode_data hooks = Some f \<longrightarrow> length (fst (f data flag e)) = length data)"

definition hooks_kept :: "'a events \<Rightarrow> bool" where
  "hooks_kept ev \<longleftrightarrow>
     (\<forall>f c. ev_established ev = Some f \<longrightarrow> hook_lengths (cn_crypto c) \<longrightarrow> hook_lengths (cn_crypto (f c))) \<and>
     (\<forall>f r c. ev_transaction ev = Some f \<longrightarrow> hook_lengths (cn_crypto c) \<longrightarrow> hook_lengths (cn_crypto (f r c))) \<and>
     (\<forall>f c. ev_closed ev = Some f \<longrightarrow> hook_lengths (cn_crypto c) \<longrightarrow> hook_lengths (cn_crypto (f c)))"

definition held_ok :: "u32 \<Rightarrow> parts \<Rightarrow> bool" where
  "held_ok M m \<longleftrightarrow> (\<forall>key p. m key = Some p \<longrightarrow>
     length (pr_data p) < unat (th_total_size (pr_header p)) \<and> th_total_size (pr_header p) \<le> M)"

text \<open>What is delivered: the total its header announces is positive and within the limit, and the data
  have it.  In one part they are no more; in several they may be, and exceed the limit, but stay
  below twice the limit.\<close>

definition within :: "u32 \<Rightarrow> received_transaction \<Rightarrow> bool" where
  "within M r \<longleftrightarrow> (let total = unat (th_total_size (rt_header r)) in
     0 < total \<and> total \<le> unat M \<and> total \<le> length (rt_data r) \<and> length (rt_data r) < 2 * unat M
     \<and> (th_data_size (rt_header r) = th_total_size (rt_header r) \<longrightarrow> length (rt_data r) = total))"

text \<open>The callbacks a run has made: the establishment at most once and first, then transactions
  within these limits, and the end at most once and last.\<close>

definition calls_ok :: "'a events \<Rightarrow> u32 \<Rightarrow> ReceiveStage \<Rightarrow> ConnectionState \<Rightarrow> callback list \<Rightarrow> bool" where
  "calls_ok ev M stage st cs \<longleftrightarrow> (\<exists>e ts cl. cs = e @ map Transaction ts @ cl
     \<and> (e = [] \<or> e = [Established]) \<and> (cl = [] \<or> cl = [Closed] \<and> st = dead)
     \<and> (stage = stage_handshake \<longrightarrow> e = [] \<and> ts = [])
     \<and> (\<forall>r\<in>set ts. within M r)
     \<and> (ts \<noteq> [] \<or> stage \<noteq> stage_handshake \<and> st \<noteq> dead \<and> st \<noteq> closing
          \<longrightarrow> ev_established ev = None \<or> e = [Established]))"

lemma calls_ok_transaction:
  assumes "calls_ok ev M stage st cs" and "stage \<noteq> stage_handshake" and "st \<noteq> dead" and "st \<noteq> closing"
    and "within M r"
  shows "calls_ok ev M stage st (cs @ [Transaction r])"
proof -
  obtain e ts where c: "cs = e @ map Transaction ts" "e = [] \<or> e = [Established]"
      "\<forall>r\<in>set ts. within M r" "ev_established ev = None \<or> e = [Established]"
    using assms(1-4) unfolding calls_ok_def by auto
  show ?thesis
    unfolding calls_ok_def
    by (rule exI [of _ e], rule exI [of _ "ts @ [r]"], rule exI [of _ "[]"]) (use c assms in auto)
qed

lemma calls_ok_dies:
  assumes "calls_ok ev M stage st cs" and "st \<noteq> dead"
  shows "calls_ok ev M stage dead cs" and "calls_ok ev M stage dead (cs @ [Closed])"
proof -
  obtain e ts where c: "cs = e @ map Transaction ts" "e = [] \<or> e = [Established]"
      "stage = stage_handshake \<longrightarrow> e = [] \<and> ts = []"
      "\<forall>r\<in>set ts. within M r"
      "ts \<noteq> [] \<longrightarrow> ev_established ev = None \<or> e = [Established]"
    using assms unfolding calls_ok_def by auto
  show "calls_ok ev M stage dead cs"
    unfolding calls_ok_def
    by (rule exI [of _ e], rule exI [of _ ts], rule exI [of _ "[]"]) (use c in auto)
  show "calls_ok ev M stage dead (cs @ [Closed])"
    unfolding calls_ok_def
    by (rule exI [of _ e], rule exI [of _ ts], rule exI [of _ "[Closed]"]) (use c in auto)
qed

lemma calls_ok_stage:
  "calls_ok ev M stage st cs \<Longrightarrow> stage \<noteq> stage_handshake \<Longrightarrow> stage' \<noteq> stage_handshake
     \<Longrightarrow> calls_ok ev M stage' st cs"
  unfolding calls_ok_def by blast

lemma calls_ok_handshake:
  "calls_ok ev M stage_handshake st cs \<Longrightarrow> st \<noteq> dead \<Longrightarrow> cs = []"
  unfolding calls_ok_def by auto

definition conn_inv :: "'a events \<Rightarrow> u32 \<Rightarrow> 'a connection \<Rightarrow> bool" where
  "conn_inv ev M c \<longleftrightarrow> cn_max_receive_size c = M \<and> queue_ok c \<and> hook_lengths (cn_crypto c) \<and>
     (cn_stage c = stage_data \<longrightarrow> cn_expected c = unat (th_data_size (cn_pending_header c)) \<and>
        \<not> refused M (cn_pending_header c)) \<and>
     cn_pending_data c = [] \<and> held_ok M (cn_partial c) \<and> calls_ok ev M (cn_stage c) (cn_state c) (cn_callbacks c)"

text \<open>The part of the invariant the send side can change.\<close>

lemma conn_inv_keeps:
  assumes "conn_inv ev M c" and "keeps c d" and "hook_lengths (cn_crypto d)"
  shows "conn_inv ev M d"
proof -
  have c: "calls_ok ev M (cn_stage c) (cn_state c) (cn_callbacks c)" "cn_stage d = cn_stage c"
    using assms(1,2) by (simp_all add: conn_inv_def keeps_def same_receive_def)
  have "calls_ok ev M (cn_stage d) (cn_state d) (cn_callbacks d)"
    using assms(2) c calls_ok_dies [OF c(1)] by (auto simp: keeps_def may_die_def)
  then show ?thesis using assms by (simp add: conn_inv_def keeps_def same_receive_def)
qed

lemma add_part_bounds:
  assumes "held_ok M m" and "\<not> refused M header" and "length data = unat (th_data_size header)"
    and "add_part m header data = (rs, m')"
  shows "held_ok M m' \<and> (\<forall>r\<in>set rs. within M r)"
proof -
  have "unat (th_data_size header) \<noteq> 0" "unat (th_total_size header) \<noteq> 0"
    and pol: "unat (th_total_size header) \<le> unat M" "length data \<le> unat M"
    using assms(2,3) by (simp_all add: refused_def word_less_nat_alt not_less unat_eq_zero)
  then have pos: "0 < unat M" "0 < unat (th_total_size header)" "0 < length data" using assms(3) by linarith+
  let ?held = "case m (th_is_reply header, th_id header) of Some p \<Rightarrow> pr_data p | None \<Rightarrow> []"
  have held: "length ?held < unat M"
    using assms(1) pos(1) by (fastforce simp: held_ok_def word_le_nat_alt split: option.split)
  consider (one) "th_total_size header = th_data_size header"
    | (last) "th_total_size header \<noteq> th_data_size header" "unat (th_total_size header) \<le> length (?held @ data)"
    | (part) "th_total_size header \<noteq> th_data_size header" "\<not> unat (th_total_size header) \<le> length (?held @ data)"
    by blast
  then show ?thesis
  proof cases
    case one
    then have "rs = [\<lparr> rt_header = header, rt_data = data \<rparr>]" "m' = m" using assms(4) by (auto simp: add_part_def)
    then show ?thesis using one assms(1,3) pol pos by (simp add: within_def Let_def)
  next
    case last
    then have "rs = [\<lparr> rt_header = header, rt_data = ?held @ data \<rparr>]" "m' = m((th_is_reply header, th_id header) := None)"
      using assms(4) by (auto simp: add_part_def Let_def)
    then show ?thesis using last assms(1) pol pos held by (simp add: within_def Let_def held_ok_def)
  next
    case part
    then have "rs = []" "m' = m((th_is_reply header, th_id header) \<mapsto> \<lparr> pr_header = header, pr_data = ?held @ data \<rparr>)"
      using assms(4) by (auto simp: add_part_def Let_def)
    then show ?thesis using part assms(1) pol by (simp add: held_ok_def word_le_nat_alt)
  qed
qed

lemma conn_inv_io:
  "conn_inv ev M c \<Longrightarrow> conn_inv ev M (c\<lparr> cn_kernel := k, cn_inbound := bs \<rparr>)"
  "conn_inv ev M c \<Longrightarrow> conn_inv ev M (c\<lparr> cn_inbound := bs \<rparr>)"
  "conn_inv ev M c \<Longrightarrow> conn_inv ev M (c\<lparr> cn_env := e \<rparr>)"
  by (simp_all add: conn_inv_def queue_ok_def)

text \<open>The interface of a role with respect to the invariant.\<close>

locale bounded_application = application ev for ev :: "'a events" +
  assumes hooks: "hooks_kept ev"
begin

lemma hooks_mark_dead: "hook_lengths (cn_crypto c) \<Longrightarrow> hook_lengths (cn_crypto (mark_dead ev c))"
  using hooks by (simp add: mark_dead_died invoke_def hooks_kept_def split: option.split)

lemma hooks_flush: "hook_lengths (cn_crypto c) \<Longrightarrow> hook_lengths (cn_crypto (flush_sends ev c))"
  by (rule flush_invariant) (simp_all add: hooks_mark_dead)

lemma hooks_queue_transaction:
  "hook_lengths (cn_crypto c) \<Longrightarrow> hook_lengths (cn_crypto (queue_transaction ev kind tid data is_reply error c))"
  by (simp add: queue_transaction_def Let_def queue_bytes_def hooks_flush split: option.split prod.split)

lemma inv_mark_dead: "conn_inv ev M c \<Longrightarrow> conn_inv ev M (mark_dead ev c)"
  by (rule conn_inv_keeps [OF _ keeps_mark_dead]) (simp_all add: conn_inv_def hooks_mark_dead)

lemma inv_flush: "conn_inv ev M c \<Longrightarrow> conn_inv ev M (flush_sends ev c)"
  by (rule conn_inv_keeps [OF _ send_side_keeps [OF send_side_flush]]) (simp_all add: conn_inv_def hooks_flush)

lemma inv_queue_transaction: "conn_inv ev M c \<Longrightarrow> conn_inv ev M (queue_transaction ev kind tid data is_reply error c)"
  by (rule conn_inv_keeps [OF _ send_side_keeps [OF send_side_queue_transaction]])
    (simp_all add: conn_inv_def hooks_queue_transaction)

lemma inv_close: "conn_inv ev M c \<Longrightarrow> conn_inv ev M (close_connection c)"
  by (rule conn_inv_keeps [OF _ send_side_keeps [OF send_side_close]])
    (simp_all add: conn_inv_def close_connection_def split: prod.split)

lemma keeps_stage:
  "keeps c d \<Longrightarrow> keeps (c\<lparr> cn_stage := st, cn_expected := n \<rparr>) (d\<lparr> cn_stage := st, cn_expected := n \<rparr>)"
  by (simp add: keeps_def same_receive_def may_die_def queue_ok_def)

lemma inv_dispatch:
  assumes "conn_inv ev M c" and "alive c" and "cn_stage c = stage_data" and "within M \<lparr> rt_header = header, rt_data = data \<rparr>"
  shows "conn_inv ev M (dispatch ev header data c)"
proof (cases "ev_transaction ev")
  case (Some f)
  have "conn_inv ev M (noted header data c)"
    using assms by (simp add: conn_inv_def noted_def queue_ok_def alive_def calls_ok_transaction)
  moreover have "hook_lengths (cn_crypto (dispatch ev header data c))"
    using hooks assms(1) Some by (simp add: dispatch_def invoke_def hooks_kept_def conn_inv_def Let_def)
  ultimately show ?thesis using conn_inv_keeps dispatch_keeps [OF Some] by blast
qed (use assms in \<open>simp add: dispatch_def\<close>)

lemma inv_partial: "conn_inv ev M c \<Longrightarrow> held_ok M m \<Longrightarrow> conn_inv ev M (c\<lparr> cn_partial := m \<rparr>)"
  by (simp add: conn_inv_def)

lemma inv_deliver:
  assumes inv: "conn_inv ev M c" and al: "alive c" "cn_stage c = stage_data"
    and pol: "\<not> refused M (cn_pending_header c)"
    and len: "length data = unat (th_data_size (cn_pending_header c))"
  shows "conn_inv ev M (deliver ev data c)"
proof -
  obtain rs m where a: "add_part (cn_partial c) (cn_pending_header c) data = (rs, m)" by force
  have held: "held_ok M (cn_partial c)" using inv by (simp add: conn_inv_def)
  from add_part_bounds [OF held pol len a]
  have b: "held_ok M m" "\<forall>r\<in>set rs. within M r" by auto
  let ?key = "(th_is_reply (cn_pending_header c), th_id (cn_pending_header c))"
  have dis: "conn_inv ev M (dispatch ev header d c)" if "within M \<lparr> rt_header = header, rt_data = d \<rparr>" for header d
    by (rule inv_dispatch [OF inv al that])
  have part: "conn_inv ev M ((dispatch ev header d (c\<lparr> cn_partial := n \<rparr>))\<lparr> cn_partial := m' \<rparr>)"
    if "within M \<lparr> rt_header = header, rt_data = d \<rparr>" "held_ok M m'" for header d n m'
  proof -
    have "conn_inv ev M ((c\<lparr> cn_partial := m' \<rparr>))" by (rule inv_partial [OF inv that(2)])
    have c1: "conn_inv ev M (noted header d (c\<lparr> cn_partial := m' \<rparr>))"
      using inv al that by (simp add: conn_inv_def noted_def queue_ok_def alive_def calls_ok_transaction)
    show ?thesis
    proof (cases "ev_transaction ev")
      case None
      then show ?thesis using inv_partial [OF inv that(2)] by (simp add: dispatch_def)
    next
      case (Some f)
      let ?d = "dispatch ev header d (c\<lparr> cn_partial := n \<rparr>)"
      have "keeps (noted header d (c\<lparr> cn_partial := n \<rparr>)) ?d" by (rule dispatch_keeps [OF Some])
      then have "keeps (noted header d (c\<lparr> cn_partial := m' \<rparr>)) (?d\<lparr> cn_partial := m' \<rparr>)"
        by (simp add: keeps_def same_receive_def may_die_def noted_def queue_ok_def)
      moreover have "hook_lengths (cn_crypto ?d)"
        using hooks inv Some by (simp add: dispatch_def invoke_def hooks_kept_def conn_inv_def Let_def)
      ultimately show ?thesis using conn_inv_keeps [OF c1] by simp
    qed
  qed
  have same: "cn_partial (dispatch ev header d c') = cn_partial c'" for header d c'
    using dispatch_same_receive by (simp add: same_receive_def)
  show ?thesis
    using a b dis part inv_partial [OF inv]
    by (auto simp: deliver_def add_part_def held_data_def Let_def same split: if_splits)
qed

lemma inv_decode_pending:
  assumes inv: "conn_inv ev M c"
  shows "conn_inv ev M (snd (decode_pending data c)) \<and> length (fst (decode_pending data c)) = length data"
proof (cases "cr_decode_data (cn_crypto c)")
  case (Some f)
  obtain data' e where d: "f data (cn_pending_flag c) (cn_env c) = (data', e)" by force
  have "hook_lengths (cn_crypto c)" using inv by (simp add: conn_inv_def)
  then have "length data' = length data" using Some d unfolding hook_lengths_def by (metis fst_conv)
  then show ?thesis using Some d conn_inv_io(3) [OF inv] by (simp add: decode_pending_def)
qed (use inv in \<open>simp add: decode_pending_def\<close>)

lemma complete_stage: "cn_stage (complete_transaction ev data c) = cn_stage c"
proof -
  have d: "cn_stage (dispatch ev header d c') = cn_stage c'" for header d c'
    using dispatch_same_receive by (simp add: same_receive_def)
  have "cn_stage (snd (decode_pending data c)) = cn_stage c"
    by (simp add: decode_pending_def split: option.split prod.split)
  then show ?thesis
    by (auto simp: complete_transaction_def deliver_def Let_def d split: prod.split)
qed

lemma inv_complete:
  assumes inv: "conn_inv ev M c" and al: "alive c" "cn_stage c = stage_data"
    and pol: "\<not> refused M (cn_pending_header c)"
    and len: "length data = unat (th_data_size (cn_pending_header c))"
  shows "conn_inv ev M (complete_transaction ev data c)"
proof -
  obtain data' c' where d: "decode_pending data c = (data', c')" by force
  from inv_decode_pending [OF inv, of data] have "conn_inv ev M c'" "length data' = length data"
    by (simp_all add: d)
  moreover have "cn_pending_header c' = cn_pending_header c" "alive c'" "cn_stage c' = stage_data"
    using d al by (auto simp: decode_pending_def alive_def split: option.splits prod.splits)
  ultimately show ?thesis
    using inv_deliver [of M c' data'] pol len by (simp add: complete_transaction_def d)
qed

lemma inv_stage:
  "conn_inv ev M c \<Longrightarrow> cn_stage c \<noteq> stage_handshake
     \<Longrightarrow> conn_inv ev M (c\<lparr> cn_stage := stage_header, cn_expected := n \<rparr>)"
  using calls_ok_stage [of ev M "cn_stage c" _ _ stage_header] by (simp add: conn_inv_def queue_ok_def)

end

locale bounded_endpoint = bounded_application ev + endpoint ev handshake_size h
  for ev :: "'a events" and handshake_size and h +
  assumes handshake_inv: "conn_inv ev M c \<Longrightarrow> alive c \<Longrightarrow> cn_stage c = stage_handshake \<Longrightarrow>
      conn_inv ev M ((h c)\<lparr> cn_stage := stage_header, cn_expected := transaction_header_size \<rparr>)"
begin

lemma inv_parse_round:
  assumes inv: "conn_inv ev M c" and round: "parse_round ev h c = Inl c' \<or> parse_round ev h c = Inr c'"
  shows "conn_inv ev M c'"
proof (cases "alive c")
  case False
  then show ?thesis using inv round by (auto simp: alive_def parse_round_def)
next
  case True
  then have al: "\<not> (cn_state c = dead \<or> cn_state c = closing)" by (simp add: alive_def)
  show ?thesis
  proof (cases "cn_stage c")
    case stage_handshake
    then show ?thesis
      using handshake_inv [OF inv True] inv round al by (auto simp: parse_round_def split: if_splits)
  next
    case stage_header
    let ?raw = "take transaction_header_size (cn_inbound c)"
    obtain raw flag e where d: "(case cr_decode_header (cn_crypto c) of
        Some f \<Rightarrow> f ?raw (cn_env c) | None \<Rightarrow> (?raw, 0, cn_env c)) = (raw, flag, e)"
      by (cases "case cr_decode_header (cn_crypto c) of
        Some f \<Rightarrow> f ?raw (cn_env c) | None \<Rightarrow> (?raw, 0, cn_env c)") blast
    let ?c = "c\<lparr> cn_inbound := drop transaction_header_size (cn_inbound c), cn_header_bytes := raw,
      cn_pending_flag := flag, cn_env := e, cn_pending_header := decode_header raw \<rparr>"
    have ok: "conn_inv ev M ?c" using inv stage_header by (simp add: conn_inv_def queue_ok_def)
    have lim: "cn_max_receive_size c = M" using inv by (simp add: conn_inv_def)
    have next_data: "conn_inv ev M (?c\<lparr> cn_pending_data := [], cn_stage := stage_data,
        cn_expected := unat (th_data_size (decode_header raw)) \<rparr>)" if "\<not> refused M (decode_header raw)"
      using ok that stage_header calls_ok_stage [of ev M stage_header _ _ stage_data]
      by (simp add: conn_inv_def queue_ok_def)
    show ?thesis
      using round stage_header al d inv inv_mark_dead [OF ok] next_data lim
      by (auto simp: parse_round_def Let_def split: if_splits)
  next
    case stage_data
    let ?c = "c\<lparr> cn_pending_data := [], cn_inbound := drop (cn_expected c) (cn_inbound c) \<rparr>"
    have facts: "cn_expected c = unat (th_data_size (cn_pending_header c))"
      "\<not> refused M (cn_pending_header c)" "cn_pending_data c = []"
      using inv stage_data by (simp_all add: conn_inv_def)
    have ok: "conn_inv ev M ?c" using inv by (simp add: conn_inv_def queue_ok_def)
    have "conn_inv ev M ((complete_transaction ev (take (cn_expected c) (cn_inbound c)) ?c)
        \<lparr> cn_stage := stage_header, cn_expected := transaction_header_size \<rparr>)"
      if "\<not> length (cn_inbound c) < cn_expected c"
      by (rule inv_stage [OF inv_complete [OF ok]])
        (use facts that stage_data True in \<open>simp_all add: complete_stage alive_def\<close>)
    then show ?thesis
      using round stage_data al inv facts(3) by (auto simp: parse_round_def Let_def split: if_splits)
  qed
qed

lemma inv_service_readable:
  assumes inv: "conn_inv ev M c" and run: "service_readable ev h c = Some d"
  shows "conn_inv ev M d"
proof (cases "cn_state c = dead")
  case False
  obtain b c1 where l: "receive_loop c = (b, c1)" by force
  have "conn_inv ev M (snd (receive_loop c))" by (rule receive_invariant [where P = "conn_inv ev M", OF conn_inv_io(1) inv])
  then have c1: "conn_inv ev M c1" by (simp add: l)
  show ?thesis
  proof (cases b)
    case True
    then have p: "parse_inbound ev h c1 = Some d" using run False l by (simp add: service_readable_def)
    show ?thesis by (rule parse_invariant [where P = "conn_inv ev M", OF _ p c1]) (rule inv_parse_round)
  next
    case False
    then show ?thesis
      using run \<open>cn_state c \<noteq> dead\<close> l inv_mark_dead [OF c1] by (simp add: service_readable_def)
  qed
qed (use inv run in \<open>simp add: service_readable_def\<close>)

lemma run_invariant:
  assumes "connection_run ev h hook_lengths c0 c" and "conn_inv ev M c0"
  shows "conn_inv ev M c"
  using assms
proof (induction rule: connection_run.induct)
  case (readable c d)
  then show ?case using inv_service_readable by blast
next
  case (writable c)
  then show ?case by (simp add: service_writable_def inv_flush)
next
  case (keepalive c)
  then show ?case
    by (cases "encode_field_list []") (simp_all add: queue_keepalive_def inv_queue_transaction)
next
  case (crypto c hooks)
  then show ?case by (simp add: conn_inv_def set_crypto_def queue_ok_def)
qed (simp_all add: inv_queue_transaction inv_close)

end

section \<open>Servicing is total\<close>

context endpoint
begin

lemma stage_ok_keeps: "keeps c d \<Longrightarrow> stage_ok handshake_size d = stage_ok handshake_size c"
  by (simp add: keeps_def same_receive_def stage_ok_def)

lemma stage_ok_parse_round:
  assumes "stage_ok handshake_size c" and "parse_round ev h c = Inl c' \<or> parse_round ev h c = Inr c'"
  shows "stage_ok handshake_size c'"
  using assms(2)
proof
  assume "parse_round ev h c = Inr c'"
  then show ?thesis using parse_round_progress assms(1) by blast
next
  assume "parse_round ev h c = Inl c'"
  then show ?thesis using assms(1)
    by (auto simp: parse_round_def Let_def stage_ok_keeps [OF keeps_mark_dead]
        split: if_splits ReceiveStage.splits prod.splits) (simp_all add: stage_ok_def)
qed

lemma service_readable_total:
  assumes "stage_ok handshake_size c"
  shows "\<exists>d. service_readable ev h c = Some d \<and> stage_ok handshake_size d"
proof -
  obtain b c1 where l: "receive_loop c = (b, c1)" by force
  have "stage_ok handshake_size (snd (receive_loop c))"
    by (rule receive_invariant [where P = "stage_ok handshake_size", OF _ assms]) (simp add: stage_ok_def)
  then have c1: "stage_ok handshake_size c1" by (simp add: l)
  obtain d where d: "parse_inbound ev h c1 = Some d" using parse_inbound_total [OF c1] by blast
  have "stage_ok handshake_size d"
    by (rule parse_invariant [where P = "stage_ok handshake_size", OF _ d c1]) (rule stage_ok_parse_round)
  then show ?thesis
    using assms c1 d stage_ok_keeps [OF keeps_mark_dead, of c1]
    by (simp add: service_readable_def l split: bool.split)
qed

lemma run_stage_ok:
  assumes "connection_run ev h allowed c0 c" and "stage_ok handshake_size c0"
  shows "stage_ok handshake_size c"
  using assms
proof (induction rule: connection_run.induct)
  case (readable c d)
  then show ?case using service_readable_total [of c] by auto
next
  case (writable c)
  then show ?case using stage_ok_keeps [OF send_side_keeps [OF send_side_flush]]
    by (simp add: service_writable_def)
qed (simp_all add: stage_ok_keeps [OF send_side_keeps [OF send_side_queue_transaction]]
    stage_ok_keeps [OF send_side_keeps [OF send_side_keepalive]]
    stage_ok_keeps [OF send_side_keeps [OF send_side_close]]
    stage_ok_keeps [OF send_side_keeps [OF send_side_set_crypto]])

end

section \<open>A dead connection\<close>

text \<open>What a dead connection keeps under every operation: it stays dead, its socket stays closed,
  no callback is invoked again and no system call is made.\<close>

definition absorbed :: "'a connection \<Rightarrow> 'a connection \<Rightarrow> bool" where
  "absorbed c d \<longleftrightarrow> cn_state d = dead \<and> cn_callbacks d = cn_callbacks c
     \<and> cn_socket d = kInvalid \<and> cn_kernel d = cn_kernel c"

lemma flush_dead:
  "cn_state c = dead \<Longrightarrow> cn_socket c = kInvalid \<Longrightarrow> flush_sends ev c = c"
  by (cases "cn_send_queue c")
    (simp_all add: flush_sends.simps [of ev c] socket_send_def socket_is_open_def kInvalid_def mark_dead_def)

lemma absorbed_queue:
  assumes "absorbed c0 c"
  shows "absorbed c0 (queue_transaction ev kind tid data is_reply error c)"
proof -
  obtain e bs where b: "transaction_bytes kind tid data is_reply error c = (e, bs)" by force
  let ?c = "queue_bytes bs (c\<lparr> cn_env := e \<rparr>)"
  have "absorbed c0 ?c" using assms by (simp add: absorbed_def queue_bytes_def)
  then show ?thesis by (simp add: queue_transaction_bytes b flush_dead absorbed_def)
qed

lemma dead_absorbs:
  assumes "connection_run ev h allowed c0 c" and "cn_state c0 = dead" and "cn_socket c0 = kInvalid"
  shows "absorbed c0 c"
  using assms
proof (induction rule: connection_run.induct)
  case (readable c d)
  then show ?case by (simp add: service_readable_def absorbed_def)
next
  case (writable c)
  then show ?case by (simp add: service_writable_def absorbed_def)
next
  case (keepalive c)
  then show ?case by (cases "encode_field_list []") (simp_all add: queue_keepalive_def absorbed_queue)
next
  case (close c)
  then show ?case
    by (simp add: absorbed_def close_connection_def socket_close_def socket_is_open_def kInvalid_def)
qed (simp_all add: absorbed_queue, simp_all add: absorbed_def set_crypto_def)

section \<open>What a receive loop adds\<close>

text \<open>The bytes the kernel delivered on a socket, read off the trace of system calls.\<close>

fun taken :: "int \<Rightarrow> (sys_call \<times> sys_result) list \<Rightarrow> bytes" where
  "taken s [] = []"
| "taken s ((Call_recv d n, Sys_value _ data _ _) # es) = (if d = s then take n data else []) @ taken s es"
| "taken s (_ # es) = taken s es"

lemma taken_append [simp]: "taken s (xs @ ys) = taken s xs @ taken s ys"
  by (induction xs rule: taken.induct) auto

lemma socket_receive_taken:
  assumes "socket_receive s n k = (r, k')"
  shows "taken s (kn_trace k') = taken s (kn_trace k) @ (case r of Inr bs \<Rightarrow> bs | Inl e \<Rightarrow> [])"
  using assms
  by (auto simp: socket_receive_def sys_def Let_def split: if_splits sys_result.splits list.splits)

lemma receive_loop_taken:
  "\<exists>k bs. snd (receive_loop c) = c\<lparr> cn_kernel := k, cn_inbound := cn_inbound c @ bs \<rparr>
     \<and> taken (cn_socket c) (kn_trace k) = taken (cn_socket c) (kn_trace (cn_kernel c)) @ bs"
proof (induction "length (kn_script (cn_kernel c))" arbitrary: c rule: less_induct)
  case less
  obtain r k where s: "socket_receive (cn_socket c) 4096 (cn_kernel c) = (r, k)" by force
  note t = socket_receive_taken [OF s]
  show ?case
  proof (cases r)
    case (Inl e)
    let ?c = "c\<lparr> cn_kernel := k \<rparr>"
    show ?thesis
    proof (cases "e = interrupted")
      case True
      have "length (kn_script k) < length (kn_script (cn_kernel c))"
        using receive_uses_script [OF s] Inl True by simp
      then obtain k' bs where
        "snd (receive_loop ?c) = ?c\<lparr> cn_kernel := k', cn_inbound := cn_inbound ?c @ bs \<rparr>"
        "taken (cn_socket ?c) (kn_trace k') = taken (cn_socket ?c) (kn_trace (cn_kernel ?c)) @ bs"
        using less.hyps [of ?c] by auto
      then show ?thesis using s Inl True t by (intro exI [of _ k'] exI [of _ bs]) (simp add: receive_loop.simps [of c])
    next
      case False
      then show ?thesis using s Inl t
        by (intro exI [of _ k] exI [of _ "[]"]) (cases e; simp add: receive_loop.simps [of c])
    qed
  next
    case (Inr got)
    let ?c = "c\<lparr> cn_kernel := k, cn_inbound := cn_inbound c @ got \<rparr>"
    have "length (kn_script k) < length (kn_script (cn_kernel c))"
      using receive_uses_script [OF s] Inr by simp
    then obtain k' bs where
      "snd (receive_loop ?c) = ?c\<lparr> cn_kernel := k', cn_inbound := cn_inbound ?c @ bs \<rparr>"
      "taken (cn_socket ?c) (kn_trace k') = taken (cn_socket ?c) (kn_trace (cn_kernel ?c)) @ bs"
      using less.hyps [of ?c] by auto
    then show ?thesis using s Inr t
      by (intro exI [of _ k'] exI [of _ "got @ bs"]) (simp add: receive_loop.simps [of c])
  qed
qed

end
