(* ===== verification/Login_Server.thy ===== *)
theory Login_Server
  imports Endpoints Message_Flow Connection_Runs
begin

text \<open>
  A login session behind the callbacks of a server connection.  The owner of a connection is not
  part of the repository, so it is a parameter: \<open>runs_session\<close> is the contract of an owner that
  keeps a session somewhere in its environment and uses it the way \<open>hotline/net/session.h\<close>
  says, giving \<open>Session::process\<close> every transaction; it may close the session, and do what it
  likes otherwise.  A locale carries a property of the owner's environment and the transactions
  received through every run of a connection.  One owner, \<open>session_events\<close>, which queues the
  replies and closes the session with the connection, serves as the instance of the contracts.
\<close>

section \<open>Observing a run\<close>

text \<open>Hooks that leave a part of the environment alone.\<close>

definition hooks_leave :: "('a \<Rightarrow> 'b) \<Rightarrow> 'a crypto_hooks \<Rightarrow> bool" where
  "hooks_leave view hooks \<longleftrightarrow>
     (\<forall>f e. cr_choose_flag hooks = Some f \<longrightarrow> view (snd (f e)) = view e) \<and>
     (\<forall>f wh wd flag e. cr_encode hooks = Some f \<longrightarrow> view (snd (snd (f wh wd flag e))) = view e) \<and>
     (\<forall>f wh e. cr_decode_header hooks = Some f \<longrightarrow> view (snd (snd (f wh e))) = view e) \<and>
     (\<forall>f wd flag e. cr_decode_data hooks = Some f \<longrightarrow> view (snd (f wd flag e)) = view e)"

definition observes :: "('a \<Rightarrow> 'b) \<Rightarrow> ('b \<Rightarrow> received_transaction list \<Rightarrow> bool) \<Rightarrow> 'a connection \<Rightarrow> bool" where
  "observes view Q c \<longleftrightarrow> hooks_leave view (cn_crypto c) \<and> Q (view (cn_env c)) (received (cn_callbacks c))"

lemma observes_env:
  "observes view Q c \<Longrightarrow> cn_crypto d = cn_crypto c \<Longrightarrow> view (cn_env d) = view (cn_env c)
     \<Longrightarrow> received (cn_callbacks d) = received (cn_callbacks c) \<Longrightarrow> observes view Q d"
  by (simp add: observes_def)

lemma decode_pending_view:
  "hooks_leave view (cn_crypto c) \<Longrightarrow> view (cn_env (snd (decode_pending data c))) = view (cn_env c)
     \<and> cn_crypto (snd (decode_pending data c)) = cn_crypto c
     \<and> cn_callbacks (snd (decode_pending data c)) = cn_callbacks c"
  unfolding decode_pending_def hooks_leave_def
  by (auto split: option.split prod.split) (metis snd_conv)

lemma transaction_bytes_view:
  assumes "hooks_leave view (cn_crypto c)"
  shows "view (fst (transaction_bytes kind tid data is_reply error c)) = view (cn_env c)"
proof (cases "cr_choose_flag (cn_crypto c)")
  case (Some pick)
  show ?thesis
  proof (cases "cr_encode (cn_crypto c)")
    case enc: (Some encode)
    obtain flag e where p: "pick (cn_env c) = (flag, e)" by force
    let ?h = "encode_header \<lparr> th_flag = flag, th_is_reply = (if is_reply then 1 else 0), th_type = kind,
      th_id = tid, th_error = error, th_total_size = word_of_nat (length data),
      th_data_size = word_of_nat (length data) \<rparr>"
    obtain wh wd e' where w: "encode ?h data flag e = (wh, wd, e')" by (metis prod_cases3)
    have "view e = view (cn_env c)" "view e' = view e"
      using assms Some enc p w unfolding hooks_leave_def by (metis snd_conv)+
    then show ?thesis using Some enc p w by (simp add: transaction_bytes_def Let_def)
  qed (simp add: transaction_bytes_def Some)
qed (simp add: transaction_bytes_def)

locale watched = application ev for ev :: "'a events" +
  fixes view :: "'a \<Rightarrow> 'b" and Q :: "'b \<Rightarrow> received_transaction list \<Rightarrow> bool"
  assumes observed_transaction: "ev_transaction ev = Some f \<Longrightarrow> observes view Q c
      \<Longrightarrow> observes view Q (f r (c\<lparr> cn_callbacks := cn_callbacks c @ [Transaction r] \<rparr>))"
    and observed_closed: "ev_closed ev = Some g \<Longrightarrow> observes view Q c \<Longrightarrow> observes view Q (g c)"
    and observed_start: "ev_established ev = Some g \<Longrightarrow> observes view Q c \<Longrightarrow> observes view Q (g c)"
begin

lemma observed_mark_dead:
  assumes "observes view Q c"
  shows "observes view Q (mark_dead ev c)"
proof -
  let ?d = "(died c)\<lparr> cn_callbacks := cn_callbacks (died c) @ [Closed] \<rparr>"
  have "observes view Q (died c)" "observes view Q ?d"
    using assms by (simp_all add: observes_def)
  then show ?thesis using assms observed_closed
    by (simp add: mark_dead_died invoke_def split: option.split)
qed

lemma observed_flush: "observes view Q c \<Longrightarrow> observes view Q (flush_sends ev c)"
  by (rule flush_invariant [where P = "observes view Q"]) (simp_all add: observed_mark_dead, simp add: observes_def)

lemma observed_queue:
  assumes "observes view Q c"
  shows "observes view Q (queue_transaction ev kind tid data is_reply error c)"
proof -
  obtain e bs where b: "transaction_bytes kind tid data is_reply error c = (e, bs)" by force
  have "view e = view (cn_env c)"
    using transaction_bytes_view [of view c kind tid data is_reply error] assms by (simp add: b observes_def)
  then have "observes view Q (queue_bytes bs (c\<lparr> cn_env := e \<rparr>))"
    using assms by (simp add: observes_def queue_bytes_def)
  then show ?thesis by (simp add: queue_transaction_bytes b observed_flush)
qed

lemma observed_dispatch: "observes view Q c \<Longrightarrow> observes view Q (dispatch ev header data c)"
  using observed_transaction by (simp add: dispatch_def invoke_def Let_def split: option.split)

lemma observed_deliver: "observes view Q c \<Longrightarrow> observes view Q (deliver ev data c)"
proof -
  assume c: "observes view Q c"
  then have p: "observes view Q (c\<lparr> cn_partial := m \<rparr>)" for m by (simp add: observes_def)
  have "observes view Q ((dispatch ev header d (c\<lparr> cn_partial := m \<rparr>))\<lparr> cn_partial := m' \<rparr>)" for header d m m'
    using observed_dispatch [OF p, of header d m] by (simp add: observes_def)
  then show ?thesis using c p observed_dispatch [OF c] by (simp add: deliver_def Let_def)
qed

lemma observed_complete: "observes view Q c \<Longrightarrow> observes view Q (complete_transaction ev data c)"
proof -
  assume c: "observes view Q c"
  have "observes view Q (snd (decode_pending data c))"
    using c decode_pending_view [of view c data] by (simp add: observes_def)
  then show ?thesis by (simp add: complete_transaction_def observed_deliver case_prod_beta)
qed

lemma observed_established: "observes view Q c \<Longrightarrow> observes view Q (mark_established ev c)"
proof -
  assume "observes view Q c"
  then have "observes view Q (c\<lparr> cn_state := established, cn_callbacks := cn_callbacks c @ [Established] \<rparr>)"
    "observes view Q (c\<lparr> cn_state := established \<rparr>)" by (simp_all add: observes_def)
  then show ?thesis using observed_start by (simp add: mark_established_def invoke_def split: option.split)
qed

lemma observes_fields [simp]:
  "observes view Q (c\<lparr> cn_inbound := bs \<rparr>) = observes view Q c"
  "observes view Q (c\<lparr> cn_state := st \<rparr>) = observes view Q c"
  "observes view Q (queue_bytes bs c) = observes view Q c"
  "observes view Q (c\<lparr> cn_remote_sub_protocol := w, cn_remote_version := v \<rparr>) = observes view Q c"
  by (simp_all add: observes_def queue_bytes_def)

lemma observed_client_handshake: "observes view Q c \<Longrightarrow> observes view Q (client_handle_handshake ev c)"
  by (simp add: client_handle_handshake_def Let_def observed_mark_dead observed_established
      split: option.split sum.split)

lemma observed_server_handshake: "observes view Q c \<Longrightarrow> observes view Q (server_handle_handshake ev c)"
  by (simp add: server_handle_handshake_def Let_def observed_mark_dead observed_established observed_flush
      split: option.split sum.split)

end

locale observed = watched ev view Q + endpoint ev handshake_size h
  for ev :: "'a events" and view :: "'a \<Rightarrow> 'b" and Q and handshake_size and h +
  assumes observed_handshake: "observes view Q c \<Longrightarrow> observes view Q (h c)"
begin

lemma observed_parse_round:
  assumes c: "observes view Q c" and round: "parse_round ev h c = Inl c' \<or> parse_round ev h c = Inr c'"
  shows "observes view Q c'"
proof (cases "cn_stage c")
  case stage_handshake
  have "observes view Q ((h c)\<lparr> cn_stage := stage_header, cn_expected := transaction_header_size \<rparr>)"
    using observed_handshake [OF c] by (simp add: observes_def)
  then show ?thesis using c round stage_handshake by (auto simp: parse_round_def split: if_splits)
next
  case stage_header
  let ?raw = "take transaction_header_size (cn_inbound c)"
  obtain raw flag e where d: "(case cr_decode_header (cn_crypto c) of
      Some f \<Rightarrow> f ?raw (cn_env c) | None \<Rightarrow> (?raw, 0, cn_env c)) = (raw, flag, e)"
    by (metis prod_cases3)
  have "view e = view (cn_env c)"
    using d c by (auto simp: observes_def hooks_leave_def split: option.splits) (metis snd_conv)
  then have ok: "observes view Q (c\<lparr> cn_inbound := drop transaction_header_size (cn_inbound c),
      cn_header_bytes := raw, cn_pending_flag := flag, cn_env := e, cn_pending_header := header \<rparr>)" for header
    using c by (simp add: observes_def)
  then have "observes view Q (c\<lparr> cn_inbound := drop transaction_header_size (cn_inbound c),
      cn_header_bytes := raw, cn_pending_flag := flag, cn_env := e, cn_pending_header := header,
      cn_pending_data := [], cn_stage := st, cn_expected := n \<rparr>)" for header st n
    by (simp add: observes_def)
  then show ?thesis
    using round stage_header d c observed_mark_dead [OF ok]
    by (auto simp: parse_round_def Let_def split: if_splits)
next
  case stage_data
  have "observes view Q (c\<lparr> cn_pending_data := [], cn_inbound := bs \<rparr>)" for bs
    using c by (simp add: observes_def)
  from observed_complete [OF this]
  have "observes view Q ((complete_transaction ev data (c\<lparr> cn_pending_data := [], cn_inbound := bs \<rparr>))
      \<lparr> cn_stage := st, cn_expected := n \<rparr>)" for data bs st n
    by (simp add: observes_def)
  then show ?thesis using round stage_data c by (auto simp: parse_round_def Let_def split: if_splits)
qed

lemma observed_readable:
  assumes c: "observes view Q c" and run: "service_readable ev h c = Some d"
  shows "observes view Q d"
proof (cases "cn_state c = dead")
  case False
  obtain b c1 where l: "receive_loop c = (b, c1)" by force
  have "observes view Q (snd (receive_loop c))"
    by (rule receive_invariant [where P = "observes view Q", OF _ c]) (simp add: observes_def)
  then have c1: "observes view Q c1" by (simp add: l)
  show ?thesis
  proof (cases b)
    case True
    then have p: "parse_inbound ev h c1 = Some d" using run False l by (simp add: service_readable_def)
    show ?thesis
      by (rule parse_invariant [where P = "observes view Q", OF _ p c1]) (rule observed_parse_round)
  next
    case False
    then show ?thesis
      using run \<open>cn_state c \<noteq> dead\<close> l observed_mark_dead [OF c1] by (simp add: service_readable_def)
  qed
qed (use c run in \<open>simp add: service_readable_def\<close>)

lemma observed_run:
  assumes "connection_run ev h (hooks_leave view) c0 c" and "observes view Q c0"
  shows "observes view Q c"
  using assms
proof (induction rule: connection_run.induct)
  case (readable c d)
  then show ?case using observed_readable by blast
next
  case (writable c)
  then show ?case by (simp add: service_writable_def observed_flush)
next
  case (keepalive c)
  then show ?case by (cases "encode_field_list []") (simp_all add: queue_keepalive_def observed_queue)
next
  case (close c)
  then show ?case by (simp add: close_connection_def observes_def split: prod.split)
next
  case (crypto c hooks)
  then show ?case by (simp add: observes_def set_crypto_def)
qed (simp_all add: observed_queue)

end

section \<open>The session behind a connection\<close>

text \<open>The session has processed exactly the transactions that were delivered.\<close>

definition session_view :: "session_config \<Rightarrow> session \<Rightarrow> received_transaction list \<Rightarrow> bool" where
  "session_view config s rs \<longleftrightarrow> (\<exists>hist. session_run config hist s \<and> map fst hist = rs)"

lemma session_view_close: "session_view config s rs \<Longrightarrow> session_view config (session_close s) rs"
  unfolding session_view_def by (blast intro: session_run.close)

lemma session_view_process:
  assumes "session_view config s rs" and "session_process r s = Some (s', out)"
  shows "session_view config s' (rs @ [r])"
proof -
  obtain hist where "session_run config hist s" "map fst hist = rs" using assms(1) unfolding session_view_def by blast
  with session_run.process [OF this(1) assms(2)] show ?thesis
    unfolding session_view_def by (intro exI [of _ "hist @ [(r, out)]"]) simp
qed

section \<open>An owner with a session\<close>

definition runs_session :: "('a \<Rightarrow> session) \<Rightarrow> 'a events \<Rightarrow> bool" where
  "runs_session get ev \<longleftrightarrow>
     (\<forall>f r c. ev_transaction ev = Some f \<longrightarrow> hooks_leave get (cn_crypto c) \<longrightarrow>
        hooks_leave get (cn_crypto (f r c)) \<and>
        (\<exists>s out. session_process r (get (cn_env c)) = Some (s, out)
           \<and> (get (cn_env (f r c)) = s \<or> get (cn_env (f r c)) = session_close s))) \<and>
     (\<forall>g c. ev_established ev = Some g \<or> ev_closed ev = Some g \<longrightarrow> hooks_leave get (cn_crypto c) \<longrightarrow>
        hooks_leave get (cn_crypto (g c)) \<and>
        (get (cn_env (g c)) = get (cn_env c) \<or> get (cn_env (g c)) = session_close (get (cn_env c))))"

lemma send_side_received: "send_side f \<Longrightarrow> received (cn_callbacks (f c)) = received (cn_callbacks c)"
  using send_side_keeps [of f c] by (auto simp: keeps_def may_die_def)

lemma runs_session_watched:
  fixes ev :: "'a events"
  assumes "lawful_events ev" and "runs_session get ev"
  shows "watched ev get (session_view config)"
proof (rule watched.intro)
  show "application ev" using assms(1) by (simp add: application_def)
  show "watched_axioms ev get (session_view config)"
  proof
    fix f r and c :: "'a connection"
    let ?c = "c\<lparr> cn_callbacks := cn_callbacks c @ [Transaction r] \<rparr>"
    assume f: "ev_transaction ev = Some f" and c: "observes get (session_view config) c"
    have "send_side (f r)" using assms(1) f by (simp add: lawful_events_def)
    then have "received (cn_callbacks (f r ?c)) = received (cn_callbacks c) @ [r]" by (simp add: send_side_received)
    moreover have "hooks_leave get (cn_crypto ?c)" using c by (simp add: observes_def)
    then obtain s out where "hooks_leave get (cn_crypto (f r ?c))" "session_process r (get (cn_env ?c)) = Some (s, out)"
      "get (cn_env (f r ?c)) = s \<or> get (cn_env (f r ?c)) = session_close s"
      using assms(2) f unfolding runs_session_def by blast
    ultimately show "observes get (session_view config) (f r ?c)"
      using c session_view_process session_view_close by (auto simp: observes_def)
  next
    fix g and c :: "'a connection"
    assume g: "ev_closed ev = Some g" and c: "observes get (session_view config) c"
    have "send_side g" using assms(1) g by (simp add: lawful_events_def)
    then show "observes get (session_view config) (g c)"
      using assms(2) g c session_view_close unfolding runs_session_def observes_def by (metis send_side_received)
  next
    fix g and c :: "'a connection"
    assume g: "ev_established ev = Some g" and c: "observes get (session_view config) c"
    have "send_side g" using assms(1) g by (simp add: lawful_events_def)
    then show "observes get (session_view config) (g c)"
      using assms(2) g c session_view_close unfolding runs_session_def observes_def by (metis send_side_received)
  qed
qed

lemma runs_session_server:
  assumes "lawful_events ev" and "runs_session get ev"
  shows "observed ev get (session_view config) kClientHandshakeSize (server_handle_handshake ev)"
proof -
  note w = runs_session_watched [OF assms, of config]
  have "endpoint ev kClientHandshakeSize (server_handle_handshake ev)"
    using assms(1) application.server_handshake_lawful [of ev]
    by (simp add: endpoint_def endpoint_axioms_def application_def)
  with w show ?thesis
    using watched.observed_server_handshake [OF w] by (simp add: observed_def observed_axioms_def)
qed

section \<open>One owner\<close>

record session_env =
  sv_session :: session
  sv_cipher :: transaction_cipher
  sv_flags :: "u8 list"

definition session_closing :: "session_env connection \<Rightarrow> session_env connection" where
  "session_closing c = c\<lparr> cn_env := (cn_env c)\<lparr> sv_session := session_close (sv_session (cn_env c)) \<rparr> \<rparr>"

definition closing_events :: "session_env events" where
  "closing_events = no_events\<lparr> ev_closed := Some session_closing \<rparr>"

definition queue_reply :: "u16 \<Rightarrow> outgoing_reply \<Rightarrow> session_env connection \<Rightarrow> session_env connection" where
  "queue_reply kind reply c =
     (case encode_field_list (or_fields reply) of
        Inr body \<Rightarrow> queue_transaction closing_events kind (or_id reply) body True (or_error reply) c
      | Inl _ \<Rightarrow> c)"

definition session_transaction :: "received_transaction \<Rightarrow> session_env connection \<Rightarrow> session_env connection" where
  "session_transaction r c =
     (case session_process r (sv_session (cn_env c)) of
        None \<Rightarrow> c
      | Some (s, out) \<Rightarrow>
          (let c1 = c\<lparr> cn_env := (cn_env c)\<lparr> sv_session := s \<rparr> \<rparr>
           in case out of None \<Rightarrow> c1 | Some reply \<Rightarrow> queue_reply (th_type (rt_header r)) reply c1))"

definition session_events :: "session_env events" where
  "session_events = closing_events\<lparr> ev_transaction := Some session_transaction \<rparr>"

lemma session_events_simps [simp]:
  "ev_established session_events = None" "ev_transaction session_events = Some session_transaction"
  "ev_closed session_events = Some session_closing"
  "ev_established closing_events = None" "ev_transaction closing_events = None"
  "ev_closed closing_events = Some session_closing"
  "ev_established no_events = None" "ev_transaction no_events = None" "ev_closed no_events = None"
  by (simp_all add: session_events_def closing_events_def no_events_def)

lemma send_side_session_closing: "send_side session_closing"
  using send_side_env [of "\<lambda>e. e\<lparr> sv_session := session_close (sv_session e) \<rparr>"]
  by (simp add: session_closing_def [abs_def])

interpretation quiet: application no_events
  by unfold_locales (simp add: lawful_events_def)

interpretation closing: application closing_events
  by unfold_locales (simp add: lawful_events_def send_side_session_closing)

lemma send_side_queue_reply: "send_side (queue_reply kind reply)"
  by (cases "encode_field_list (or_fields reply)")
    (simp_all add: queue_reply_def [abs_def] closing.send_side_queue_transaction)

lemma send_side_session_transaction: "send_side (session_transaction r)"
proof (rule send_sideI)
  fix c :: "session_env connection" and bs
  obtain s out where p: "session_process r (sv_session (cn_env c)) = Some (s, out)"
    using session_process_total by blast
  let ?c = "c\<lparr> cn_env := (cn_env c)\<lparr> sv_session := s \<rparr> \<rparr>"
  have k: "keeps c ?c" by (simp add: keeps_def same_receive_def may_die_def queue_ok_def)
  show "keeps c (session_transaction r c)"
    using p k keeps_trans [OF k send_side_keeps [OF send_side_queue_reply]]
    by (simp add: session_transaction_def Let_def split: option.split)
  show "session_transaction r (c\<lparr> cn_inbound := bs \<rparr>) = (session_transaction r c)\<lparr> cn_inbound := bs \<rparr>"
    using p send_side_inbound [OF send_side_queue_reply, where c = ?c]
    by (simp add: session_transaction_def Let_def split: option.split)
qed

interpretation owner: application session_events
  by unfold_locales (simp add: lawful_events_def send_side_session_closing send_side_session_transaction)

section \<open>That owner runs its session\<close>

definition same_or_closed :: "session \<Rightarrow> session \<Rightarrow> received_transaction list \<Rightarrow> bool" where
  "same_or_closed s s' rs \<longleftrightarrow> s' = s \<or> s' = session_close s"

interpretation closing_watched: watched closing_events sv_session "same_or_closed s" for s
  by unfold_locales (auto simp: observes_def session_closing_def same_or_closed_def session_close_def)

lemma queue_reply_session:
  assumes "hooks_leave sv_session (cn_crypto c)" and "sv_session (cn_env c) = s"
  shows "observes sv_session (same_or_closed s) (queue_reply kind reply c)"
proof -
  have "observes sv_session (same_or_closed s) c" using assms by (simp add: observes_def same_or_closed_def)
  then show ?thesis by (simp add: queue_reply_def closing_watched.observed_queue split: sum.split)
qed

lemma session_events_run: "runs_session sv_session session_events"
proof -
  have t: "hooks_leave sv_session (cn_crypto (session_transaction r c)) \<and>
      (\<exists>s out. session_process r (sv_session (cn_env c)) = Some (s, out)
         \<and> same_or_closed s (sv_session (cn_env (session_transaction r c))) rs)"
    if c: "hooks_leave sv_session (cn_crypto c)" for r c rs
  proof -
    obtain s out where p: "session_process r (sv_session (cn_env c)) = Some (s, out)"
      using session_process_total by blast
    let ?c = "c\<lparr> cn_env := (cn_env c)\<lparr> sv_session := s \<rparr> \<rparr>"
    have "observes sv_session (same_or_closed s) (queue_reply kind reply ?c)" for kind reply
      by (rule queue_reply_session) (use c in simp_all)
    then have "hooks_leave sv_session (cn_crypto (session_transaction r c))
        \<and> same_or_closed s (sv_session (cn_env (session_transaction r c))) rs"
      using p c by (simp add: session_transaction_def Let_def observes_def same_or_closed_def split: option.split)
    with p show ?thesis by blast
  qed
  show ?thesis unfolding runs_session_def
    using t by (auto simp: session_closing_def same_or_closed_def)
qed

interpretation owner_watched: watched session_events sv_session "session_view config" for config
  by (rule runs_session_watched [OF owner.lawful session_events_run])

interpretation login_server: observed session_events sv_session "session_view config"
  kClientHandshakeSize "server_handle_handshake session_events" for config
  by (rule runs_session_server [OF owner.lawful session_events_run])

end
