(* ===== verification/Role_Contracts.thy ===== *)
theory Role_Contracts
  imports Login_Server
begin

text \<open>
  The handshake handlers of both roles meet the contract of the run invariant, and the contracts
  of a connection are interpreted on the two roles: on the client with its default, empty
  callbacks and on the server with a login session behind it, plain and encrypted.
\<close>

section \<open>The handlers keep the run invariant\<close>

lemma calls_ok_stopped:
  "calls_ok ev M stage st cs \<Longrightarrow> st = dead \<or> st = closing \<Longrightarrow> calls_ok ev M stage_header st cs"
  unfolding calls_ok_def by blast

context bounded_application
begin

lemma inv_stopped:
  "conn_inv ev M c \<Longrightarrow> cn_state c = dead \<or> cn_state c = closing
     \<Longrightarrow> conn_inv ev M (c\<lparr> cn_stage := stage_header, cn_expected := n \<rparr>)"
  using calls_ok_stopped [of ev M "cn_stage c"] by (auto simp: conn_inv_def queue_ok_def)

lemma inv_established:
  assumes inv: "conn_inv ev M c" and c: "alive c" "cn_stage c = stage_handshake"
    and d: "keeps (mark_established ev c) d" and hooks_d: "hook_lengths (cn_crypto d)"
  shows "conn_inv ev M (d\<lparr> cn_stage := stage_header, cn_expected := n \<rparr>)"
proof -
  let ?N = "\<lambda>c. c\<lparr> cn_stage := stage_header, cn_expected := n \<rparr>"
  have calls: "cn_callbacks c = []"
    using inv c calls_ok_handshake by (auto simp: conn_inv_def alive_def)
  show ?thesis
  proof (cases "ev_established ev")
    case None
    then have e: "mark_established ev c = c\<lparr> cn_state := established \<rparr>"
      by (simp add: mark_established_def invoke_def)
    have "conn_inv ev M (?N (c\<lparr> cn_state := established \<rparr>))"
      using inv calls None by (simp add: conn_inv_def queue_ok_def calls_ok_def)
    then show ?thesis using conn_inv_keeps [OF _ keeps_stage [OF d]] hooks_d by (simp add: e)
  next
    case (Some g)
    let ?c = "c\<lparr> cn_state := established, cn_callbacks := [Established] \<rparr>"
    have e: "mark_established ev c = g ?c"
      using Some by (simp add: mark_established_def invoke_def calls)
    have "calls_ok ev M stage_header established [Established]"
      unfolding calls_ok_def
      by (rule exI [of _ "[Established]"], rule exI [of _ "[]"], rule exI [of _ "[]"]) simp
    then have "conn_inv ev M (?N ?c)" using inv by (simp add: conn_inv_def queue_ok_def)
    moreover have "keeps ?c d"
      using keeps_trans [OF send_side_keeps [OF established_law [OF Some]]] d by (simp add: e)
    ultimately show ?thesis using conn_inv_keeps [OF _ keeps_stage] hooks_d by simp
  qed
qed

lemma hooks_mark_established:
  "hook_lengths (cn_crypto c) \<Longrightarrow> hook_lengths (cn_crypto (mark_established ev c))"
  using hooks by (simp add: mark_established_def invoke_def hooks_kept_def split: option.split)

lemma inv_handshake_fields:
  "conn_inv ev M (c\<lparr> cn_inbound := bs \<rparr>) = conn_inv ev M c"
  "conn_inv ev M (c\<lparr> cn_remote_sub_protocol := w, cn_remote_version := v \<rparr>) = conn_inv ev M c"
  "conn_inv ev M c \<Longrightarrow> conn_inv ev M (queue_bytes bs c)"
  by (auto simp: conn_inv_def queue_ok_def queue_bytes_def)

lemma client_handshake_inv:
  assumes "conn_inv ev M c" and "alive c" and "cn_stage c = stage_handshake"
  shows "conn_inv ev M ((client_handle_handshake ev c)\<lparr> cn_stage := stage_header, cn_expected := n \<rparr>)"
proof -
  have c: "conn_inv ev M (c\<lparr> cn_inbound := bs \<rparr>)" "alive (c\<lparr> cn_inbound := bs \<rparr>)"
    "cn_stage (c\<lparr> cn_inbound := bs \<rparr>) = stage_handshake" for bs
    using assms by (simp_all add: inv_handshake_fields alive_def)
  have crypto: "hook_lengths (cn_crypto c)" using assms(1) by (simp add: conn_inv_def)
  have ok: "conn_inv ev M ((mark_established ev (c\<lparr> cn_inbound := bs \<rparr>))
      \<lparr> cn_stage := stage_header, cn_expected := n \<rparr>)" for bs
    by (rule inv_established [OF c keeps_refl]) (rule hooks_mark_established, simp add: crypto)
  have dead: "conn_inv ev M ((mark_dead ev c')\<lparr> cn_stage := stage_header, cn_expected := n \<rparr>)"
    if "conn_inv ev M c'" for c'
    by (rule inv_stopped [OF inv_mark_dead [OF that]]) simp
  show ?thesis
    using ok dead [OF assms(1)] dead [OF c(1)]
    by (simp add: client_handle_handshake_def Let_def split: option.split sum.split)
qed

lemma inv_closing:
  assumes "conn_inv ev M c" and "alive c" and "cn_stage c = stage_handshake"
  shows "conn_inv ev M ((flush_sends ev (c\<lparr> cn_state := closing \<rparr>))\<lparr> cn_stage := stage_header, cn_expected := n \<rparr>)"
proof (rule inv_stopped)
  have "cn_callbacks c = []" using assms calls_ok_handshake by (auto simp: conn_inv_def alive_def)
  then have "conn_inv ev M (c\<lparr> cn_state := closing \<rparr>)"
    using assms by (simp add: conn_inv_def queue_ok_def calls_ok_def)
  then show "conn_inv ev M (flush_sends ev (c\<lparr> cn_state := closing \<rparr>))" by (rule inv_flush)
  have "keeps (c\<lparr> cn_state := closing \<rparr>) (flush_sends ev (c\<lparr> cn_state := closing \<rparr>))"
    by (rule send_side_keeps [OF send_side_flush])
  then show "cn_state (flush_sends ev (c\<lparr> cn_state := closing \<rparr>)) = dead \<or>
      cn_state (flush_sends ev (c\<lparr> cn_state := closing \<rparr>)) = closing"
    by (auto simp: keeps_def may_die_def)
qed

lemma server_handshake_inv:
  assumes "conn_inv ev M c" and "alive c" and "cn_stage c = stage_handshake"
  shows "conn_inv ev M ((server_handle_handshake ev c)\<lparr> cn_stage := stage_header, cn_expected := n \<rparr>)"
proof -
  let ?q = "\<lambda>reply w v bs. (queue_bytes reply (c\<lparr> cn_remote_sub_protocol := w, cn_remote_version := v \<rparr>))
    \<lparr> cn_inbound := bs \<rparr>"
  have q: "conn_inv ev M (?q reply w v bs)" "alive (?q reply w v bs)"
    "cn_stage (?q reply w v bs) = stage_handshake" for reply w v bs
    using assms by (simp_all add: inv_handshake_fields, simp_all add: alive_def queue_bytes_def)
  have crypto: "hook_lengths (cn_crypto (?q reply w v bs))" for reply w v bs
    using assms(1) by (simp add: conn_inv_def queue_bytes_def)
  have ok: "conn_inv ev M ((flush_sends ev (mark_established ev (?q reply w v bs)))
      \<lparr> cn_stage := stage_header, cn_expected := n \<rparr>)" for reply w v bs
    by (rule inv_established [OF q send_side_keeps [OF send_side_flush]])
      (intro hooks_flush hooks_mark_established crypto)
  have reject: "conn_inv ev M ((flush_sends ev ((?q reply w v bs)\<lparr> cn_state := closing \<rparr>))
      \<lparr> cn_stage := stage_header, cn_expected := n \<rparr>)" for reply w v bs
    by (rule inv_closing [OF q])
  have dead: "conn_inv ev M ((mark_dead ev c')\<lparr> cn_stage := stage_header, cn_expected := n \<rparr>)"
    if "conn_inv ev M c'" for c'
    by (rule inv_stopped [OF inv_mark_dead [OF that]]) simp
  have "conn_inv ev M (c\<lparr> cn_remote_sub_protocol := w, cn_remote_version := v, cn_inbound := bs \<rparr>)" for w v bs
    using assms(1) by (simp add: inv_handshake_fields)
  then show ?thesis
    using dead [OF assms(1)] dead ok reject
    by (simp add: server_handle_handshake_def Let_def split: option.split sum.split)
qed

end

sublocale bounded_application \<subseteq> client: bounded_endpoint ev kServerHandshakeReplySize "client_handle_handshake ev"
  by unfold_locales (rule client_handshake_lawful, rule client_handshake_inv)

sublocale bounded_application \<subseteq> server: bounded_endpoint ev kClientHandshakeSize "server_handle_handshake ev"
  by unfold_locales (rule server_handshake_lawful, rule server_handshake_inv)

section \<open>Instances\<close>

interpretation quiet_owner: bounded_application no_events
  by unfold_locales (simp add: hooks_kept_def)

interpretation quiet_client: bounded_endpoint no_events kServerHandshakeReplySize
  "client_handle_handshake no_events"
  by (rule quiet_owner.client.bounded_endpoint_axioms)

lemma queue_reply_crypto:
  assumes "closing_keeps closing_events p"
    and "p (cn_crypto c) (fst (transaction_bytes kind (or_id reply) body True (or_error reply) c)) = p (cn_crypto c) (cn_env c)"
    and "encode_field_list (or_fields reply) = Inr body"
  shows "p (cn_crypto (queue_reply kind reply c)) (cn_env (queue_reply kind reply c)) = p (cn_crypto c) (cn_env c)"
proof -
  obtain e bs where b: "transaction_bytes kind (or_id reply) body True (or_error reply) c = (e, bs)" by force
  have "p (cn_crypto (flush_sends closing_events (queue_bytes bs (c\<lparr> cn_env := e \<rparr>))))
      (cn_env (flush_sends closing_events (queue_bytes bs (c\<lparr> cn_env := e \<rparr>)))) = p (cn_crypto c) e"
    using flush_env [OF assms(1), of "queue_bytes bs (c\<lparr> cn_env := e \<rparr>)"] by (simp add: queue_bytes_def)
  then show ?thesis using assms(2,3) by (simp add: queue_reply_def queue_transaction_bytes b)
qed

lemma session_transaction_crypto:
  assumes keeps: "closing_keeps closing_events p"
    and send: "\<And>d kind tid body reply error. cn_crypto d = cn_crypto c \<Longrightarrow>
      p (cn_crypto d) (fst (transaction_bytes kind tid body reply error d)) = p (cn_crypto d) (cn_env d)"
    and env: "\<And>hooks e s. p hooks (e\<lparr> sv_session := s \<rparr>) = p hooks e"
  shows "p (cn_crypto (session_transaction r c)) (cn_env (session_transaction r c)) = p (cn_crypto c) (cn_env c)"
proof -
  obtain s out where pr: "session_process r (sv_session (cn_env c)) = Some (s, out)"
    using session_process_total by blast
  let ?c = "c\<lparr> cn_env := (cn_env c)\<lparr> sv_session := s \<rparr> \<rparr>"
  have "p (cn_crypto (queue_reply kind reply ?c)) (cn_env (queue_reply kind reply ?c))
      = p (cn_crypto ?c) (cn_env ?c)" for kind reply
  proof (cases "encode_field_list (or_fields reply)")
    case (Inr body)
    show ?thesis by (rule queue_reply_crypto [OF keeps send Inr]) simp
  qed (simp add: queue_reply_def)
  then show ?thesis by (simp add: session_transaction_def pr Let_def env split: option.split)
qed

lemma session_keeps_crypto: "cn_crypto (session_transaction r c) = cn_crypto c"
  by (rule session_transaction_crypto [where p = "\<lambda>hooks e. hooks"])
    (simp_all add: closing_keeps_def session_closing_def)

interpretation login_owner: bounded_application session_events
  by unfold_locales (simp add: hooks_kept_def session_keeps_crypto session_closing_def)

interpretation plain_login: receiver session_events kClientHandshakeSize
  "server_handle_handshake session_events" no_crypto "\<lambda>_. ()" plain_decodes
  by unfold_locales (simp add: lawful_receiver_def session_keeps_crypto, rule plain_hooks_decode)

text \<open>The cipher of the session's environment.\<close>

definition put_cipher :: "transaction_cipher \<Rightarrow> session_env \<Rightarrow> session_env" where
  "put_cipher t e = e\<lparr> sv_cipher := t \<rparr>"

definition pick_flag :: "session_env \<Rightarrow> u8 \<times> session_env" where
  "pick_flag e = (case sv_flags e of [] \<Rightarrow> (0, e) | flag # flags \<Rightarrow> (flag, e\<lparr> sv_flags := flags \<rparr>))"

definition session_hooks :: "digest_alg \<Rightarrow> session_env crypto_hooks" where
  "session_hooks H = cipher_hooks H sv_cipher put_cipher pick_flag"

lemma session_cipher_place: "cipher_place sv_cipher put_cipher pick_flag"
  by (simp add: cipher_place_def put_cipher_def pick_flag_def split: list.split)

lemma cipher_bytes_dec_lane:
  assumes "cipher_place get put pick" and "cn_crypto c = cipher_hooks H get put pick"
  shows "dec_lane (get (fst (transaction_bytes kind tid body is_reply error c))) = dec_lane (get (cn_env c))"
proof -
  obtain flag e where p: "pick (cn_env c) = (flag, e)" by force
  have g: "get e = get (cn_env c)" "\<And>t. get (put t e) = t"
    using assms(1) p by (auto simp: cipher_place_def) (metis snd_conv)
  show ?thesis
    using g tc_encode_dec_lane
    by (auto simp: transaction_bytes_def assms(2) cipher_hooks_def p Let_def split: option.split prod.split)
qed

lemma session_lane:
  assumes "cn_crypto c = session_hooks H"
  shows "dec_lane (sv_cipher (cn_env (session_transaction r c))) = dec_lane (sv_cipher (cn_env c))"
proof (rule session_transaction_crypto [where p = "\<lambda>hooks e. dec_lane (sv_cipher e)"])
  show "dec_lane (sv_cipher (fst (transaction_bytes kind tid body reply error d))) = dec_lane (sv_cipher (cn_env d))"
    if "cn_crypto d = cn_crypto c" for d kind tid body reply error
    by (rule cipher_bytes_dec_lane [OF session_cipher_place]) (use that assms in \<open>simp add: session_hooks_def\<close>)
qed (simp_all add: closing_keeps_def session_closing_def)

interpretation encrypted_login: receiver session_events kClientHandshakeSize
  "server_handle_handshake session_events" "session_hooks H" "\<lambda>e. dec_lane (sv_cipher e)" "cipher_decodes H" for H
proof unfold_locales
  show "lawful_receiver session_events (session_hooks H) (\<lambda>e. dec_lane (sv_cipher e))"
    using session_lane by (simp add: lawful_receiver_def session_keeps_crypto)
  show "hooks_decode (session_hooks H) (\<lambda>e. dec_lane (sv_cipher e)) (cipher_decodes H)"
    unfolding session_hooks_def by (rule cipher_hooks_decode [OF session_cipher_place])
qed

end
