(* ===== verification/Role_Runs.thy ===== *)
theory Role_Runs
  imports Role_Contracts
begin

text \<open>
  What the properties of connections are stated over: the two roles with their handlers, a
  connection as a role opens it, servicing a connection with the bytes of the peer in any cut,
  and the delivery of a list of messages from the send queue of one connection to the callbacks
  of another.
\<close>

section \<open>Roles\<close>

datatype role = client_role | server_role

definition role_size :: "role \<Rightarrow> nat" where
  "role_size r = (case r of client_role \<Rightarrow> kServerHandshakeReplySize | server_role \<Rightarrow> kClientHandshakeSize)"

definition role_handler :: "role \<Rightarrow> 'a events \<Rightarrow> 'a connection \<Rightarrow> 'a connection" where
  "role_handler r = (case r of client_role \<Rightarrow> client_handle_handshake | server_role \<Rightarrow> server_handle_handshake)"

definition role_open :: "role \<Rightarrow> 'a events \<Rightarrow> u32 \<Rightarrow> socket \<Rightarrow> 'a \<Rightarrow> kernel \<Rightarrow> 'a connection" where
  "role_open r ev max_receive_size s env k =
     (case r of
        client_role \<Rightarrow> client_start ev s kSubProtocolHotl kClientSubVersion (client_new max_receive_size env k)
      | server_role \<Rightarrow> server_start s (server_new max_receive_size env k))"

lemma role_endpoint:
  assumes "lawful_events ev"
  shows "endpoint ev (role_size r) (role_handler r ev)"
proof -
  have app: "application ev" using assms by (simp add: application_def)
  have "lawful_handshake (role_size r) (role_handler r ev)"
    unfolding role_size_def role_handler_def
    using application.client_handshake_lawful [OF app] application.server_handshake_lawful [OF app]
    by (simp del: kServerHandshakeReplySize_def kClientHandshakeSize_def split: role.split)
  with app show ?thesis by (simp add: endpoint_def endpoint_axioms_def)
qed

lemma role_bounded:
  assumes "lawful_events ev" and "hooks_kept ev"
  shows "bounded_endpoint ev (role_size r) (role_handler r ev)"
proof -
  have b: "bounded_application ev"
    using assms by (simp add: bounded_application_def application_def bounded_application_axioms_def)
  have "conn_inv ev M ((role_handler r ev c)\<lparr> cn_stage := stage_header, cn_expected := transaction_header_size \<rparr>)"
    if "conn_inv ev M c" "alive c" "cn_stage c = stage_handshake" for M c
    using bounded_application.client_handshake_inv [OF b that]
      bounded_application.server_handshake_inv [OF b that]
    by (simp add: role_handler_def split: role.split)
  with b role_endpoint [OF assms(1), of r] show ?thesis
    by (simp add: bounded_endpoint_def bounded_endpoint_axioms_def)
qed

lemma role_receiver:
  assumes "lawful_events ev" and "lawful_receiver ev hooks lane" and "hooks_decode hooks lane R"
  shows "receiver ev (role_size r) (role_handler r ev) hooks lane R"
  using assms role_endpoint [OF assms(1), of r]
  by (simp add: receiver_def receiver_axioms_def)

section \<open>Opening\<close>

lemma conn_inv_new:
  assumes "cn_stage c = stage_handshake" and "cn_send_queue c = []" and "cn_state c \<noteq> dead"
    and "cn_pending_data c = []" and "cn_partial c = (\<lambda>_. None)" and "cn_callbacks c = []"
    and "cn_crypto c = no_crypto"
  shows "conn_inv ev (cn_max_receive_size c) c"
  using assms by (simp add: conn_inv_def queue_ok_def hook_lengths_def no_crypto_def held_ok_def calls_ok_def)

lemma attach_socket_fields [simp]:
  "cn_stage (attach_socket s c) = cn_stage c" "cn_send_queue (attach_socket s c) = cn_send_queue c"
  "cn_pending_data (attach_socket s c) = cn_pending_data c" "cn_partial (attach_socket s c) = cn_partial c"
  "cn_callbacks (attach_socket s c) = cn_callbacks c" "cn_crypto (attach_socket s c) = cn_crypto c"
  "cn_max_receive_size (attach_socket s c) = cn_max_receive_size c"
  "cn_expected (attach_socket s c) = cn_expected c" "cn_inbound (attach_socket s c) = cn_inbound c"
  "cn_socket (attach_socket s c) = s"
  by (simp_all add: attach_socket_def socket_move_assign_def split: prod.split)

lemma connection_new_fields [simp]:
  "cn_stage (connection_new m e k) = stage_handshake" "cn_send_queue (connection_new m e k) = []"
  "cn_pending_data (connection_new m e k) = []" "cn_partial (connection_new m e k) = (\<lambda>_. None)"
  "cn_callbacks (connection_new m e k) = []" "cn_crypto (connection_new m e k) = no_crypto"
  "cn_max_receive_size (connection_new m e k) = m" "cn_inbound (connection_new m e k) = []"
  by (simp_all add: connection_new_def)

lemma role_open_inv:
  assumes "lawful_events ev" and "hooks_kept ev"
  shows "conn_inv ev M (role_open r ev M s env k)" and "stage_ok (role_size r) (role_open r ev M s env k)"
proof -
  have b: "bounded_application ev"
    using assms by (simp add: bounded_application_def application_def bounded_application_axioms_def)
  let ?c = "(attach_socket s (client_new M env k))\<lparr> cn_state := awaiting_handshake_reply \<rparr>"
  let ?s = "(attach_socket s (server_new M env k))\<lparr> cn_state := awaiting_handshake \<rparr>"
  have c: "conn_inv ev M (queue_bytes bs ?c)" for bs
  proof -
    have "conn_inv ev M ?c" using conn_inv_new [of ?c ev] by (simp add: client_new_def)
    then show ?thesis by (rule bounded_application.inv_handshake_fields(3) [OF b])
  qed
  have f: "conn_inv ev M (flush_sends ev (queue_bytes bs ?c))" for bs
    by (rule bounded_application.inv_flush [OF b c])
  have s: "conn_inv ev M ?s" using conn_inv_new [of ?s ev] by (simp add: server_new_def)
  show "conn_inv ev M (role_open r ev M s env k)"
    using f s by (simp add: role_open_def client_start_def server_start_def Let_def split: role.split)
  have "keeps (queue_bytes bs ?c) (flush_sends ev (queue_bytes bs ?c))" for bs
    by (rule send_side_keeps [OF application.send_side_flush]) (use assms in \<open>simp add: application_def\<close>)
  then have "stage_ok kServerHandshakeReplySize (flush_sends ev (queue_bytes bs ?c))" for bs
    by (simp add: stage_ok_def keeps_def same_receive_def queue_bytes_def client_new_def split: if_splits)
  then show "stage_ok (role_size r) (role_open r ev M s env k)"
    by (simp add: role_open_def client_start_def server_start_def Let_def role_size_def split: role.split)
      (simp add: stage_ok_def server_new_def)
qed

section \<open>Servicing with the bytes of the peer\<close>

text \<open>Bytes that arrive in pieces, the parser running after each.\<close>

fun serve :: "role \<Rightarrow> 'a events \<Rightarrow> bytes list \<Rightarrow> 'a connection \<Rightarrow> 'a connection option" where
  "serve r ev [] c = parse_inbound ev (role_handler r ev) c"
| "serve r ev (bs # later) c = Option.bind (parse_inbound ev (role_handler r ev) c) (\<lambda>d. serve r ev later (feed bs d))"

lemma feed_Nil [simp]: "feed [] c = c"
  by (simp add: feed_def)

lemma serve_whole:
  assumes "lawful_events ev" and "stage_ok (role_size r) c"
  shows "serve r ev chunks c = parse_inbound ev (role_handler r ev) (feed (concat chunks) c)"
  using assms(2)
proof (induction chunks arbitrary: c)
  case (Cons bs later)
  note ep = role_endpoint [OF assms(1), of r]
  obtain d where d: "parse_inbound ev (role_handler r ev) c = Some d"
    using endpoint.parse_inbound_total [OF ep Cons.prems] by blast
  have "stage_ok (role_size r) d"
    by (rule parse_invariant [where P = "stage_ok (role_size r)", OF _ d Cons.prems])
      (rule endpoint.stage_ok_parse_round [OF ep])
  then have "serve r ev later (feed bs d) = parse_inbound ev (role_handler r ev) (feed (bs @ concat later) d)"
    using Cons.IH [of "feed bs d"] by simp
  then show ?case
    using endpoint.parse_feed [OF ep Cons.prems, of "bs @ concat later"] d by simp
qed simp

section \<open>Delivery\<close>

lemma conveyed_prefix:
  assumes "list_all2 conveys ms rs" and "prefix rs' rs"
  shows "list_all2 conveys (take (length rs') ms) rs'"
proof -
  obtain zs where "rs = rs' @ zs" using assms(2) by (auto simp: prefix_def)
  then show ?thesis using assms(1) by (auto simp: list_all2_append2 list_all2_lengthD)
qed

lemma reassemble_prefix: "prefix (fst (reassemble m (take n fs))) (fst (reassemble m fs))"
  using reassemble_append [of m "take n fs" "drop n fs"] by (simp add: prefix_def split: prod.splits)

text \<open>What the sender's queue and the wire carry is what the receiver is handed, whatever the
  cut: all of it, and the receiver lives on, unless the receiver's application ended the
  connection in the callback of the last transaction it was handed.\<close>

lemma delivery:
  assumes sender: "lawful_events sev" "sends hooks ok lane R" "closing_keeps sev (\<lambda>hs e. (hs, lane e, ok e))"
    and from_c: "queue_ok c" "cn_crypto c = hooks" "ok (cn_env c)" "cn_state (queue_all sev ms c) \<noteq> dead"
    and small: "\<forall>m\<in>set ms. sendable (cn_max_receive_size d) m"
    and receiver: "lawful_events rcv" "lawful_receiver rcv hooks' lane'" "hooks_decode hooks' lane' R"
    and at_d: "ready hooks' d" "alive d" "cn_inbound d = []" "lane' (cn_env d) = lane (cn_env c)"
  shows "\<exists>bs. outflow (queue_all sev ms c) = outflow c @ bs \<and>
    (\<forall>chunks. concat chunks = bs \<longrightarrow> (\<exists>d' rs. serve r rcv chunks d = Some d'
       \<and> received (cn_callbacks d') = received (cn_callbacks d) @ rs
       \<and> list_all2 conveys (take (length rs) ms) rs
       \<and> (cn_state d' \<noteq> dead \<and> length rs = length ms
         \<or> cn_state d' = dead \<and> rs \<noteq> [] \<and> owner_ends rcv (received (cn_callbacks d')))))"
proof -
  have app: "application sev" using sender(1) by (simp add: application_def)
  obtain ws fs where out: "outflow (queue_all sev ms c) = outflow c @ wire ws"
    and fs: "list_all2 (\<lambda>m f. \<exists>flag. f = (message_header m flag, om_data m)) ms fs"
    and dec: "decodes_all (cn_max_receive_size d) R (lane (cn_env c)) ws fs (lane (cn_env (queue_all sev ms c)))"
    using application.queue_all_wire [OF app sender(2,3) from_c small] by blast
  have all: "list_all2 conveys ms (fst (reassemble (cn_partial d) fs))"
    using reassemble_messages [OF fs small] by simp
  let ?d = "feed (wire ws) d"
  have feed: "ready hooks' ?d" "alive ?d" "cn_inbound ?d = wire ws"
    "decodes_all (cn_max_receive_size ?d) R (lane' (cn_env ?d)) ws fs (lane (cn_env (queue_all sev ms c)))"
    using at_d dec by (simp_all add: ready_def alive_def)
  note rcv = role_receiver [OF receiver, of r]
  from receiver.stream_received [OF rcv feed] obtain d' n where
    p: "parse_inbound rcv (role_handler r rcv) ?d = Some d'" and
    n: "streamed rcv hooks' lane' ?d ws fs [] (lane (cn_env (queue_all sev ms c))) n d'" by blast
  have whole: "serve r rcv chunks d = Some d'" if "concat chunks = wire ws" for chunks
    using serve_whole [OF receiver(1), of r d chunks] at_d(1) p that by (simp add: ready_def stage_ok_def)
  let ?rs = "fst (reassemble (cn_partial d) (take n fs))"
  have outcome: "received (cn_callbacks d') = received (cn_callbacks d) @ ?rs"
    "cn_state d' \<noteq> dead \<and> length ?rs = length ms
      \<or> cn_state d' = dead \<and> ?rs \<noteq> [] \<and> owner_ends rcv (received (cn_callbacks d'))"
    using n list_all2_lengthD [OF all] unfolding streamed_def by (auto simp: alive_def)
  have "list_all2 conveys (take (length ?rs) ms) ?rs" by (rule conveyed_prefix [OF all reassemble_prefix])
  then show ?thesis using out whole outcome by blast
qed

end
