(* ===== verification/Connection_Properties.thy ===== *)
theory Connection_Properties
  imports Role_Runs
begin

text \<open>
  The properties of a connection in itself: its byte stream, its callback history, its limits,
  its end and its send queue.
\<close>

text \<open>A kernel with prepared answers, for the instances.\<close>

definition scripted :: "sys_result list \<Rightarrow> kernel" where
  "scripted results = \<lparr> kn_little_endian = True, kn_script = results, kn_trace = [] \<rparr>"

lemma role_open_server:
  "role_open server_role ev m s env k = (server_new m env k)\<lparr> cn_socket := s, cn_state := awaiting_handshake \<rparr>"
  by (simp add: role_open_def server_start_def attach_socket_def socket_move_assign_def socket_close_def
      socket_is_open_def server_new_def connection_new_def)

lemma server_new_fields [simp]:
  "cn_stage (server_new m e k) = stage_handshake" "cn_callbacks (server_new m e k) = []"
  "cn_inbound (server_new m e k) = []" "cn_kernel (server_new m e k) = k" "cn_env (server_new m e k) = e"
  "cn_send_queue (server_new m e k) = []" "cn_crypto (server_new m e k) = no_crypto"
  "cn_max_receive_size (server_new m e k) = m" "cn_expected (server_new m e k) = 12"
  by (simp_all add: server_new_def connection_new_def)

lemma flush_on_blocking_kernel:
  assumes "kn_script (cn_kernel c) = []" and "socket_is_open (cn_socket c)" and "queue_ok c"
    and "cn_state c \<noteq> closing"
  shows "\<exists>k. flush_sends ev c = c\<lparr> cn_kernel := k \<rparr> \<and> kn_script k = []"
proof (cases "cn_send_queue c")
  case Nil
  then show ?thesis using assms(1,4)
    by (intro exI [of _ "cn_kernel c"]) (simp add: flush_sends.simps [of ev c])
next
  case (Cons p rest)
  then have "drop (ps_offset p) (ps_bytes p) \<noteq> []" using assms(3) by (simp add: queue_ok_def)
  then show ?thesis using Cons assms(1,2)
    by (intro exI conjI) (simp add: flush_sends.simps [of ev c] socket_send_def sys_def from_error_def, simp)
qed

lemma flush_on_blocking_state:
  assumes "kn_script (cn_kernel c) = []" and "socket_is_open (cn_socket c)" and "queue_ok c"
    and "cn_state c \<noteq> closing"
  shows "cn_state (flush_sends ev c) = cn_state c"
  using flush_on_blocking_kernel [OF assms, of ev] by auto

lemma receive_stops:
  "socket_receive (cn_socket c) 4096 (cn_kernel c) = (Inl e, k) \<Longrightarrow> e \<noteq> would_block \<Longrightarrow> e \<noteq> interrupted
     \<Longrightarrow> receive_loop c = (False, c\<lparr> cn_kernel := k \<rparr>)"
  "socket_receive (cn_socket c) 4096 (cn_kernel c) = (Inr bs, k)
     \<Longrightarrow> receive_loop c = receive_loop (c\<lparr> cn_kernel := k, cn_inbound := cn_inbound c @ bs \<rparr>)"
  by (simp_all add: receive_loop.simps [of c])

text \<open>C2: What a connection does with the bytes of its peer does not depend on how the network
  cuts them: for a client and a server alike, parsing after every piece ends in the state that
  parsing everything at once ends in, callbacks, replies and encryption state included.  Parsing
  always ends, and so does servicing, whatever the kernel answers; a receive loop appends exactly
  the bytes the kernel delivered on the socket.\<close>

theorem byte_stream_cut_irrelevant:
  assumes "lawful_events ev" and "stage_ok (role_size r) c"
  shows "serve r ev chunks c = parse_inbound ev (role_handler r ev) (feed (concat chunks) c)
    \<and> serve r ev chunks c \<noteq> None
    \<and> (\<exists>d. service_readable ev (role_handler r ev) c = Some d)
    \<and> (\<exists>k bs. snd (receive_loop c) = (feed bs c)\<lparr> cn_kernel := k \<rparr>
         \<and> taken (cn_socket c) (kn_trace k) = taken (cn_socket c) (kn_trace (cn_kernel c)) @ bs)"
proof -
  note ep = role_endpoint [OF assms(1), of r]
  have "serve r ev chunks c = parse_inbound ev (role_handler r ev) (feed (concat chunks) c)"
    by (rule serve_whole [OF assms])
  moreover have "parse_inbound ev (role_handler r ev) (feed (concat chunks) c) \<noteq> None"
    using endpoint.parse_inbound_total [OF ep, of "feed (concat chunks) c"] assms(2) by auto
  ultimately show ?thesis
    using endpoint.service_readable_total [OF ep assms(2)] receive_loop_taken [of c]
    by (auto simp: feed_def)
qed

text \<open>A server without callbacks gets a client's handshake in three pieces.\<close>

theorem byte_stream_cut_irrelevant_witness:
  "let c = role_open server_role no_events 1000 3 () (scripted []);
       hs = encode_client_handshake default_client_handshake
   in serve server_role no_events [take 5 hs, [], drop 5 hs] c
        = parse_inbound no_events (role_handler server_role no_events) (feed hs c)"
proof -
  have "concat [take 5 hs, [], drop 5 hs] = hs" for hs :: bytes by simp
  then show ?thesis
    using byte_stream_cut_irrelevant [OF quiet.lawful role_open_inv(2) [OF quiet.lawful quiet_owner.hooks]]
    unfolding Let_def by metis
qed

text \<open>C3: Whatever a client or server is asked to do and whatever the kernel answers, the
  callbacks form a protocol: the establishment first and at most once, then transactions, then
  the end at most once and last; with an establishment callback no transaction comes before it.
  Every transaction delivered announces a positive total within the receive limit and has at least
  as many bytes, exactly as many if it came in one part; in several parts, which are checked one
  by one, it may exceed its total and the limit, but stays below twice the limit.  A part that is
  held is short of its total and the total is within the limit, no queued entry is already sent,
  and the connection can always be serviced.\<close>

theorem connection_history:
  assumes "lawful_events ev" and "hooks_kept ev"
    and run: "connection_run ev (role_handler r ev) hook_lengths (role_open r ev M s env k) c"
  shows "(\<exists>e ts cl. cn_callbacks c = e @ map Transaction ts @ cl
      \<and> (e = [] \<or> e = [Established]) \<and> (cl = [] \<or> cl = [Closed] \<and> cn_state c = dead)
      \<and> (\<forall>t\<in>set ts. within M t)
      \<and> (ts \<noteq> [] \<longrightarrow> ev_established ev = None \<or> e = [Established]))
    \<and> (\<forall>key p. cn_partial c key = Some p \<longrightarrow>
         length (pr_data p) < unat (th_total_size (pr_header p)) \<and> th_total_size (pr_header p) \<le> M)
    \<and> (\<forall>p\<in>set (cn_send_queue c). ps_offset p < length (ps_bytes p))
    \<and> (\<exists>d. service_readable ev (role_handler r ev) c = Some d)"
proof -
  note ep = role_endpoint [OF assms(1), of r] and be = role_bounded [OF assms(1,2), of r]
  have "conn_inv ev M c"
    by (rule bounded_endpoint.run_invariant [OF be run role_open_inv(1) [OF assms(1,2)]])
  moreover have "stage_ok (role_size r) c"
    by (rule endpoint.run_stage_ok [OF ep run role_open_inv(2) [OF assms(1,2)]])
  then have "\<exists>d. service_readable ev (role_handler r ev) c = Some d"
    using endpoint.service_readable_total [OF ep] by blast
  ultimately show ?thesis
    unfolding conn_inv_def calls_ok_def held_ok_def queue_ok_def by blast
qed

text \<open>The client that waits for the kernel to take its handshake.\<close>

theorem connection_history_witness:
  "\<exists>d. service_readable no_events (role_handler client_role no_events)
     (service_writable no_events (role_open client_role no_events 1000 3 () (scripted [Sys_error EAGAIN]))) = Some d"
  by (rule connection_history [OF quiet.lawful quiet_owner.hooks connection_run.writable [OF connection_run.start],
      THEN conjunct2, THEN conjunct2, THEN conjunct2])

text \<open>C15: A dead connection is final, short of a new start.  Once a connection is dead, no operation
  but \<open>start\<close> (and the move assignment, which replaces the object) and nothing the network brings
  makes it call a callback or the kernel again, or revives it.  \<open>start\<close> has no guard: on a dead
  server connection it attaches the socket and waits for a handshake, with the parser's stage, the
  unparsed bytes, the parts and the send queue of the connection that died.\<close>

theorem dead_connection_is_final:
  assumes "lawful_events ev" and "hooks_kept ev"
    and run: "connection_run ev (role_handler r ev) hook_lengths (role_open r ev M s env k) c"
    and "cn_state c = dead" and more: "connection_run ev (role_handler r ev) hook_lengths c d"
  shows "cn_state d = dead \<and> cn_socket d = kInvalid \<and> cn_callbacks d = cn_callbacks c
    \<and> cn_kernel d = cn_kernel c
    \<and> (\<forall>t. cn_state (server_start t d) = awaiting_handshake \<and> cn_socket (server_start t d) = t
        \<and> same_receive d (server_start t d) \<and> cn_send_queue (server_start t d) = cn_send_queue d)"
proof -
  have "conn_inv ev M c"
    by (rule bounded_endpoint.run_invariant [OF role_bounded [OF assms(1,2)] run role_open_inv(1) [OF assms(1,2)]])
  then have "cn_socket c = kInvalid" using assms(4) by (simp add: conn_inv_def queue_ok_def)
  then have d: "cn_state d = dead \<and> cn_socket d = kInvalid \<and> cn_callbacks d = cn_callbacks c
    \<and> cn_kernel d = cn_kernel c" using dead_absorbs [OF more assms(4)] by (simp add: absorbed_def)
  moreover have "same_receive d (attach_socket t d)" for t
    by (simp add: attach_socket_def same_receive_def split: prod.split)
  ultimately show ?thesis by (simp add: server_start_def same_receive_def)
qed

text \<open>A server whose peer resets, and a keepalive after that.\<close>

definition reset_server :: "unit connection" where
  "reset_server = role_open server_role no_events 1000 3 () (scripted [Sys_error ECONNRESET])"

lemma reset_server_readable:
  "\<exists>k. service_readable no_events (role_handler server_role no_events) reset_server
     = Some (mark_dead no_events (reset_server\<lparr> cn_kernel := k \<rparr>))"
proof -
  have "socket_receive (cn_socket reset_server) 4096 (cn_kernel reset_server) = (Inl connection_closed,
      (scripted [])\<lparr> kn_trace := [(Call_recv 3 4096, Sys_error ECONNRESET)] \<rparr>)"
    by (simp add: reset_server_def role_open_server socket_receive_def socket_is_open_def kInvalid_def
        scripted_def sys_def from_error_def)
  from receive_stops(1) [OF this] show ?thesis
    by (intro exI) (simp add: service_readable_def reset_server_def role_open_server)
qed

theorem dead_connection_is_final_witness:
  "\<exists>c. service_readable no_events (role_handler server_role no_events) reset_server = Some c
     \<and> cn_state (queue_keepalive no_events c) = dead
     \<and> cn_kernel (queue_keepalive no_events c) = cn_kernel c"
proof -
  obtain k where r: "service_readable no_events (role_handler server_role no_events) reset_server
     = Some (mark_dead no_events (reset_server\<lparr> cn_kernel := k \<rparr>))" using reset_server_readable by blast
  have run: "connection_run no_events (role_handler server_role no_events) hook_lengths
      (role_open server_role no_events 1000 3 () (scripted [Sys_error ECONNRESET]))
      (mark_dead no_events (reset_server\<lparr> cn_kernel := k \<rparr>))"
    using connection_run.readable [OF connection_run.start r] by (simp add: reset_server_def)
  show ?thesis
    using dead_connection_is_final [OF quiet.lawful quiet_owner.hooks run quiet.mark_dead_dead
        connection_run.keepalive [OF connection_run.start]] r by blast
qed

text \<open>C6: The send queue loses, duplicates and reorders nothing.  After a transaction is queued,
  what the kernel took from the socket followed by what still waits is what it was before,
  followed by the bytes of that transaction, whatever partial sends and interrupts happened; the
  queue is empty unless the kernel would block.  Without hooks the bytes are the encoded header
  and the data.\<close>

theorem send_queue_fifo:
  assumes "lawful_events ev" and "queue_ok c"
    and "cn_state (queue_transaction ev kind tid data is_reply error c) \<noteq> dead"
  shows "outflow (queue_transaction ev kind tid data is_reply error c)
      = outflow c @ snd (transaction_bytes kind tid data is_reply error c)
    \<and> (cn_send_queue (queue_transaction ev kind tid data is_reply error c) = []
       \<or> blocked (cn_kernel (queue_transaction ev kind tid data is_reply error c)))
    \<and> (cn_crypto c = no_crypto \<longrightarrow> snd (transaction_bytes kind tid data is_reply error c)
         = encode_header (message_header \<lparr> om_type = kind, om_id = tid, om_data = data,
             om_is_reply = is_reply, om_error = error \<rparr> 0) @ data)"
proof -
  have app: "application ev" using assms(1) by (simp add: application_def)
  obtain e bs where b: "transaction_bytes kind tid data is_reply error c = (e, bs)" by force
  have q: "queue_ok (queue_bytes bs (c\<lparr> cn_env := e \<rparr>))"
    using assms(2) by (simp add: queue_ok_queue_bytes)
  have alive: "cn_state (flush_sends ev (queue_bytes bs (c\<lparr> cn_env := e \<rparr>))) \<noteq> dead"
    using assms(3) by (simp add: queue_transaction_bytes b)
  have plain: "snd (transaction_bytes kind tid data is_reply error c)
      = encode_header (message_header \<lparr> om_type = kind, om_id = tid, om_data = data,
             om_is_reply = is_reply, om_error = error \<rparr> 0) @ data" if "cn_crypto c = no_crypto"
    using that by (simp add: transaction_bytes_def no_crypto_def message_header_def encode_transaction_def)
  show ?thesis
    using application.flush_output [OF app q alive] plain
    by (simp add: queue_transaction_bytes b outflow_queue_bytes)
qed

text \<open>A 22-byte keepalive of which the kernel takes seven bytes and then blocks.\<close>

theorem send_queue_fifo_witness:
  "let c = role_open server_role no_events 1000 3 ()
         (scripted [Sys_value 7 [] (Sockaddr_in 0 0) []]);
       d = queue_transaction no_events 500 0 [0, 0] False 0 c
   in cn_state d \<noteq> dead \<and> length (cn_send_queue d) = 1 \<and> blocked (cn_kernel d)
      \<and> outflow d = outflow c @ snd (transaction_bytes 500 0 [0, 0] False 0 c)"
proof -
  let ?c = "role_open server_role no_events 1000 3 () (scripted [Sys_value 7 [] (Sockaddr_in 0 0) []])"
  let ?d = "queue_transaction no_events 500 0 [0, 0] False 0 ?c"
  have ok: "queue_ok ?c" by (simp add: role_open_server queue_ok_def)
  have d: "cn_state ?d = awaiting_handshake \<and> length (cn_send_queue ?d) = 1"
    by (simp add: role_open_server server_new_def connection_new_def no_crypto_def socket_is_open_def kInvalid_def Let_def
      scripted_def queue_transaction_def queue_bytes_def flush_sends.simps socket_send_def sys_def
      from_error_def encode_header_def)
  then have "cn_send_queue ?d \<noteq> []" by auto
  with d send_queue_fifo [OF quiet.lawful ok, of 500 0 "[0, 0]" False 0] show ?thesis by (simp add: Let_def)
qed

text \<open>C17: Bytes that arrive in the same readable event as the end of the stream are lost: when
  the receive loop ends with anything but \<open>would_block\<close>, the connection is marked dead without
  parsing, so no transaction is delivered, however many complete ones are waiting.\<close>

theorem data_before_close_dropped:
  assumes "lawful_events ev" and "cn_state c \<noteq> dead" and "receive_loop c = (False, c1)"
  shows "\<exists>d. service_readable ev (role_handler r ev) c = Some d \<and> cn_state d = dead
    \<and> received (cn_callbacks d) = received (cn_callbacks c) \<and> cn_inbound d = cn_inbound c1"
proof -
  have app: "application ev" using assms(1) by (simp add: application_def)
  have c1: "cn_callbacks c1 = cn_callbacks c"
    using receive_loop_taken [of c] assms(3) by auto
  have "keeps c1 (mark_dead ev c1)" by (rule application.keeps_mark_dead [OF app])
  then have "received (cn_callbacks (mark_dead ev c1)) = received (cn_callbacks c)"
    "cn_inbound (mark_dead ev c1) = cn_inbound c1"
    by (auto simp: keeps_def may_die_def same_receive_def c1)
  then show ?thesis
    using assms(2,3) application.mark_dead_dead [OF app] by (simp add: service_readable_def)
qed

definition keepalive_message :: outgoing where
  "keepalive_message = \<lparr> om_type = 500, om_id = 0, om_data = [0, 0], om_is_reply = False, om_error = 0 \<rparr>"

definition last_words :: bytes where
  "last_words = encode_client_handshake default_client_handshake
     @ encode_header (message_header keepalive_message 0) @ [0, 0]"

definition cut_off :: "session \<Rightarrow> transaction_cipher \<Rightarrow> session_env connection" where
  "cut_off s t = role_open server_role session_events 1000 3 \<lparr> sv_session = s, sv_cipher = t, sv_flags = [] \<rparr>
     (scripted [Sys_value 34 last_words (Sockaddr_in 0 0) [], Sys_error ECONNRESET])"

text \<open>A client's handshake and a complete transaction, then a reset, in one readable event.\<close>

theorem data_before_close_dropped_witness:
  "\<forall>s t. \<exists>d. service_readable session_events (role_handler server_role session_events) (cut_off s t) = Some d
      \<and> cn_state d = dead \<and> received (cn_callbacks d) = [] \<and> cn_inbound d = last_words"
proof (intro allI)
  fix s t
  have len: "length last_words = 34" by (simp add: last_words_def)
  have c: "cn_state (cut_off s t) \<noteq> dead" "cn_callbacks (cut_off s t) = []"
    by (simp_all add: cut_off_def role_open_server)
  let ?k = "(scripted [Sys_error ECONNRESET])\<lparr> kn_trace :=
     [(Call_recv 3 4096, Sys_value 34 last_words (Sockaddr_in 0 0) [])] \<rparr>"
  have "last_words \<noteq> []" using len by auto
  then have 1: "socket_receive (cn_socket (cut_off s t)) 4096 (cn_kernel (cut_off s t)) = (Inr last_words, ?k)"
    using len by (simp add: cut_off_def role_open_server socket_receive_def socket_is_open_def kInvalid_def
        scripted_def sys_def Let_def)
  have "\<exists>k. socket_receive 3 4096 ?k = (Inl connection_closed, k)"
    by (simp add: socket_receive_def socket_is_open_def kInvalid_def scripted_def sys_def from_error_def)
  then obtain k where 2: "socket_receive 3 4096 ?k = (Inl connection_closed, k)" by blast
  obtain c1 where l: "receive_loop (cut_off s t) = (False, c1)" and i: "cn_inbound c1 = last_words"
    using receive_stops(2) [OF 1]
      receive_stops(1) [of "(cut_off s t)\<lparr> cn_kernel := ?k, cn_inbound := cn_inbound (cut_off s t) @ last_words \<rparr>"] 2
    by (simp add: cut_off_def role_open_server)
  from data_before_close_dropped [OF owner.lawful c(1) l, of server_role]
  show "\<exists>d. service_readable session_events (role_handler server_role session_events) (cut_off s t) = Some d
      \<and> cn_state d = dead \<and> received (cn_callbacks d) = [] \<and> cn_inbound d = last_words"
    by (simp add: i c(2))
qed

end
