(* ===== verification/Connection_Lifecycle.thy ===== *)
theory Connection_Lifecycle
  imports Connection_Properties
begin

text \<open>
  The life of a connection object beyond its operations: the observers, the defaulted moves and
  the destructor of \<open>ConnectionBase\<close> (\<open>hotline/net/connection.h\<close>), and what a serviced
  connection waits for.
\<close>

section \<open>Observers, moves and destruction\<close>

definition connection_state :: "'a connection \<Rightarrow> ConnectionState" where
  "connection_state c = cn_state c"

definition connection_descriptor :: "'a connection \<Rightarrow> socket" where
  "connection_descriptor c = cn_socket c"

text \<open>The defaulted move operations move member by member.  Numbers, the state and the header bytes
  are copied; the socket of the source is left invalid.  A moved-from container or function is
  in a state the standard library does not fix, except that a container is empty after a move
  construction: \<open>left\<close> is a connection that has these members.  The result is the new
  object and the source.\<close>

definition connection_move :: "'a connection \<Rightarrow> 'a connection \<Rightarrow> 'a connection \<times> 'a connection" where
  "connection_move left other =
     (let (s, s') = socket_move (cn_socket other) in
      (other\<lparr> cn_socket := s \<rparr>,
       other\<lparr> cn_socket := s', cn_crypto := cn_crypto left, cn_inbound := [], cn_pending_data := [],
         cn_partial := (\<lambda>_. None), cn_send_queue := [] \<rparr>))"

text \<open>Assignment closes the socket the target holds; both objects then see the system after it.\<close>

definition connection_move_assign ::
    "'a connection \<Rightarrow> 'a connection \<Rightarrow> 'a connection \<Rightarrow> 'a connection \<times> 'a connection" where
  "connection_move_assign left target other =
     (let (s, s', k) = socket_move_assign (cn_socket target) (cn_socket other) (cn_kernel other) in
      (other\<lparr> cn_socket := s, cn_kernel := k \<rparr>,
       other\<lparr> cn_socket := s', cn_kernel := k, cn_crypto := cn_crypto left, cn_inbound := cn_inbound left,
         cn_pending_data := cn_pending_data left, cn_partial := cn_partial left,
         cn_send_queue := cn_send_queue left \<rparr>))"

text \<open>The destructor destroys the socket; no callback is called.\<close>

definition connection_destroy :: "'a connection \<Rightarrow> kernel" where
  "connection_destroy c = socket_destroy (cn_socket c) (cn_kernel c)"

section \<open>What is left behind\<close>

text \<open>An object without a socket.  Only the callback of its end can still reach the system.\<close>

lemma receive_without_socket:
  "cn_socket c = kInvalid \<Longrightarrow> receive_loop c = (False, c)"
  by (simp add: receive_loop.simps [of c] socket_receive_def socket_is_open_def)

lemma close_without_socket: "cn_socket c = kInvalid \<Longrightarrow> close_connection c = c"
  by (simp add: close_connection_def socket_close_def socket_is_open_def)

lemma mark_dead_without_socket:
  "cn_socket c = kInvalid \<Longrightarrow> cn_state c \<noteq> dead \<Longrightarrow>
     mark_dead ev c = invoke Closed (ev_closed ev) (c\<lparr> cn_state := dead \<rparr>)"
  by (simp add: mark_dead_def close_without_socket)

lemma flush_without_socket:
  assumes "cn_socket c = kInvalid"
  shows "flush_sends ev c = (if cn_send_queue c \<noteq> [] \<or> cn_state c = closing then mark_dead ev c else c)"
  using assms by (cases "cn_send_queue c")
    (simp_all add: flush_sends.simps [of ev c] socket_send_def socket_is_open_def)

lemma destroy_without_socket: "cn_socket c = kInvalid \<Longrightarrow> connection_destroy c = cn_kernel c"
  by (simp add: connection_destroy_def socket_destroy_def socket_close_def socket_is_open_def)

lemma moved_selectors [simp]:
  "connection_move left c = (new, old) \<Longrightarrow> cn_socket old = kInvalid"
  "connection_move left c = (new, old) \<Longrightarrow> cn_state old = cn_state c"
  "connection_move left c = (new, old) \<Longrightarrow> cn_kernel old = cn_kernel c"
  "connection_move left c = (new, old) \<Longrightarrow> cn_send_queue old = []"
  "connection_move left c = (new, old) \<Longrightarrow> new = c"
  by (auto simp: connection_move_def socket_move_def)

section \<open>What a serviced connection waits for\<close>

text \<open>Nothing that the connection could handle is left in its buffer.\<close>

definition starved :: "'a connection \<Rightarrow> bool" where
  "starved c \<longleftrightarrow> cn_state c = dead \<or> cn_state c = closing \<or>
     length (cn_inbound c) < (if cn_stage c = stage_header then transaction_header_size else cn_expected c)"

context endpoint
begin

lemma parse_round_starves:
  assumes "stage_ok handshake_size c" and "parse_round ev h c = Inl d"
  shows "starved d"
proof -
  have "d = c \<or> cn_state d = dead" using parse_round_feed(2) [OF assms, of "[]"] by blast
  moreover have "starved c" if "d = c" "cn_state c \<noteq> dead"
  proof (rule ccontr)
    assume "\<not> starved c"
    with assms(2) that have "\<exists>c'. mark_dead ev c' = d"
      by (auto simp: starved_def parse_round_def Let_def split: ReceiveStage.splits if_splits prod.splits)
    with that show False by auto
  qed
  ultimately show ?thesis by (auto simp: starved_def)
qed

lemma parse_inbound_starves:
  "stage_ok handshake_size c \<Longrightarrow> parse_inbound ev h c = Some d \<Longrightarrow> starved d"
proof (induction "parse_measure c" arbitrary: c rule: less_induct)
  case less
  show ?case
  proof (cases "parse_round ev h c")
    case (Inl e)
    then show ?thesis using less.prems parse_round_starves by (simp add: parse_inbound.simps [of ev h c])
  next
    case (Inr e)
    from less.hyps [of e] parse_round_progress [OF Inr less.prems(1)] Inr less.prems show ?thesis
      by (simp add: parse_inbound.simps [of ev h c])
  qed
qed

end

section \<open>Properties\<close>

text \<open>C14: Servicing always returns, and leaves nothing behind that could have been handled: unless the
  connection is ending, its buffer is shorter than the unit it waits for, a handshake, a header or
  the data of a transaction.\<close>

theorem servicing_exhausts:
  assumes "lawful_events ev" and "stage_ok (role_size r) c"
  shows "\<exists>d. service_readable ev (role_handler r ev) c = Some d \<and> starved d"
proof -
  note ep = role_endpoint [OF assms(1), of r]
  obtain d where d: "service_readable ev (role_handler r ev) c = Some d"
    using endpoint.service_readable_total [OF ep assms(2)] by blast
  moreover have "starved d"
  proof (cases "cn_state c = dead")
    case True
    then show ?thesis using d by (simp add: service_readable_def starved_def)
  next
    case False
    obtain b c1 where l: "receive_loop c = (b, c1)" by force
    have "stage_ok (role_size r) c1"
      using receive_loop_taken [of c] assms(2) by (auto simp: l stage_ok_def)
    moreover have "cn_state (mark_dead ev c1) = dead"
      using assms(1) by (simp add: application.mark_dead_dead application_def)
    ultimately show ?thesis
      using d False l endpoint.parse_inbound_starves [OF ep]
      by (cases b) (auto simp: service_readable_def starved_def)
  qed
  ultimately show ?thesis by blast
qed

text \<open>A server that has received nothing.\<close>

theorem servicing_exhausts_witness:
  "\<exists>d. service_readable no_events (role_handler server_role no_events)
     (role_open server_role no_events 1000 3 () (scripted [Sys_error EAGAIN])) = Some d \<and> starved d"
  by (rule servicing_exhausts [OF quiet.lawful role_open_inv(2) [OF quiet.lawful quiet_owner.hooks]])

text \<open>C16: A connection survives a move and its socket has one owner.  The new object is the old one; the
  object moved from cannot reach the system: it queues nothing, its first readable event only
  reports its end, and destroying it closes nothing.  Destroying the new one closes the socket
  once.  Assignment closes what the target held before it takes over.\<close>

theorem moved_connection:
  "(let (new, old) = connection_move left c in
      new = c \<and> connection_destroy old = cn_kernel c
      \<and> kn_trace (connection_destroy new) = kn_trace (cn_kernel c) @
          (if socket_is_open (cn_socket c) then [(Call_close (cn_socket c), fst (sys (Call_close (cn_socket c)) (cn_kernel c)))]
           else [])
      \<and> service_readable ev h old = Some (if cn_state c = dead then old
          else invoke Closed (ev_closed ev) (old\<lparr> cn_state := dead \<rparr>))
      \<and> service_writable ev old = (if cn_state c = closing then invoke Closed (ev_closed ev) (old\<lparr> cn_state := dead \<rparr>)
          else old))
   \<and> (let (new, old) = connection_move_assign left target c in
      new = c\<lparr> cn_kernel := snd (socket_close (cn_socket target) (cn_kernel c)) \<rparr>
      \<and> connection_destroy old = cn_kernel new
      \<and> service_readable ev h old = Some (if cn_state c = dead then old
          else invoke Closed (ev_closed ev) (old\<lparr> cn_state := dead \<rparr>)))"
proof -
  obtain new old where m: "connection_move left c = (new, old)" by force
  note sel = moved_selectors [OF m]
  have close: "kn_trace (connection_destroy c) = kn_trace (cn_kernel c) @
      (if socket_is_open (cn_socket c) then [(Call_close (cn_socket c), fst (sys (Call_close (cn_socket c)) (cn_kernel c)))]
       else [])"
    by (cases "sys (Call_close (cn_socket c)) (cn_kernel c)")
      (auto simp: connection_destroy_def socket_destroy_def socket_close_def dest!: sys_event)
  have readable: "service_readable ev h x = Some (if cn_state x = dead then x
      else invoke Closed (ev_closed ev) (x\<lparr> cn_state := dead \<rparr>))" if "cn_socket x = kInvalid" for x
    using that by (simp add: service_readable_def receive_without_socket mark_dead_without_socket)
  have writable: "service_writable ev old = (if cn_state c = closing
      then invoke Closed (ev_closed ev) (old\<lparr> cn_state := dead \<rparr>) else old)"
    using sel by (auto simp: service_writable_def flush_without_socket mark_dead_without_socket)
  obtain new' old' where a: "connection_move_assign left target c = (new', old')" by force
  then have a': "cn_socket old' = kInvalid" "cn_state old' = cn_state c" "cn_kernel old' = cn_kernel new'"
    "new' = c\<lparr> cn_kernel := snd (socket_close (cn_socket target) (cn_kernel c)) \<rparr>"
    by (auto simp: connection_move_assign_def socket_move_assign_def split: prod.splits)
  show ?thesis
    using sel close readable [of old] readable [of old'] writable a' destroy_without_socket [of old]
      destroy_without_socket [of old'] by (simp add: m a)
qed

end
