(* ===== verification/Ivar_Array.thy ===== *)
theory Ivar_Array
  imports Endian
begin

unbundle bit_operations_syntax

text \<open>
  The \<open>'IVA1'\<close> flattened ID-array decoder of \<open>appwarrior/core/ivar_array.h\<close> and
  \<open>ivar_array.cpp\<close>, with its two passes: the offsets are validated and collected first,
  then the items are sliced out.  \<open>ivar_flatten\<close> is the documented layout written out as
  a specification (the program has no encoder), and the decoder is shown to invert it.
\<close>

datatype ivar_error =
    ivar_truncated
  | ivar_wrong_format_tag
  | impossible_item_count
  | offset_out_of_range

record ivar_item =
  iv_id :: u32
  iv_data :: bytes

record ivar_array =
  text_encoding :: u32
  iv_items :: "ivar_item list"

definition ivar_format_tag :: u32 where
  "ivar_format_tag = four_cc CHR ''I'' CHR ''V'' CHR ''A'' CHR ''1''"

definition ivar_min_size :: nat where
  "ivar_min_size = 16 + 8"

section \<open>The decoder\<close>

text \<open>First pass: \<open>for (i = 0; i <= item_count; ++i)\<close> with the previous offset.\<close>

fun ivar_offsets :: "bytes \<Rightarrow> bytes \<Rightarrow> nat \<Rightarrow> nat \<Rightarrow> u32 \<Rightarrow> (ivar_error, u32 list) checked" where
  "ivar_offsets table data i 0 previous_offset = Some (Inr [])"
| "ivar_offsets table data i (Suc n) previous_offset = do {
     s \<leftarrow> span_from (i * 8) table;
     entry \<leftarrow> span_first 8 s;
     offset \<leftarrow> u32be_at 4 entry;
     if offset < previous_offset \<or> unat offset > length data
     then Some (Inl offset_out_of_range)
     else and_then (ivar_offsets table data (Suc i) n offset)
            (\<lambda>offsets. Some (Inr (offset # offsets))) }"

text \<open>
  Second pass: \<open>for (i = 0; i < item_count; ++i)\<close>.  \<open>end - begin\<close> is unsigned; were it
  to wrap, the slice would leave the data area.
\<close>

fun ivar_slices :: "bytes \<Rightarrow> bytes \<Rightarrow> u32 list \<Rightarrow> nat \<Rightarrow> nat
    \<Rightarrow> (ivar_error, ivar_item list) checked" where
  "ivar_slices table data offsets i 0 = Some (Inr [])"
| "ivar_slices table data offsets i (Suc n) = do {
     s \<leftarrow> span_from (i * 8) table;
     key \<leftarrow> u32be_at 0 s;
     b \<leftarrow> span_at i offsets;
     e \<leftarrow> span_at (i + 1) offsets;
     item_bytes \<leftarrow> (if unat e < unat b then None else span_sub (unat b) (unat e - unat b) data);
     and_then (ivar_slices table data offsets (Suc i) n)
       (\<lambda>items. Some (Inr (\<lparr> iv_id = key, iv_data = item_bytes \<rparr> # items))) }"

definition ivar_decode :: "bytes \<Rightarrow> (ivar_error, ivar_array) checked" where
  "ivar_decode bs =
     (if length bs < ivar_min_size then Some (Inl ivar_truncated) else do {
      tag \<leftarrow> u32be_at 0 bs;
      if tag \<noteq> ivar_format_tag then Some (Inl ivar_wrong_format_tag) else do {
      item_count \<leftarrow> u32be_at 12 bs;
      if item_count AND 0xFF000000 \<noteq> 0 then Some (Inl impossible_item_count) else do {
      let table_size = (unat item_count + 1) * 8;
      let header_and_table = 16 + table_size;
      if length bs < header_and_table then Some (Inl ivar_truncated) else do {
      table \<leftarrow> span_sub 16 table_size bs;
      data \<leftarrow> span_from header_and_table bs;
      and_then (ivar_offsets table data 0 (unat item_count + 1) 0) (\<lambda>offsets. do {
      encoding \<leftarrow> u32be_at 8 bs;
      and_then (ivar_slices table data offsets 0 (unat item_count)) (\<lambda>items.
        Some (Inr \<lparr> text_encoding = encoding, iv_items = items \<rparr>)) })}}}})"

definition ivar_find :: "ivar_array \<Rightarrow> u32 \<Rightarrow> ivar_item option" where
  "ivar_find arr key = find (\<lambda>item. iv_id item = key) (iv_items arr)"

definition ivar_item_data :: "ivar_array \<Rightarrow> u32 \<Rightarrow> bytes" where
  "ivar_item_data arr key = (case ivar_find arr key of Some item \<Rightarrow> iv_data item | None \<Rightarrow> [])"

section \<open>What the two passes compute\<close>

definition table_offset :: "bytes \<Rightarrow> nat \<Rightarrow> u32" where
  "table_offset table i = read_u32be (take 4 (drop 4 (take 8 (drop (i * 8) table))))"

definition table_id :: "bytes \<Rightarrow> nat \<Rightarrow> u32" where
  "table_id table i = read_u32be (take 4 (drop (i * 8) table))"

text \<open>One turn of each loop, with the table entry in bounds.\<close>

lemma ivar_offsets_step:
  assumes "(i + 1) * 8 \<le> length table"
  shows "ivar_offsets table data i (Suc n) p =
    (if table_offset table i < p \<or> unat (table_offset table i) > length data
     then Some (Inl offset_out_of_range)
     else and_then (ivar_offsets table data (Suc i) n (table_offset table i))
            (\<lambda>offsets. Some (Inr (table_offset table i # offsets))))"
  using assms
  by (simp add: span_from_in span_first_in u32be_at_in table_offset_def del: take_all)

lemma ivar_slices_step:
  assumes "(i + 1) * 8 \<le> length table" "Suc i < length offsets"
    and "unat (offsets ! i) \<le> unat (offsets ! Suc i)" "unat (offsets ! Suc i) \<le> length data"
  shows "ivar_slices table data offsets i (Suc n) =
    and_then (ivar_slices table data offsets (Suc i) n)
      (\<lambda>items. Some (Inr (\<lparr> iv_id = table_id table i,
         iv_data = take (unat (offsets ! Suc i) - unat (offsets ! i))
                     (drop (unat (offsets ! i)) data) \<rparr> # items)))"
  using assms
  by (simp add: span_from_in span_at_in u32be_at_in span_sub_in table_id_def)

declare ivar_offsets.simps(2) [simp del] ivar_slices.simps(2) [simp del]

lemma ivar_offsets_safe:
  "(i + n) * 8 \<le> length table \<Longrightarrow> ivar_offsets table data i n p \<noteq> None"
proof (induction n arbitrary: i p)
  case (Suc n)
  have "and_then (ivar_offsets table data (Suc i) n q) (\<lambda>offsets. Some (Inr (q # offsets))) \<noteq> None"
    for q using Suc.IH [of "Suc i" q] Suc.prems by (intro and_then_safe) auto
  then show ?case using Suc.prems by (simp add: ivar_offsets_step)
qed simp

lemma ivar_offsets_Ok:
  assumes "(i + n) * 8 \<le> length table"
    and "ivar_offsets table data i n p = Some (Inr os)"
  shows "os = map (table_offset table) [i..<i + n] \<and> sorted_wrt (\<lambda>a b. unat a \<le> unat b) (p # os)
    \<and> (\<forall>x \<in> set os. unat x \<le> length data)"
  using assms
proof (induction n arbitrary: i p os)
  case (Suc n)
  let ?q = "table_offset table i"
  obtain r where r: "ivar_offsets table data (Suc i) n ?q = Some (Inr r)" "os = ?q # r"
    and q: "\<not> ?q < p" "unat ?q \<le> length data"
    using Suc.prems by (auto simp: ivar_offsets_step and_then_Ok split: if_splits)
  from Suc.IH [OF _ r(1)] Suc.prems(1)
  have "r = map (table_offset table) [Suc i..<Suc i + n]"
      "sorted_wrt (\<lambda>a b. unat a \<le> unat b) (?q # r)" "\<forall>x \<in> set r. unat x \<le> length data"
    by auto
  moreover have "unat p \<le> unat ?q" using q by (simp add: word_less_nat_alt)
  moreover have "[i..<i + Suc n] = i # [Suc i..<Suc i + n]"
    by (simp add: upt_conv_Cons del: upt_Suc)
  ultimately show ?case
    using r(2) q(2) by (auto intro: order_trans simp del: upt_Suc)
qed simp

lemma ivar_offsets_accept:
  assumes "(i + n) * 8 \<le> length table"
    and "sorted_wrt (\<lambda>a b. unat a \<le> unat b) (p # map (table_offset table) [i..<i + n])"
    and "\<forall>k \<in> {i..<i + n}. unat (table_offset table k) \<le> length data"
  shows "ivar_offsets table data i n p = Some (Inr (map (table_offset table) [i..<i + n]))"
  using assms
proof (induction n arbitrary: i p)
  case (Suc n)
  have intv: "[i..<Suc (i + n)] = i # [Suc i..<Suc (i + n)]"
    by (simp add: upt_conv_Cons del: upt_Suc)
  have "ivar_offsets table data (Suc i) n (table_offset table i)
      = Some (Inr (map (table_offset table) [Suc i..<Suc i + n]))"
    by (rule Suc.IH) (use Suc.prems in \<open>auto simp: intv simp del: upt_Suc\<close>)
  moreover have "\<not> table_offset table i < p" "unat (table_offset table i) \<le> length data"
    using Suc.prems by (auto simp: intv word_less_nat_alt simp del: upt_Suc)
  ultimately show ?case
    using Suc.prems(1) by (simp add: ivar_offsets_step intv del: upt_Suc)
qed simp

lemma ivar_slices_Ok:
  assumes "(i + n) * 8 \<le> length table" "length offsets = i + n + 1"
    and "sorted_wrt (\<lambda>a b. unat a \<le> unat b) offsets" "\<forall>x \<in> set offsets. unat x \<le> length data"
  shows "ivar_slices table data offsets i n = Some (Inr (map (\<lambda>k.
     \<lparr> iv_id = table_id table k,
       iv_data = take (unat (offsets ! Suc k) - unat (offsets ! k)) (drop (unat (offsets ! k)) data) \<rparr>)
     [i..<i + n]))"
  using assms(1,2)
proof (induction n arbitrary: i)
  case (Suc n)
  have "unat (offsets ! i) \<le> unat (offsets ! Suc i)"
    using sorted_wrt_nth_less [OF assms(3), of i "Suc i"] Suc.prems by simp
  moreover have "unat (offsets ! Suc i) \<le> length data"
    using assms(4) Suc.prems by simp
  moreover have "ivar_slices table data offsets (Suc i) n = Some (Inr (map (\<lambda>k.
     \<lparr> iv_id = table_id table k,
       iv_data = take (unat (offsets ! Suc k) - unat (offsets ! k)) (drop (unat (offsets ! k)) data) \<rparr>)
     [Suc i..<Suc i + n]))"
    by (rule Suc.IH) (use Suc.prems in auto)
  moreover have "[i..<i + Suc n] = i # [Suc i..<Suc i + n]"
    by (simp add: upt_conv_Cons del: upt_Suc)
  ultimately show ?case using Suc.prems by (simp add: ivar_slices_step del: upt_Suc)
qed simp

section \<open>Correctness of the decoder\<close>

text \<open>The flat form of an array, as the format description of the header gives it.\<close>

definition ivar_start :: "ivar_item list \<Rightarrow> nat \<Rightarrow> nat" where
  "ivar_start items k = length (concat (map iv_data (take k items)))"

definition ivar_entry :: "ivar_item list \<Rightarrow> nat \<Rightarrow> bytes" where
  "ivar_entry items k =
     write_u32be (if k < length items then iv_id (items ! k) else 0) @
     write_u32be (word_of_nat (ivar_start items k))"

definition ivar_table :: "ivar_item list \<Rightarrow> bytes" where
  "ivar_table items = concat (map (ivar_entry items) [0..<length items + 1])"

definition ivar_flatten :: "ivar_array \<Rightarrow> bytes" where
  "ivar_flatten arr =
     write_u32be ivar_format_tag @ write_u32be 0 @ write_u32be (text_encoding arr) @
     write_u32be (word_of_nat (length (iv_items arr))) @
     ivar_table (iv_items arr) @ concat (map iv_data (iv_items arr))"

definition ivar_ok :: "ivar_array \<Rightarrow> bool" where
  "ivar_ok arr \<longleftrightarrow> length (iv_items arr) < 2 ^ 24
     \<and> length (concat (map iv_data (iv_items arr))) < 2 ^ 32"

lemma ivar_start_mono: "k \<le> m \<Longrightarrow> ivar_start items k \<le> ivar_start items m"
proof -
  assume "k \<le> m"
  then obtain d where "m = k + d" using le_Suc_ex by blast
  then show ?thesis by (simp add: ivar_start_def take_add)
qed

lemma ivar_start_all: "length items \<le> k \<Longrightarrow> ivar_start items k = length (concat (map iv_data items))"
  by (simp add: ivar_start_def)

lemma ivar_start_le: "ivar_start items k \<le> length (concat (map iv_data items))"
  using ivar_start_mono [of k "max k (length items)" items] by (simp add: ivar_start_all)

lemma ivar_slice:
  assumes "k < length items"
  shows "take (ivar_start items (Suc k) - ivar_start items k)
      (drop (ivar_start items k) (concat (map iv_data items))) = iv_data (items ! k)"
proof -
  have "concat (map iv_data items) = concat (map iv_data (take k items)) @
      iv_data (items ! k) @ concat (map iv_data (drop (Suc k) items))"
    by (subst id_take_nth_drop [OF assms]) simp
  then show ?thesis using assms by (simp add: ivar_start_def take_Suc_conv_app_nth)
qed

lemma length_ivar_table [simp]: "length (ivar_table items) = (length items + 1) * 8"
  unfolding ivar_table_def
  by (subst length_concat_blocks [where n = 8]) (simp_all add: ivar_entry_def)

lemma ivar_table_entry:
  assumes "k \<le> length items"
  shows "take 8 (drop (k * 8) (ivar_table items)) = ivar_entry items k"
  unfolding ivar_table_def
  by (subst take_drop_block) (use assms in \<open>simp_all add: ivar_entry_def nth_append\<close>)

text \<open>The overflow guard \<open>itemCount & 0xFF000000\<close> bounds the count by \<open>2 ^ 24\<close>.\<close>

lemma high_byte_zero: "(w :: u32) AND 0xFF000000 = 0 \<longleftrightarrow> unat w < 2 ^ 24"
proof -
  have m: "(0xFF000000 :: u32) = push_bit 24 (mask 8)"
    by (simp add: mask_eq_exp_minus_1 push_bit_eq_mult)
  have "w AND 0xFF000000 = 0 \<longleftrightarrow> w = take_bit 24 w"
    unfolding m by (auto simp: bit_eq_iff bit_simps)
  also have "\<dots> \<longleftrightarrow> unat w = take_bit 24 (unat w)"
    by (metis unsigned_take_bit_eq word_unat_eq_iff)
  also have "\<dots> \<longleftrightarrow> unat w < 2 ^ 24"
    by (metis take_bit_nat_eq_self_iff)
  finally show ?thesis .
qed

text \<open>The header fields and areas of a buffer long enough to hold its table.\<close>

definition ivar_count :: "bytes \<Rightarrow> nat" where
  "ivar_count bs = unat (read_u32be (take 4 (drop 12 bs)))"

definition ivar_table_area :: "bytes \<Rightarrow> bytes" where
  "ivar_table_area bs = take ((ivar_count bs + 1) * 8) (drop 16 bs)"

definition ivar_data_area :: "bytes \<Rightarrow> bytes" where
  "ivar_data_area bs = drop (16 + (ivar_count bs + 1) * 8) bs"

lemma ivar_decode_header:
  "ivar_decode bs =
     (if length bs < 24 then Some (Inl ivar_truncated)
      else if read_u32be (take 4 bs) \<noteq> ivar_format_tag then Some (Inl ivar_wrong_format_tag)
      else if read_u32be (take 4 (drop 12 bs)) AND 0xFF000000 \<noteq> 0
      then Some (Inl impossible_item_count)
      else if length bs < 16 + (ivar_count bs + 1) * 8 then Some (Inl ivar_truncated)
      else and_then (ivar_offsets (ivar_table_area bs) (ivar_data_area bs) 0 (ivar_count bs + 1) 0)
        (\<lambda>offsets. and_then
          (ivar_slices (ivar_table_area bs) (ivar_data_area bs) offsets 0 (ivar_count bs))
          (\<lambda>items. Some (Inr \<lparr> text_encoding = read_u32be (take 4 (drop 8 bs)),
             iv_items = items \<rparr>))))"
  by (simp add: ivar_decode_def ivar_min_size_def span_simps Let_def ivar_count_def
      ivar_table_area_def ivar_data_area_def del: One_nat_def)

definition ivar_offset_list :: "bytes \<Rightarrow> u32 list" where
  "ivar_offset_list bs = map (table_offset (ivar_table_area bs)) [0..<ivar_count bs + 1]"

lemma ivar_decode_body:
  assumes "\<not> length bs < 16 + (ivar_count bs + 1) * 8"
    and "ivar_offsets (ivar_table_area bs) (ivar_data_area bs) 0 (ivar_count bs + 1) 0
      = Some (Inr offsets)"
  shows "offsets = ivar_offset_list bs"
    and "ivar_slices (ivar_table_area bs) (ivar_data_area bs) offsets 0 (ivar_count bs)
      = Some (Inr (map (\<lambda>k. \<lparr> iv_id = table_id (ivar_table_area bs) k,
          iv_data = take (unat (offsets ! Suc k) - unat (offsets ! k))
                      (drop (unat (offsets ! k)) (ivar_data_area bs)) \<rparr>) [0..<ivar_count bs]))"
    and "sorted_wrt (\<lambda>a b. unat a \<le> unat b) offsets
      \<and> (\<forall>x \<in> set offsets. unat x \<le> length (ivar_data_area bs))"
proof -
  have len: "length (ivar_table_area bs) = (ivar_count bs + 1) * 8"
    using assms(1) by (simp add: ivar_table_area_def)
  have o: "offsets = map (table_offset (ivar_table_area bs)) [0..<0 + (ivar_count bs + 1)]
      \<and> sorted_wrt (\<lambda>a b. unat a \<le> unat b) (0 # offsets)
      \<and> (\<forall>x \<in> set offsets. unat x \<le> length (ivar_data_area bs))"
    by (rule ivar_offsets_Ok [OF _ assms(2)]) (simp add: len)
  then show "offsets = ivar_offset_list bs" by (simp add: ivar_offset_list_def)
  show "sorted_wrt (\<lambda>a b. unat a \<le> unat b) offsets
      \<and> (\<forall>x \<in> set offsets. unat x \<le> length (ivar_data_area bs))"
    using conjunct2 [OF o] by simp
  have "length offsets = ivar_count bs + 1" using o by simp
  then show "ivar_slices (ivar_table_area bs) (ivar_data_area bs) offsets 0 (ivar_count bs)
      = Some (Inr (map (\<lambda>k. \<lparr> iv_id = table_id (ivar_table_area bs) k,
          iv_data = take (unat (offsets ! Suc k) - unat (offsets ! k))
                      (drop (unat (offsets ! k)) (ivar_data_area bs)) \<rparr>) [0..<ivar_count bs]))"
    using ivar_slices_Ok [of 0 "ivar_count bs" "ivar_table_area bs" offsets "ivar_data_area bs"]
      conjunct1 [OF conjunct2 [OF o]] conjunct2 [OF conjunct2 [OF o]] len
    by (simp del: upt_Suc)
qed

text \<open>The decoder never reads outside its input.\<close>

theorem ivar_decode_safe: "ivar_decode bs \<noteq> None"
proof (cases "length bs < 16 + (ivar_count bs + 1) * 8")
  case True
  then show ?thesis by (simp add: ivar_decode_header)
next
  case False
  then have "ivar_offsets (ivar_table_area bs) (ivar_data_area bs) 0 (ivar_count bs + 1) 0 \<noteq> None"
    by (intro ivar_offsets_safe) (simp add: ivar_table_area_def)
  then have "and_then (ivar_offsets (ivar_table_area bs) (ivar_data_area bs) 0 (ivar_count bs + 1) 0)
        (\<lambda>offsets. and_then
          (ivar_slices (ivar_table_area bs) (ivar_data_area bs) offsets 0 (ivar_count bs))
          (\<lambda>items. Some (Inr \<lparr> text_encoding = read_u32be (take 4 (drop 8 bs)),
             iv_items = items \<rparr>))) \<noteq> None"
    by (rule and_then_safe) (simp add: ivar_decode_body(2) [OF False])
  then show ?thesis unfolding ivar_decode_header by simp
qed

lemma ivar_find_first:
  "ivar_find arr key = Some item \<longleftrightarrow>
     (\<exists>i < length (iv_items arr). iv_items arr ! i = item \<and> iv_id item = key
        \<and> (\<forall>j < i. iv_id (iv_items arr ! j) \<noteq> key))"
  by (auto simp: ivar_find_def find_Some_iff)

lemma ivar_decode_flatten:
  assumes "ivar_ok arr"
  shows "ivar_decode (ivar_flatten arr) = Some (Inr arr)"
proof -
  define bs where "bs = ivar_flatten arr"
  define items where "items = iv_items arr"
  have small: "length items < 2 ^ 24" "length (concat (map iv_data items)) < 2 ^ 32"
    using assms by (simp_all add: ivar_ok_def items_def)
  have "unat (word_of_nat (length items) :: u32) = length items"
    using small by (intro word_of_nat_inverse32) simp
  then have count: "ivar_count bs = length items"
    by (simp add: ivar_count_def bs_def ivar_flatten_def items_def)
  have table: "ivar_table_area bs = ivar_table items"
    unfolding ivar_table_area_def count
    by (simp add: bs_def ivar_flatten_def flip: items_def)
  have data: "ivar_data_area bs = concat (map iv_data items)"
    unfolding ivar_data_area_def count
    by (simp add: bs_def ivar_flatten_def flip: items_def)
  have off: "unat (table_offset (ivar_table items) k) = ivar_start items k"
    and id: "table_id (ivar_table items) k = (if k < length items then iv_id (items ! k) else 0)"
    if "k \<le> length items" for k
  proof -
    have "ivar_start items k < 4294967296"
      using ivar_start_le [of items k] small by simp
    then show "unat (table_offset (ivar_table items) k) = ivar_start items k"
      by (simp add: table_offset_def ivar_table_entry [OF that] ivar_entry_def word_of_nat_inverse32)
    have "table_id (ivar_table items) k
        = read_u32be (take 4 (take 8 (drop (k * 8) (ivar_table items))))"
      by (simp add: table_id_def)
    then show "table_id (ivar_table items) k = (if k < length items then iv_id (items ! k) else 0)"
      unfolding ivar_table_entry [OF that] by (simp add: ivar_entry_def)
  qed
  have "sorted_wrt (\<lambda>a b. unat a \<le> unat b)
      (map (table_offset (ivar_table items)) [0..<length items + 1])"
    unfolding sorted_wrt_map sorted_wrt_iff_nth_less
    by (auto simp: off ivar_start_mono simp del: upt_Suc)
  then have offsets: "ivar_offsets (ivar_table items) (concat (map iv_data items)) 0 (length items + 1) 0
      = Some (Inr (map (table_offset (ivar_table items)) [0..<0 + (length items + 1)]))"
    by (intro ivar_offsets_accept) (auto simp: off ivar_start_le simp del: upt_Suc)
  have long: "\<not> length bs < 16 + (ivar_count bs + 1) * 8"
    unfolding count by (simp add: bs_def ivar_flatten_def flip: items_def)
  have "ivar_slices (ivar_table items) (concat (map iv_data items))
      (map (table_offset (ivar_table items)) [0..<length items + 1]) 0 (length items)
      = Some (Inr (map (\<lambda>k. items ! k) [0..<length items]))"
    using ivar_decode_body(2) [of bs, OF long] offsets
    by (simp add: table data count off id ivar_slice cong: map_cong del: upt_Suc)
  moreover have "read_u32be (take 4 (drop 12 bs)) AND 0xFF000000 = 0"
    using small(1) count by (simp add: high_byte_zero ivar_count_def)
  moreover have "read_u32be (take 4 bs) = ivar_format_tag"
      "read_u32be (take 4 (drop 8 bs)) = text_encoding arr"
    by (simp_all add: bs_def ivar_flatten_def)
  ultimately have "ivar_decode bs = Some (Inr \<lparr> text_encoding = text_encoding arr, iv_items = items \<rparr>)"
    unfolding ivar_decode_header table data using long offsets
    by (simp add: count map_nth del: upt_Suc)
  then show ?thesis by (simp add: bs_def items_def)
qed

text \<open>C35: Every representable array is decoded from its flattened form, with the text encoding, the
  identifiers and the data of every item, and a lookup returns the first item of its identifier.\<close>

theorem ivar_round_trip:
  assumes "ivar_ok arr"
  shows "ivar_decode (ivar_flatten arr) = Some (Inr arr) \<and>
    (\<forall>item key. ivar_find arr key = Some item \<longleftrightarrow>
      (\<exists>i < length (iv_items arr). iv_items arr ! i = item \<and> iv_id item = key
        \<and> (\<forall>j < i. iv_id (iv_items arr ! j) \<noteq> key)))"
  by (simp add: ivar_decode_flatten [OF assms] ivar_find_first)

theorem ivar_round_trip_witness:
  "let arr = \<lparr> text_encoding = 1, iv_items = [\<lparr> iv_id = 7, iv_data = [1, 2] \<rparr>, \<lparr> iv_id = 9, iv_data = [] \<rparr>] \<rparr>
   in ivar_decode (ivar_flatten arr) = Some (Inr arr)"
  using ivar_round_trip [of "\<lparr> text_encoding = 1, iv_items = [\<lparr> iv_id = 7, iv_data = [1, 2] \<rparr>, \<lparr> iv_id = 9, iv_data = [] \<rparr>] \<rparr>"]
  by (simp add: ivar_ok_def)

text \<open>Consecutive slices of a list join up.\<close>

lemma concat_slices:
  assumes "\<And>k. i \<le> k \<Longrightarrow> k < i + n \<Longrightarrow> f k \<le> f (Suc k)"
  shows "f i \<le> f (i + n) \<and>
    concat (map (\<lambda>k. take (f (Suc k) - f k) (drop (f k) xs)) [i..<i + n])
      = take (f (i + n) - f i) (drop (f i) xs)"
  using assms
proof (induction n)
  case (Suc n)
  then have IH: "f i \<le> f (i + n)" "f (i + n) \<le> f (Suc (i + n))"
    "concat (map (\<lambda>k. take (f (Suc k) - f k) (drop (f k) xs)) [i..<i + n])
      = take (f (i + n) - f i) (drop (f i) xs)" by auto
  have "take (f (i + n) - f i) (drop (f i) xs) @ take (f (Suc (i + n)) - f (i + n)) (drop (f (i + n)) xs)
      = take ((f (i + n) - f i) + (f (Suc (i + n)) - f (i + n))) (drop (f i) xs)"
    unfolding take_add using IH by (simp add: add.commute)
  moreover have "(f (i + n) - f i) + (f (Suc (i + n)) - f (i + n)) = f (Suc (i + n)) - f i"
    using IH by simp
  ultimately show ?case using IH by simp
qed simp

text \<open>An accepted array lists its items in table order, and their data are consecutive
  slices that together make up one contiguous stretch of the data area.\<close>

theorem ivar_decode_partition:
  assumes "ivar_decode bs = Some (Inr arr)"
  shows "length (iv_items arr) = ivar_count bs \<and> ivar_count bs < 2 ^ 24
    \<and> map iv_id (iv_items arr) = map (table_id (ivar_table_area bs)) [0..<ivar_count bs]
    \<and> (\<exists>lo hi. lo \<le> hi \<and> hi \<le> length (ivar_data_area bs)
         \<and> concat (map iv_data (iv_items arr)) = take (hi - lo) (drop lo (ivar_data_area bs)))"
proof -
  have long: "\<not> length bs < 16 + (ivar_count bs + 1) * 8"
    and small: "ivar_count bs < 2 ^ 24"
    and body: "and_then (ivar_offsets (ivar_table_area bs) (ivar_data_area bs) 0 (ivar_count bs + 1) 0)
        (\<lambda>offsets. and_then
          (ivar_slices (ivar_table_area bs) (ivar_data_area bs) offsets 0 (ivar_count bs))
          (\<lambda>items. Some (Inr \<lparr> text_encoding = read_u32be (take 4 (drop 8 bs)),
             iv_items = items \<rparr>))) = Some (Inr arr)"
    using assms unfolding ivar_decode_header
    by (auto simp: high_byte_zero ivar_count_def split: if_splits)
  let ?off = "\<lambda>k. unat (ivar_offset_list bs ! k)"
  obtain offsets where o: "ivar_offsets (ivar_table_area bs) (ivar_data_area bs) 0
      (ivar_count bs + 1) 0 = Some (Inr offsets)"
    using body by (auto simp: and_then_Ok)
  note o' = ivar_decode_body [OF long o]
  have items: "iv_items arr = map (\<lambda>k. \<lparr> iv_id = table_id (ivar_table_area bs) k,
      iv_data = take (?off (Suc k) - ?off k) (drop (?off k) (ivar_data_area bs)) \<rparr>) [0..<ivar_count bs]"
    using body unfolding o and_then_simps o'(2) by (auto simp: o'(1))
  have facts: "sorted_wrt (\<lambda>a b. unat a \<le> unat b) (ivar_offset_list bs)"
      "\<forall>x \<in> set (ivar_offset_list bs). unat x \<le> length (ivar_data_area bs)"
    using o'(3) by (simp_all add: o'(1))
  have len: "length (ivar_offset_list bs) = ivar_count bs + 1"
    by (simp add: ivar_offset_list_def)
  have "?off k \<le> ?off (Suc k)" if "k < 0 + ivar_count bs" for k
    using facts(1) that len by (auto dest: sorted_wrt_nth_less [of _ _ k "Suc k"])
  then have "?off 0 \<le> ?off (ivar_count bs) \<and> concat (map iv_data (iv_items arr))
      = take (?off (ivar_count bs) - ?off 0) (drop (?off 0) (ivar_data_area bs))"
    using concat_slices [of 0 "ivar_count bs" ?off "ivar_data_area bs"]
    by (simp add: items comp_def)
  moreover have "?off (ivar_count bs) \<le> length (ivar_data_area bs)"
    using facts(2) len by simp
  ultimately have "\<exists>lo hi. lo \<le> hi \<and> hi \<le> length (ivar_data_area bs)
         \<and> concat (map iv_data (iv_items arr)) = take (hi - lo) (drop lo (ivar_data_area bs))"
    by blast
  then show ?thesis using small by (simp add: items comp_def)
qed

theorem ivar_decode_partition_witness:
  "let bs = ivar_flatten \<lparr> text_encoding = 1, iv_items = [\<lparr> iv_id = 7, iv_data = [1, 2] \<rparr>] \<rparr>
   in 1 = ivar_count bs \<and> [7] = map (table_id (ivar_table_area bs)) [0..<ivar_count bs]"
  using ivar_decode_partition [OF ivar_decode_flatten [of "\<lparr> text_encoding = 1,
    iv_items = [\<lparr> iv_id = 7, iv_data = [1, 2] \<rparr>] \<rparr>"]]
  by (simp add: ivar_ok_def)

end
