(* ===== verification/Core_Properties.thy ===== *)
theory Core_Properties
  imports Bit_Array Ivar_Array Hmac Blowfish Digest_MD5 Digest_SHA1
begin

unbundle bit_operations_syntax

text \<open>
  The properties of the AppWarrior core and crypto libraries, over the lemmas of the theories
  that model them: bit arrays (\<open>core/bits.h\<close>), the cipher and its stream
  (\<open>crypto/blowfish.h\<close>), the digests and the authentication code (\<open>crypto/md5.h\<close>,
  \<open>crypto/sha1.h\<close>, \<open>crypto/hmac.h\<close>).
\<close>

section \<open>Bit arrays\<close>

text \<open>A byte span is an array of bits, the most significant bit of each byte first.  Within
  the span the five operations read, set, clear, invert and assign exactly the bit of that index;
  outside it they would touch a byte that is not there.\<close>

theorem bit_array_operations:
  "(unat i < 8 * length data \<longrightarrow>
      get_bit data i = Some (bit_view data ! unat i) \<and>
      map_option bit_view (set_bit_at data i) = Some ((bit_view data)[unat i := True]) \<and>
      map_option bit_view (clear_bit_at data i) = Some ((bit_view data)[unat i := False]) \<and>
      map_option bit_view (invert_bit_at data i) = Some ((bit_view data)[unat i := \<not> bit_view data ! unat i]) \<and>
      map_option bit_view (set_bit_to data i v) = Some ((bit_view data)[unat i := v])) \<and>
   (8 * length data \<le> unat i \<longrightarrow> get_bit data i = None \<and> set_bit_to data i v = None)"
proof (intro conjI impI)
  assume "8 * length data \<le> unat i"
  then have "\<not> unat i div 8 < length data" by (simp add: in_bounds [symmetric])
  then show "get_bit data i = None" "set_bit_to data i v = None"
    by (simp_all add: get_bit_def set_bit_to_def set_bit_at_def clear_bit_at_def span_at_def unat_byte_index)
next
  assume i: "unat i < 8 * length data"
  show "map_option bit_view (set_bit_to data i v) = Some ((bit_view data)[unat i := v])"
    using set_bit_view [OF i] clear_bit_view [OF i] by (cases v) (simp_all add: set_bit_to_def)
qed (rule get_bit_view set_bit_view clear_bit_view invert_bit_view, assumption)+

theorem bit_array_operations_witness:
  "map_option bit_view (set_bit_to [0] 1 True) = Some ((bit_view [0])[1 := True]) \<and> get_bit [0] 8 = None"
  using bit_array_operations [of 1 "[0]" True] bit_array_operations [of 8 "[0]" True] by simp

section \<open>Blowfish\<close>

text \<open>C32: With the same key for both directions, expanding the key succeeds and decryption undoes
  encryption on every block.  The key is not empty, the precondition the header states and the
  code does not check.\<close>

theorem blowfish_block_inverse:
  assumes "length block = 8" and "key \<noteq> []"
  shows "\<exists>e d. set_encode_key key c = Some e \<and> set_decode_key key e = Some d \<and>
      decrypt_block d (encrypt_block d block) = block"
proof -
  from assms(2) obtain k where k: "expand_key key = Some k" using expand_key_total by blast
  show "\<exists>e d. set_encode_key key c = Some e \<and> set_decode_key key e = Some d \<and>
      decrypt_block d (encrypt_block d block) = block"
    by (rule exI [of _ "c\<lparr> bf_encode_key := k \<rparr>"],
        rule exI [of _ "c\<lparr> bf_encode_key := k, bf_decode_key := k \<rparr>"])
      (simp add: set_encode_key_def set_decode_key_def k decrypt_encrypt_block assms)
qed

theorem blowfish_block_inverse_witness:
  "\<exists>e d. set_encode_key [1, 2, 3] blowfish_new = Some e \<and> set_decode_key [1, 2, 3] e = Some d \<and>
     decrypt_block d (encrypt_block d [0, 1, 2, 3, 4, 5, 6, 7]) = [0, 1, 2, 3, 4, 5, 6, 7]"
  using blowfish_block_inverse [of "[0, 1, 2, 3, 4, 5, 6, 7]" "[1, 2, 3]" blowfish_new] by simp

text \<open>C33: The OFB stream is its own inverse, does not depend on how the data is split into calls,
  keeps the length, and moves on by the length alone: a receiver that starts in the sender's state
  recovers the data and ends in the sender's state.\<close>

theorem ofb_stream_contract:
  "(let (s', ys) = encode_stream c s xs in
      decode_stream (c\<lparr> bf_decode_key := bf_encode_key c \<rparr>) s ys = (s', xs) \<and> length ys = length xs) \<and>
   encode_stream c s (xs @ zs) =
     (let (s1, ys) = encode_stream c s xs; (s2, ws) = encode_stream c s1 zs in (s2, ys @ ws)) \<and>
   (length xs = length vs \<longrightarrow> fst (encode_stream c s xs) = fst (encode_stream c s vs))"
  using ofb_process_append [of "bf_encode_key c" s xs zs] ofb_state_data_free [of xs vs]
  by (simp add: encode_stream_def decode_stream_def ofb_process_involution split: prod.split)
    (metis fst_conv ofb_process_involution ofb_process_length snd_conv)

theorem ofb_stream_contract_witness:
  "fst (encode_stream blowfish_new ofb_new [1, 2]) = fst (encode_stream blowfish_new ofb_new [3, 4])"
  using ofb_stream_contract [of blowfish_new ofb_new "[1, 2]" "[]" "[3, 4]"] by simp

section \<open>Digests\<close>

text \<open>C34: The one-shot digests, with their block loop, tail buffer and overflow block, compute the
  textbook definition: the compression function folded over the padded message cut into blocks of
  64 bytes, from the initial state; the results have 16 and 20 bytes.\<close>

theorem digests_refine_spec:
  "md5_digest message = md5_spec message \<and> length (md5_digest message) = 16 \<and>
   sha1_digest message = sha1_spec message \<and> length (sha1_digest message) = 20"
  by (intro conjI) (rule md5_digest_spec sha1_digest_spec length_md5_digest length_sha1_digest)+

end
