(* ===== verification/Guid_Codec.thy ===== *)
theory Guid_Codec
  imports Endian
begin

text \<open>
  The GUID codec of \<open>appwarrior/core/guid.h\<close>: a 16-byte identifier in the Microsoft
  network form.  It is the first interpretation of \<open>fixed_codec\<close>.
\<close>

definition guid_size :: nat where
  "guid_size = 16"

record guid =
  time_low :: u32
  time_mid :: u16
  time_hi_and_version :: u16
  clock_seq_hi_and_reserved :: u8
  clock_seq_low :: u8
  guid_node :: bytes

text \<open>\<open>std::array<std::uint8_t, 6> node\<close> always has six elements.\<close>

definition guid_ok :: "guid \<Rightarrow> bool" where
  "guid_ok g \<longleftrightarrow> length (guid_node g) = 6"

definition guid_encode :: "guid \<Rightarrow> bytes" where
  "guid_encode g =
     write_u32be (time_low g) @ write_u16be (time_mid g) @
     write_u16be (time_hi_and_version g) @
     [clock_seq_hi_and_reserved g] @ [clock_seq_low g] @
     map (\<lambda>i. guid_node g ! i) [0..<6]"

definition guid_decode :: "bytes \<Rightarrow> guid" where
  "guid_decode b = \<lparr>
     time_low = read_u32be (take 4 b),
     time_mid = read_u16be (take 2 (drop 4 b)),
     time_hi_and_version = read_u16be (take 2 (drop 6 b)),
     clock_seq_hi_and_reserved = b ! 8,
     clock_seq_low = b ! 9,
     guid_node = map (\<lambda>i. b ! (10 + i)) [0..<6] \<rparr>"

definition guid_try_decode :: "bytes \<Rightarrow> (DecodeError, guid) checked" where
  "guid_try_decode bs =
     (if length bs < guid_size then Some (Inl truncated)
      else if length bs > guid_size then Some (Inl trailing_bytes)
      else do { b \<leftarrow> span_first guid_size bs; Some (Inr (guid_decode b)) })"

lemma guid_try_decode_fixed: "guid_try_decode = try_fixed guid_size guid_decode"
  by (simp add: fun_eq_iff guid_try_decode_def try_fixed_def)

lemma map_nth_all: "length xs = n \<Longrightarrow> map (\<lambda>i. xs ! i) [0..<n] = xs"
  by (metis map_nth)

lemma map_nth_tail: "length bs = k + n \<Longrightarrow> map (\<lambda>i. bs ! (k + i)) [0..<n] = drop k bs"
  by (rule nth_equalityI) simp_all

lemma nth_take_drop1: "k < length bs \<Longrightarrow> bs ! k # drop (Suc k) bs = drop k bs"
  by (rule Cons_nth_drop_Suc)

lemma guid_decode_encode:
  assumes "guid_ok g"
  shows "guid_decode (guid_encode g) = g"
proof -
  have "length (guid_node g) = 6" using assms by (simp add: guid_ok_def)
  then have n: "map (\<lambda>i. guid_node g ! i) [0..<6] = guid_node g" by (rule map_nth_all)
  show ?thesis
    using map_nth_tail [of "guid_encode g" 10 6] assms
    by (simp add: guid_decode_def guid_encode_def n guid_ok_def nth_append)
qed

lemma guid_encode_decode:
  assumes "length bs = guid_size"
  shows "guid_encode (guid_decode bs) = bs"
proof -
  have l: "length bs = 16" using assms by (simp add: guid_size_def)
  have "map (\<lambda>i. bs ! (10 + i)) [0..<6] = drop 10 bs"
    by (rule map_nth_tail) (simp add: l)
  then have node: "map (\<lambda>i. guid_node (guid_decode bs) ! i) [0..<6] = drop 10 bs"
    using l by (simp add: guid_decode_def map_nth_all)
  have "guid_encode (guid_decode bs) =
      take 4 bs @ take 2 (drop 4 bs) @ take 2 (drop 6 bs) @ bs ! 8 # bs ! 9 # drop 10 bs"
    using l unfolding guid_encode_def node by (simp add: guid_decode_def)
  also have "bs ! 9 # drop 10 bs = drop 9 bs"
    using nth_take_drop1 [of 9 bs] l by simp
  also have "bs ! 8 # drop 9 bs = drop 8 bs"
    using nth_take_drop1 [of 8 bs] l by simp
  finally show ?thesis by (simp add: take_drop_join)
qed

interpretation guid: fixed_codec guid_size guid_encode guid_decode guid_ok
proof
  fix g assume "guid_ok g"
  then show "length (guid_encode g) = guid_size"
    by (simp add: guid_encode_def guid_size_def)
next
  fix bs :: bytes assume "length bs = guid_size"
  then show "guid_ok (guid_decode bs)" by (simp add: guid_ok_def guid_decode_def)
qed (simp_all add: guid_decode_encode guid_encode_decode)

text \<open>The GUID decoder accepts exactly the encodings of GUIDs.\<close>

theorem guid_codec_exact:
  "guid_try_decode bs = Some (Inr g) \<longleftrightarrow> guid_ok g \<and> bs = guid_encode g"
  unfolding guid_try_decode_fixed by (rule guid.accepts_exactly)

end
