(* ===== verification/File_Transfer.thy ===== *)
theory File_Transfer
  imports Payloads
begin

unbundle bit_operations_syntax

text \<open>
  The file-transfer payloads (\<open>hotline/protocol/transfer.h\<close>, \<open>transfer.cpp\<close>): the
  FILP flat-file package and its INFO fork, the RFLT resume record, and the items and commands of
  a folder download.
\<close>

definition kFlatFileFormat :: u32 where
  "kFlatFileFormat = four_cc CHR ''F'' CHR ''I'' CHR ''L'' CHR ''P''"
definition kForkTypeInfo :: u32 where
  "kForkTypeInfo = four_cc CHR ''I'' CHR ''N'' CHR ''F'' CHR ''O''"
definition kForkTypeData :: u32 where
  "kForkTypeData = four_cc CHR ''D'' CHR ''A'' CHR ''T'' CHR ''A''"
definition kFlatFileHeaderSize :: nat where "kFlatFileHeaderSize = 24"
definition kFlatFileForkHeaderSize :: nat where "kFlatFileForkHeaderSize = 16"
definition kFlatFileInfoFixedSize :: nat where "kFlatFileInfoFixedSize = 72"
definition kResumeDataFormat :: u32 where
  "kResumeDataFormat = four_cc CHR ''R'' CHR ''F'' CHR ''L'' CHR ''T''"
definition kResumeDataHeaderSize :: nat where "kResumeDataHeaderSize = 42"
definition kResumeEntrySize :: nat where "kResumeEntrySize = 16"

lemmas transfer_sizes [simp] =
  kFlatFileHeaderSize_def kFlatFileForkHeaderSize_def kFlatFileInfoFixedSize_def
  kResumeDataHeaderSize_def kResumeEntrySize_def

section \<open>The flat-file package\<close>

record flat_file_fork =
  ff_type :: u32
  ff_compression_type :: u32
  ff_data :: bytes

record flat_file =
  flat_version :: u16
  flat_forks :: "flat_file_fork list"

definition emit_fork :: "flat_file_fork \<Rightarrow> bytes" where
  "emit_fork f = write_u32be (ff_type f) @ write_u32be (ff_compression_type f) @ write_u32be 0 @
     write_u32be (word_of_nat (length (ff_data f))) @ ff_data f"

definition encode_flat_file :: "flat_file \<Rightarrow> EncodeError + bytes" where
  "encode_flat_file file =
     (if length (flat_forks file) > kMaxFieldCount then Inl count_too_large
      else Inr (write_u32be kFlatFileFormat @ write_u16be (flat_version file) @ replicate 16 0 @
        write_u16be (word_of_nat (length (flat_forks file))) @
        concat (map emit_fork (flat_forks file))))"

definition decode_fork :: "bytes \<Rightarrow> (DecodeError, flat_file_fork \<times> bytes) checked" where
  "decode_fork bs =
     (if length bs < kFlatFileForkHeaderSize then Some (Inl truncated)
      else do {
        type \<leftarrow> u32be_at 0 bs;
        compression \<leftarrow> u32be_at 4 bs;
        data_size \<leftarrow> u32be_at 12 bs;
        rest \<leftarrow> span_from kFlatFileForkHeaderSize bs;
        if length rest < unat data_size then Some (Inl truncated)
        else do {
          data \<leftarrow> span_first (unat data_size) rest;
          rest' \<leftarrow> span_from (unat data_size) rest;
          Some (Inr (\<lparr> ff_type = type, ff_compression_type = compression, ff_data = data \<rparr>, rest')) } })"

definition try_decode_flat_file :: "bytes \<Rightarrow> (DecodeError, flat_file) checked" where
  "try_decode_flat_file bs =
     (if length bs < kFlatFileHeaderSize then Some (Inl truncated)
      else do {
        tag \<leftarrow> u32be_at 0 bs;
        if tag \<noteq> kFlatFileFormat then Some (Inl wrong_format_tag)
        else do {
          version \<leftarrow> u16be_at 4 bs;
          fork_count \<leftarrow> u16be_at 22 bs;
          rest \<leftarrow> span_from kFlatFileHeaderSize bs;
          and_then (read_many decode_fork (unat fork_count) rest) (\<lambda>(forks, rest').
            if rest' \<noteq> [] then Some (Inl trailing_bytes)
            else Some (Inr \<lparr> flat_version = version, flat_forks = forks \<rparr>)) } })"

definition fork_ok :: "flat_file_fork \<Rightarrow> bool" where
  "fork_ok f \<longleftrightarrow> length (ff_data f) < 2 ^ 32"

definition flat_file_ok :: "flat_file \<Rightarrow> bool" where
  "flat_file_ok file \<longleftrightarrow> length (flat_forks file) \<le> kMaxFieldCount \<and> list_all fork_ok (flat_forks file)"

lemma decode_fork_wire:
  "decode_fork (write_u32be t @ write_u32be c @ write_u32be r @ write_u32be n @ body) =
     (if length body < unat n then Some (Inl truncated)
      else Some (Inr (\<lparr> ff_type = t, ff_compression_type = c, ff_data = take (unat n) body \<rparr>,
        drop (unat n) body)))"
  by (simp add: decode_fork_def span_simps)

lemma decode_fork_safe: "decode_fork bs \<noteq> None"
  by (simp add: decode_fork_def span_simps)

interpretation fork: element emit_fork decode_fork fork_ok
proof (unfold_locales, goal_cases)
  case (1 f rest)
  then have "unat (word_of_nat (length (ff_data f)) :: u32) = length (ff_data f)"
    by (simp add: fork_ok_def word_of_nat_inverse32)
  then show ?case by (simp add: emit_fork_def decode_fork_wire)
next
  case (2 bs)
  show ?case by (rule decode_fork_safe)
qed

lemma try_decode_flat_file_wire:
  "length rsvd = 16 \<Longrightarrow>
   try_decode_flat_file (write_u32be kFlatFileFormat @ write_u16be v @ rsvd @ write_u16be n @ body) =
     and_then (read_many decode_fork (unat n) body) (\<lambda>(forks, rest').
       if rest' \<noteq> [] then Some (Inl trailing_bytes)
       else Some (Inr \<lparr> flat_version = v, flat_forks = forks \<rparr>))"
  by (simp add: try_decode_flat_file_def span_simps)

lemma try_decode_flat_file_safe: "try_decode_flat_file bs \<noteq> None"
proof -
  have "and_then (read_many decode_fork n rest) (\<lambda>(forks, rest').
      if rest' \<noteq> [] then Some (Inl trailing_bytes)
      else Some (Inr \<lparr> flat_version = v, flat_forks = forks \<rparr>)) \<noteq> None" for n rest v
    by (rule and_then_safe [OF fork.many_safe]) (auto split: prod.splits)
  then show ?thesis by (simp add: try_decode_flat_file_def span_simps)
qed

interpretation flat: codec encode_flat_file try_decode_flat_file flat_file_ok
proof (unfold_locales, goal_cases)
  case (1 x)
  then show ?case by (simp add: encode_flat_file_def flat_file_ok_def)
next
  case (2 x bs)
  then show ?case
    by (auto simp: encode_flat_file_def flat_file_ok_def try_decode_flat_file_wire fork.many_emit_all)
next
  case (3 bs)
  show ?case by (rule try_decode_flat_file_safe)
next
  case (4 x bs xs)
  then show ?case
    by (auto simp: encode_flat_file_def flat_file_ok_def try_decode_flat_file_wire fork.many_emit)
qed

section \<open>The INFO fork\<close>

record flat_file_info =
  fork_platform :: u32
  fork_type_sig :: u32
  fork_creator_sig :: u32
  fork_flags :: u32
  fork_platform_flags :: u32
  fork_reserved :: bytes
  fork_create_date :: date_time_stamp
  fork_modify_date :: date_time_stamp
  fork_name_script :: u16
  fork_name :: string
  fork_comment :: bytes

text \<open>\<open>std::array<std::byte, 32> reserved\<close> always has 32 elements.\<close>

definition info_fork_ok :: "flat_file_info \<Rightarrow> bool" where
  "info_fork_ok i \<longleftrightarrow> length (fork_reserved i) = 32
     \<and> length (fork_name i) \<le> kMaxFieldDataSize \<and> length (fork_comment i) \<le> kMaxFieldDataSize"

definition encode_info_fork :: "flat_file_info \<Rightarrow> EncodeError + bytes" where
  "encode_info_fork i =
     (if length (fork_name i) > kMaxFieldDataSize \<or> length (fork_comment i) > kMaxFieldDataSize
      then Inl string_too_long
      else Inr (write_u32be (fork_platform i) @ write_u32be (fork_type_sig i) @
        write_u32be (fork_creator_sig i) @ write_u32be (fork_flags i) @
        write_u32be (fork_platform_flags i) @ fork_reserved i @
        write_u16be (dts_year (fork_create_date i)) @ write_u16be (dts_msecs (fork_create_date i)) @
        write_u32be (dts_seconds (fork_create_date i)) @
        write_u16be (dts_year (fork_modify_date i)) @ write_u16be (dts_msecs (fork_modify_date i)) @
        write_u32be (dts_seconds (fork_modify_date i)) @
        write_u16be (fork_name_script i) @ write_u16be (word_of_nat (length (fork_name i))) @
        map byte_of_char (fork_name i) @
        write_u16be (word_of_nat (length (fork_comment i))) @ fork_comment i))"

text \<open>\<open>.value()\<close> throws when there is an error instead of a value.\<close>

definition expected_value :: "('e, 'a) checked \<Rightarrow> 'a option" where
  "expected_value r = (case r of Some (Inr x) \<Rightarrow> Some x | _ \<Rightarrow> None)"

definition try_decode_info_fork :: "bytes \<Rightarrow> (DecodeError, flat_file_info) checked" where
  "try_decode_info_fork bs =
     (if length bs < kFlatFileInfoFixedSize then Some (Inl truncated)
      else do {
        platform \<leftarrow> u32be_at 0 bs;
        type_sig \<leftarrow> u32be_at 4 bs;
        creator_sig \<leftarrow> u32be_at 8 bs;
        flags \<leftarrow> u32be_at 12 bs;
        platform_flags \<leftarrow> u32be_at 16 bs;
        reserved \<leftarrow> span_sub 20 32 bs;
        create_bytes \<leftarrow> span_sub 52 8 bs;
        modify_bytes \<leftarrow> span_sub 60 8 bs;
        create \<leftarrow> expected_value (try_decode_date_time_stamp create_bytes);
        modify \<leftarrow> expected_value (try_decode_date_time_stamp modify_bytes);
        name_script \<leftarrow> u16be_at 68 bs;
        name_size \<leftarrow> u16be_at 70 bs;
        if length bs < kFlatFileInfoFixedSize + unat name_size + 2 then Some (Inl truncated)
        else do {
          name \<leftarrow> span_sub kFlatFileInfoFixedSize (unat name_size) bs;
          comment_size \<leftarrow> u16be_at (kFlatFileInfoFixedSize + unat name_size) bs;
          let total = kFlatFileInfoFixedSize + unat name_size + 2 + unat comment_size;
          if length bs < total then Some (Inl truncated)
          else if length bs > total then Some (Inl trailing_bytes)
          else do {
            comment \<leftarrow> span_sub (kFlatFileInfoFixedSize + unat name_size + 2) (unat comment_size) bs;
            Some (Inr \<lparr> fork_platform = platform, fork_type_sig = type_sig,
              fork_creator_sig = creator_sig, fork_flags = flags,
              fork_platform_flags = platform_flags, fork_reserved = reserved,
              fork_create_date = create, fork_modify_date = modify,
              fork_name_script = name_script, fork_name = read_raw_name name,
              fork_comment = comment \<rparr>) } } })"

text \<open>The wire form in two pieces: the 70 bytes of fixed members, and the two counted strings.\<close>

definition info_fixed :: "flat_file_info \<Rightarrow> bytes" where
  "info_fixed i = write_u32be (fork_platform i) @ write_u32be (fork_type_sig i) @
     write_u32be (fork_creator_sig i) @ write_u32be (fork_flags i) @
     write_u32be (fork_platform_flags i) @ fork_reserved i @
     encode_date_time_stamp (fork_create_date i) @ encode_date_time_stamp (fork_modify_date i) @
     write_u16be (fork_name_script i)"

definition read_info_fixed :: "bytes \<Rightarrow> string \<Rightarrow> bytes \<Rightarrow> flat_file_info" where
  "read_info_fixed b name comment = \<lparr> fork_platform = read_u32be (take 4 b),
     fork_type_sig = read_u32be (take 4 (drop 4 b)), fork_creator_sig = read_u32be (take 4 (drop 8 b)),
     fork_flags = read_u32be (take 4 (drop 12 b)), fork_platform_flags = read_u32be (take 4 (drop 16 b)),
     fork_reserved = take 32 (drop 20 b),
     fork_create_date = decode_date_time_stamp (take 8 (drop 52 b)),
     fork_modify_date = decode_date_time_stamp (take 8 (drop 60 b)),
     fork_name_script = read_u16be (take 2 (drop 68 b)), fork_name = name, fork_comment = comment \<rparr>"

lemma length_date_time_stamp [simp]: "length (encode_date_time_stamp s) = 8"
  by (simp add: encode_date_time_stamp_def)

lemma decode_encode_date_time_stamp [simp]: "decode_date_time_stamp (encode_date_time_stamp s) = s"
  by (simp add: encode_date_time_stamp_def decode_date_time_stamp_def)

lemma length_info_fixed: "length (fork_reserved i) = 32 \<Longrightarrow> length (info_fixed i) = 70"
  by (simp add: info_fixed_def)

lemma read_info_fixed_wire:
  "length (fork_reserved i) = 32 \<Longrightarrow>
   read_info_fixed (info_fixed i) name comment = i\<lparr> fork_name := name, fork_comment := comment \<rparr>"
  by (simp add: read_info_fixed_def info_fixed_def)

lemma info_fixed_read:
  assumes "length b = 70"
  shows "info_fixed (read_info_fixed b name comment) = b"
proof -
  have "info_fixed (read_info_fixed b name comment) = take 4 b @ take 4 (drop 4 b) @
      take 4 (drop 8 b) @ take 4 (drop 12 b) @ take 4 (drop 16 b) @ take 32 (drop 20 b) @
      take 8 (drop 52 b) @ take 8 (drop 60 b) @ drop 68 b"
    using assms by (simp add: info_fixed_def read_info_fixed_def encode_decode_date_time_stamp)
  also have "take 8 (drop 60 b) @ drop 68 b = drop 60 b" by (rule take_drop_join) simp
  also have "take 8 (drop 52 b) @ drop 60 b = drop 52 b" by (rule take_drop_join) simp
  also have "take 32 (drop 20 b) @ drop 52 b = drop 20 b" by (rule take_drop_join) simp
  also have "take 4 (drop 16 b) @ drop 20 b = drop 16 b" by (rule take_drop_join) simp
  also have "take 4 (drop 12 b) @ drop 16 b = drop 12 b" by (rule take_drop_join) simp
  also have "take 4 (drop 8 b) @ drop 12 b = drop 8 b" by (rule take_drop_join) simp
  also have "take 4 (drop 4 b) @ drop 8 b = drop 4 b" by (rule take_drop_join) simp
  finally show ?thesis by simp
qed

lemma try_decode_info_fork_pieces:
  assumes "length b = 70"
  shows "try_decode_info_fork (b @ write_u16be n @ body) =
    (if length body < unat n + 2 then Some (Inl truncated)
     else let m = unat (read_u16be (take 2 (drop (unat n) body))) in
       if length body < unat n + 2 + m then Some (Inl truncated)
       else if length body > unat n + 2 + m then Some (Inl trailing_bytes)
       else Some (Inr (read_info_fixed b (read_raw_name (take (unat n) body)) (drop (unat n + 2) body))))"
proof -
  let ?bs = "b @ write_u16be n @ body"
  have stamp: "expected_value (try_decode_date_time_stamp (take 8 (drop k b))) =
      Some (decode_date_time_stamp (take 8 (drop k b)))" if "k \<le> 62" for k
    unfolding try_decode_date_time_stamp_fixed using assms that
    by (simp add: try_fixed_exact expected_value_def)
  obtain l where l: "unat n = l" by simp
  show ?thesis
  proof (cases "length body < l + 2")
    case True
    then show ?thesis using assms
      by (simp add: try_decode_info_fork_def span_simps stamp l)
  next
    case False
    obtain m where m: "unat (read_u16be (take 2 (drop l body))) = m" by simp
    from False m consider "length body < l + 2 + m" | "length body > l + 2 + m" | "length body = l + 2 + m"
      by linarith
    then show ?thesis using assms False
      by cases (simp_all add: try_decode_info_fork_def span_simps stamp l m read_info_fixed_def)
  qed
qed

lemma encode_info_fork_pieces:
  "encode_info_fork i = Inr bs \<and> length (fork_reserved i) = 32 \<longleftrightarrow> info_fork_ok i \<and>
     bs = info_fixed i @ write_u16be (word_of_nat (length (fork_name i))) @ map byte_of_char (fork_name i) @
       write_u16be (word_of_nat (length (fork_comment i))) @ fork_comment i"
  by (auto simp: encode_info_fork_def info_fork_ok_def info_fixed_def encode_date_time_stamp_def)

lemma try_decode_info_fork_safe: "try_decode_info_fork bs \<noteq> None"
proof (cases "length bs < 72")
  case False
  then have "bs = take 70 bs @ write_u16be (read_u16be (take 2 (drop 70 bs))) @ drop 72 bs"
    using take_drop_join [of 72 70 2 bs] append_take_drop_id [of 70 bs] by simp
  moreover have "length (take 70 bs) = 70" using False by simp
  ultimately show ?thesis
    using try_decode_info_fork_pieces [of "take 70 bs" "read_u16be (take 2 (drop 70 bs))" "drop 72 bs"]
    by (simp add: Let_def split: if_splits)
qed (simp add: try_decode_info_fork_def)

lemma try_decode_info_fork_wire:
  assumes "info_fork_ok i"
  shows "try_decode_info_fork (info_fixed i @ write_u16be (word_of_nat (length (fork_name i))) @
      map byte_of_char (fork_name i) @ write_u16be (word_of_nat (length (fork_comment i))) @
      fork_comment i @ xs) = (if xs = [] then Some (Inr i) else Some (Inl trailing_bytes))"
proof -
  have "length (info_fixed i) = 70" using assms by (simp add: info_fork_ok_def length_info_fixed)
  then show ?thesis
    using assms by (simp add: try_decode_info_fork_pieces info_fork_ok_def read_info_fixed_wire Let_def)
qed

lemma try_decode_info_fork_inv:
  assumes "try_decode_info_fork bs = Some (Inr i)"
  shows "info_fork_ok i \<and> encode_info_fork i = Inr bs"
proof -
  have l72: "\<not> length bs < 72" using assms by (auto simp: try_decode_info_fork_def)
  define b n body where "b = take 70 bs" and "n = read_u16be (take 2 (drop 70 bs))" and "body = drop 72 bs"
  have bs: "bs = b @ write_u16be n @ body"
    using l72 take_drop_join [of 72 70 2 bs] append_take_drop_id [of 70 bs]
    by (simp add: b_def n_def body_def)
  have lb: "length b = 70" using l72 by (simp add: b_def)
  obtain l where l: "unat n = l" by simp
  obtain m where m: "unat (read_u16be (take 2 (drop l body))) = m" by simp
  have len: "length body = l + 2 + m"
    and i: "i = read_info_fixed b (read_raw_name (take l body)) (drop (l + 2) body)"
    using assms unfolding bs try_decode_info_fork_pieces [OF lb]
    by (simp_all add: l m Let_def split: if_splits)
  have le: "l \<le> 65535" "m \<le> 65535"
    using unat_u16_le [of n] unat_u16_le [of "read_u16be (take 2 (drop l body))"] l m by simp_all
  have w: "word_of_nat l = n" "word_of_nat m = read_u16be (take 2 (drop l body))"
    unfolding l [symmetric] m [symmetric] by simp_all
  have reserved: "length (fork_reserved i) = 32"
    unfolding i by (simp add: read_info_fixed_def lb)
  have names: "length (fork_name i) = l" "map byte_of_char (fork_name i) = take l body"
    "fork_comment i = drop (l + 2) body" "length (fork_comment i) = m"
    unfolding i by (simp_all add: read_info_fixed_def len)
  have "info_fixed i = b" unfolding i by (rule info_fixed_read [OF lb])
  moreover have "take l body @ take 2 (drop l body) @ drop (l + 2) body = body"
    using take_drop_join [of "l + 2" l 2 body] by simp
  moreover have "write_u16be (read_u16be (take 2 (drop l body))) = take 2 (drop l body)"
    using len by simp
  ultimately have "bs = info_fixed i @ write_u16be (word_of_nat (length (fork_name i))) @
      map byte_of_char (fork_name i) @ write_u16be (word_of_nat (length (fork_comment i))) @ fork_comment i"
    unfolding names(1,4) w by (simp add: names bs)
  then show ?thesis
    using encode_info_fork_pieces [of i bs] le reserved names by (simp add: info_fork_ok_def)
qed

interpretation ifork: canonical_codec encode_info_fork try_decode_info_fork info_fork_ok
proof (unfold_locales, goal_cases)
  case (1 i)
  then show ?case by (simp add: encode_info_fork_def info_fork_ok_def)
next
  case (2 i bs)
  then have "encode_info_fork i = Inr bs \<and> length (fork_reserved i) = 32" by (simp add: info_fork_ok_def)
  then show ?case
    unfolding encode_info_fork_pieces using try_decode_info_fork_wire [of i "[]"] by simp
next
  case (3 bs)
  show ?case by (rule try_decode_info_fork_safe)
next
  case (4 i bs xs)
  then have "encode_info_fork i = Inr bs \<and> length (fork_reserved i) = 32" by (simp add: info_fork_ok_def)
  then show ?case
    unfolding encode_info_fork_pieces using try_decode_info_fork_wire [of i xs] 4(3) by simp
next
  case (5 bs i)
  then show ?case by (rule try_decode_info_fork_inv)
qed

section \<open>Resume records\<close>

record resume_entry =
  re_fork :: u32
  re_data_size :: u32

record resume_data =
  resume_version :: u16
  resume_entries :: "resume_entry list"

definition emit_resume_entry :: "resume_entry \<Rightarrow> bytes" where
  "emit_resume_entry e =
     write_u32be (re_fork e) @ write_u32be (re_data_size e) @ write_u32be 0 @ write_u32be 0"

definition encode_resume_data :: "resume_data \<Rightarrow> EncodeError + bytes" where
  "encode_resume_data r =
     (if length (resume_entries r) > kMaxFieldCount then Inl count_too_large
      else Inr (write_u32be kResumeDataFormat @ write_u16be (resume_version r) @ replicate 34 0 @
        write_u16be (word_of_nat (length (resume_entries r))) @
        concat (map emit_resume_entry (resume_entries r))))"

text \<open>\<open>for (i = 0; i < count; ++i)\<close> over the fixed-size entries, \<open>n\<close> turns left.\<close>

fun read_resume_entries :: "bytes \<Rightarrow> nat \<Rightarrow> nat \<Rightarrow> resume_entry list option" where
  "read_resume_entries bs i 0 = Some []"
| "read_resume_entries bs i (Suc n) = do {
     entry \<leftarrow> span_sub (kResumeDataHeaderSize + i * kResumeEntrySize) kResumeEntrySize bs;
     fork \<leftarrow> u32be_at 0 entry;
     size \<leftarrow> u32be_at 4 entry;
     entries \<leftarrow> read_resume_entries bs (i + 1) n;
     Some (\<lparr> re_fork = fork, re_data_size = size \<rparr> # entries) }"

definition try_decode_resume_data :: "bytes \<Rightarrow> (DecodeError, resume_data) checked" where
  "try_decode_resume_data bs =
     (if length bs < kResumeDataHeaderSize then Some (Inl truncated)
      else do {
        tag \<leftarrow> u32be_at 0 bs;
        if tag \<noteq> kResumeDataFormat then Some (Inl wrong_format_tag)
        else do {
          version \<leftarrow> u16be_at 4 bs;
          if version \<noteq> 1 then Some (Inl unsupported_version)
          else do {
            count \<leftarrow> u16be_at 40 bs;
            let total = kResumeDataHeaderSize + unat count * kResumeEntrySize;
            if length bs < total then Some (Inl truncated)
            else if length bs > total then Some (Inl trailing_bytes)
            else do {
              entries \<leftarrow> read_resume_entries bs 0 (unat count);
              Some (Inr \<lparr> resume_version = version, resume_entries = entries \<rparr>) } } } })"

fun last_data_size :: "u64 \<Rightarrow> resume_entry list \<Rightarrow> u64" where
  "last_data_size sz [] = sz"
| "last_data_size sz (e # es) =
     last_data_size (if re_fork e = kForkTypeData then ucast (re_data_size e) else sz) es"

definition data_resume_size :: "resume_data \<Rightarrow> u64" where
  "data_resume_size r = last_data_size 0 (resume_entries r)"

definition resume_ok :: "resume_data \<Rightarrow> bool" where
  "resume_ok r \<longleftrightarrow> resume_version r = 1 \<and> length (resume_entries r) \<le> kMaxFieldCount"

lemma length_emit_resume_entry [simp]: "length (emit_resume_entry e) = 16"
  by (simp add: emit_resume_entry_def)

lemma length_resume_entries [simp]:
  "length (concat (map emit_resume_entry es)) = length es * 16"
  by (rule length_concat_blocks) simp

lemma read_resume_entries_total:
  "length bs = 42 + (i + n) * 16 \<Longrightarrow>
   \<exists>es. read_resume_entries bs i n = Some es \<and> length es = n"
proof (induction n arbitrary: i)
  case (Suc n)
  have "42 + i * 16 + 16 \<le> length bs" using Suc.prems by simp
  moreover obtain es where "read_resume_entries bs (i + 1) n = Some es" "length es = n"
    using Suc.IH [of "i + 1"] Suc.prems by auto
  ultimately show ?case using Suc.prems by (simp add: span_simps)
qed simp

lemma read_resume_entries_emit:
  "length pre = 42 + i * 16 \<Longrightarrow>
   read_resume_entries (pre @ concat (map emit_resume_entry es)) i (length es) = Some es"
proof (induction es arbitrary: pre i)
  case (Cons e es)
  have "read_resume_entries ((pre @ emit_resume_entry e) @ concat (map emit_resume_entry es))
      (i + 1) (length es) = Some es"
    by (rule Cons.IH) (simp add: Cons.prems)
  moreover have "span_sub (42 + i * 16) 16 (pre @ concat (map emit_resume_entry (e # es)))
      = Some (emit_resume_entry e)"
    using Cons.prems by (simp add: span_simps)
  ultimately show ?case by (simp add: span_simps) (simp add: emit_resume_entry_def)
qed simp

lemma try_decode_resume_data_wire:
  assumes "length (write_u32be kResumeDataFormat @ write_u16be v @ rsvd @ write_u16be n) = 42"
  shows "try_decode_resume_data (write_u32be kResumeDataFormat @ write_u16be v @ rsvd @ write_u16be n @ body) =
    (if v \<noteq> 1 then Some (Inl unsupported_version)
     else if length body < unat n * 16 then Some (Inl truncated)
     else if length body > unat n * 16 then Some (Inl trailing_bytes)
     else map_option (\<lambda>es. Inr \<lparr> resume_version = v, resume_entries = es \<rparr>)
       (read_resume_entries (write_u32be kResumeDataFormat @ write_u16be v @ rsvd @ write_u16be n @ body)
         0 (unat n)))"
proof -
  have "length rsvd = 34" using assms by simp
  then show ?thesis
    by (simp add: try_decode_resume_data_def span_simps Let_def map_option_case split: option.split)
qed

lemma try_decode_resume_data_safe: "try_decode_resume_data bs \<noteq> None"
proof (cases "length bs < 42")
  case False
  obtain n where n: "unat (read_u16be (take 2 (drop 40 bs))) = n" by simp
  have at: "u32be_at 0 bs = Some (read_u32be (take 4 bs))"
    "u16be_at 4 bs = Some (read_u16be (take 2 (drop 4 bs)))"
    "u16be_at 40 bs = Some (read_u16be (take 2 (drop 40 bs)))"
    using False by (simp_all add: span_simps)
  consider "length bs < 42 + n * 16" | "length bs > 42 + n * 16" | "length bs = 42 + n * 16" by linarith
  then show ?thesis
  proof cases
    case 3
    then obtain es where "read_resume_entries bs 0 n = Some es"
      using read_resume_entries_total [of bs 0 n] by auto
    with 3 show ?thesis by (simp add: try_decode_resume_data_def at n Let_def)
  qed (simp_all add: try_decode_resume_data_def at n)
qed (simp add: try_decode_resume_data_def)

interpretation resume: codec encode_resume_data try_decode_resume_data resume_ok
proof (unfold_locales, goal_cases)
  case (1 r)
  then show ?case by (simp add: encode_resume_data_def resume_ok_def)
next
  case (2 r bs)
  let ?pre = "write_u32be kResumeDataFormat @ write_u16be 1 @ replicate 34 0 @
      write_u16be (word_of_nat (length (resume_entries r)))"
  have "read_resume_entries (?pre @ concat (map emit_resume_entry (resume_entries r))) 0
      (length (resume_entries r)) = Some (resume_entries r)"
    by (rule read_resume_entries_emit) simp
  with 2 show ?case
    by (auto simp: encode_resume_data_def resume_ok_def try_decode_resume_data_wire)
next
  case (3 bs)
  show ?case by (rule try_decode_resume_data_safe)
next
  case (4 r bs xs)
  then show ?case
    by (auto simp: encode_resume_data_def resume_ok_def try_decode_resume_data_wire)
qed

end
