(* ===== verification/Folder_Download.thy ===== *)
theory Folder_Download
  imports File_Transfer
begin

unbundle bit_operations_syntax

text \<open>
  The folder-download exchange of \<open>hotline/protocol/transfer.cpp\<close>: items with their relative
  path, the two-byte commands and the resume command that wraps an RFLT record.
\<close>

section \<open>Items\<close>

record folder_path_component =
  pc_script :: u16
  pc_name :: string

record folder_download_item =
  item_folder :: bool
  item_path :: "folder_path_component list"

definition emit_path_component :: "folder_path_component \<Rightarrow> bytes" where
  "emit_path_component c =
     write_u16be (pc_script c) @ [word_of_nat (length (pc_name c))] @ map byte_of_char (pc_name c)"

fun encode_path :: "folder_path_component list \<Rightarrow> EncodeError + bytes" where
  "encode_path [] = Inr []"
| "encode_path (c # cs) =
     (if length (pc_name c) > 255 then Inl string_too_long
      else case encode_path cs of Inl e \<Rightarrow> Inl e | Inr path \<Rightarrow> Inr (emit_path_component c @ path))"

definition encode_folder_download_item :: "folder_download_item \<Rightarrow> EncodeError + bytes" where
  "encode_folder_download_item item =
     (case encode_path (item_path item) of
        Inl e \<Rightarrow> Inl e
      | Inr path \<Rightarrow>
          (let sz = 4 + length path in
           if sz > kMaxFieldDataSize then Inl element_too_large
           else Inr (write_u16be (word_of_nat sz) @ write_u16be (if item_folder item then 1 else 0) @
             write_u16be (word_of_nat (length (item_path item))) @ path)))"

definition decode_path_component :: "bytes \<Rightarrow> (DecodeError, folder_path_component \<times> bytes) checked" where
  "decode_path_component path =
     (if length path < 3 then Some (Inl truncated)
      else do {
        script \<leftarrow> u16be_at 0 path;
        name_size \<leftarrow> span_at 2 path;
        rest \<leftarrow> span_from 3 path;
        if length rest < unat name_size then Some (Inl truncated)
        else do {
          name \<leftarrow> span_first (unat name_size) rest;
          rest' \<leftarrow> span_from (unat name_size) rest;
          Some (Inr (\<lparr> pc_script = script, pc_name = read_raw_name name \<rparr>, rest')) } })"

definition try_decode_folder_download_item :: "bytes \<Rightarrow> (DecodeError, folder_download_item) checked" where
  "try_decode_folder_download_item bs =
     (if length bs < 2 then Some (Inl truncated)
      else do {
        sz \<leftarrow> u16be_at 0 bs;
        if unat sz < 4 then Some (Inl truncated)
        else if length bs < 2 + unat sz then Some (Inl truncated)
        else if length bs > 2 + unat sz then Some (Inl trailing_bytes)
        else do {
          type \<leftarrow> u16be_at 2 bs;
          path_count \<leftarrow> u16be_at 4 bs;
          path \<leftarrow> span_sub 6 (unat sz - 4) bs;
          and_then (read_many decode_path_component (unat path_count) path) (\<lambda>(components, rest).
            if rest \<noteq> [] then Some (Inl trailing_bytes)
            else Some (Inr \<lparr> item_folder = ((type AND 1) \<noteq> 0), item_path = components \<rparr>)) } })"

section \<open>Commands\<close>

definition encode_folder_download_command :: "FolderDownloadAction \<Rightarrow> bytes" where
  "encode_folder_download_command action = write_u16be (folder_action_value action)"

definition encode_folder_download_resume :: "resume_data \<Rightarrow> EncodeError + bytes" where
  "encode_folder_download_resume r =
     (case encode_resume_data r of
        Inl e \<Rightarrow> Inl e
      | Inr rflt \<Rightarrow>
          (if length rflt > kMaxFieldDataSize then Inl element_too_large
           else Inr (write_u16be (folder_action_value FD_ResumeFile) @
             write_u16be (word_of_nat (length rflt)) @ rflt)))"

definition try_decode_folder_download_resume :: "bytes \<Rightarrow> (DecodeError, resume_data) checked" where
  "try_decode_folder_download_resume bs =
     (if length bs < 4 then Some (Inl truncated)
      else do {
        action \<leftarrow> u16be_at 0 bs;
        if action \<noteq> folder_action_value FD_ResumeFile then Some (Inl wrong_format_tag)
        else do {
          sz \<leftarrow> u16be_at 2 bs;
          if length bs < 4 + unat sz then Some (Inl truncated)
          else if length bs > 4 + unat sz then Some (Inl trailing_bytes)
          else do {
            rflt \<leftarrow> span_sub 4 (unat sz) bs;
            try_decode_resume_data rflt } } })"

section \<open>Contracts\<close>

definition path_component_ok :: "folder_path_component \<Rightarrow> bool" where
  "path_component_ok c \<longleftrightarrow> length (pc_name c) \<le> 255"

definition item_ok :: "folder_download_item \<Rightarrow> bool" where
  "item_ok i \<longleftrightarrow> list_all path_component_ok (item_path i)
     \<and> 4 + length (concat (map emit_path_component (item_path i))) \<le> kMaxFieldDataSize"

lemma decode_path_component_inv:
  assumes "decode_path_component bs = Some (Inr (c, rest))"
  shows "path_component_ok c \<and> bs = emit_path_component c @ rest"
proof -
  have l3: "\<not> length bs < 3" using assms by (auto simp: decode_path_component_def)
  define body where "body = drop 3 bs"
  have bs: "bs = take 2 bs @ bs ! 2 # body"
    using l3 Cons_nth_drop_Suc [of 2 bs] append_take_drop_id [of 2 bs] by (simp add: body_def)
  obtain n where n: "unat (bs ! 2) = n" by simp
  have le: "n \<le> 255" and w: "word_of_nat n = bs ! 2"
    unfolding n [symmetric] by simp_all
  from assms l3 have len: "n \<le> length body" and rest: "rest = drop n body"
    and c: "c = \<lparr> pc_script = read_u16be (take 2 bs), pc_name = read_raw_name (take n body) \<rparr>"
    by (simp_all add: decode_path_component_def span_simps body_def n split: if_splits)
  have "emit_path_component c @ rest = take 2 bs @ bs ! 2 # body"
    using l3 len by (simp add: emit_path_component_def c rest w)
  with bs len le show ?thesis by (simp add: path_component_ok_def c)
qed

interpretation pcomp: canonical_element emit_path_component decode_path_component path_component_ok
proof (unfold_locales, goal_cases)
  case (1 c rest)
  then show ?case
    by (simp add: decode_path_component_def emit_path_component_def path_component_ok_def span_simps nth_append)
next
  case (2 bs)
  show ?case by (simp add: decode_path_component_def span_simps)
next
  case (3 bs c rest)
  then show ?case by (rule decode_path_component_inv)
qed

lemma encode_path_emit:
  "encode_path cs = (if list_all path_component_ok cs then Inr (concat (map emit_path_component cs))
     else Inl string_too_long)"
  by (induction cs) (simp_all add: path_component_ok_def)

lemma path_count_bound:
  "length (concat (map emit_path_component cs)) \<le> n \<Longrightarrow> 3 * length cs \<le> n"
  by (induction cs arbitrary: n) (fastforce simp: emit_path_component_def)+

lemma try_decode_item_pieces:
  assumes "unat sz = 4 + l" and "length path \<ge> l"
  shows "try_decode_folder_download_item (write_u16be sz @ write_u16be t @ write_u16be n @ path) =
    (if length path > l then Some (Inl trailing_bytes)
     else and_then (read_many decode_path_component (unat n) path) (\<lambda>(components, rest).
       if rest \<noteq> [] then Some (Inl trailing_bytes)
       else Some (Inr \<lparr> item_folder = ((t AND 1) \<noteq> 0), item_path = components \<rparr>)))"
  using assms by (simp add: try_decode_folder_download_item_def span_simps)

lemma try_decode_item_safe: "try_decode_folder_download_item bs \<noteq> None"
proof (cases "length bs < 2")
  case False
  have loop: "and_then (read_many decode_path_component n path) (\<lambda>(components, rest).
      if rest \<noteq> [] then Some (Inl trailing_bytes)
      else Some (Inr \<lparr> item_folder = f, item_path = components \<rparr>)) \<noteq> None" for n path f
    by (rule and_then_safe [OF pcomp.many_safe]) (auto split: prod.splits)
  obtain l where l: "unat (read_u16be (take 2 bs)) = l" by simp
  have at: "u16be_at 0 bs = Some (read_u16be (take 2 bs))" using False by (simp add: span_simps)
  consider "l < 4" | "l \<ge> 4" "length bs < 2 + l" | "l \<ge> 4" "length bs > 2 + l" | "l \<ge> 4" "length bs = 2 + l"
    by linarith
  then show ?thesis
  proof cases
    case 4
    then have at2: "u16be_at 2 bs = Some (read_u16be (take 2 (drop 2 bs)))"
      "u16be_at 4 bs = Some (read_u16be (take 2 (drop 4 bs)))"
      "span_sub 6 (l - 4) bs = Some (take (l - 4) (drop 6 bs))" by (simp_all add: span_simps)
    from False 4 have "try_decode_folder_download_item bs =
      and_then (read_many decode_path_component (unat (read_u16be (take 2 (drop 4 bs))))
          (take (l - 4) (drop 6 bs))) (\<lambda>(components, rest).
        if rest \<noteq> [] then Some (Inl trailing_bytes)
        else Some (Inr \<lparr> item_folder = ((read_u16be (take 2 (drop 2 bs)) AND 1) \<noteq> 0),
          item_path = components \<rparr>))"
      by (simp add: try_decode_folder_download_item_def at at2 l)
    then show ?thesis using loop by simp
  qed (simp_all add: try_decode_folder_download_item_def at l False)
qed (simp add: try_decode_folder_download_item_def)

lemma encode_item_wire:
  "encode_folder_download_item i = Inr bs \<longleftrightarrow> item_ok i \<and>
     bs = write_u16be (word_of_nat (4 + length (concat (map emit_path_component (item_path i))))) @
       write_u16be (if item_folder i then 1 else 0) @ write_u16be (word_of_nat (length (item_path i))) @
       concat (map emit_path_component (item_path i))"
  by (auto simp: encode_folder_download_item_def encode_path_emit item_ok_def Let_def)

lemma try_decode_item_wire:
  assumes "item_ok i"
  shows "try_decode_folder_download_item
     (write_u16be (word_of_nat (4 + length (concat (map emit_path_component (item_path i))))) @
       write_u16be (if item_folder i then 1 else 0) @ write_u16be (word_of_nat (length (item_path i))) @
       concat (map emit_path_component (item_path i)) @ xs)
     = (if xs = [] then Some (Inr i) else Some (Inl trailing_bytes))"
proof -
  let ?p = "concat (map emit_path_component (item_path i))"
  have ok: "list_all path_component_ok (item_path i)" and le: "4 + length ?p \<le> 65535"
    using assms by (simp_all add: item_ok_def)
  then have u: "unat (word_of_nat (4 + length ?p) :: u16) = 4 + length ?p"
    by (intro word_of_nat_inverse16)
  have "length (item_path i) \<le> 65535" using path_count_bound [of "item_path i" 65535] le by simp
  then have n: "unat (word_of_nat (length (item_path i)) :: u16) = length (item_path i)" by simp
  show ?thesis
    by (subst try_decode_item_pieces [OF u]) (simp_all add: n pcomp.many_emit_all [OF ok] del: length_concat)
qed

interpretation fitem: codec encode_folder_download_item try_decode_folder_download_item item_ok
proof (unfold_locales, goal_cases)
  case (1 i)
  then show ?case by (simp add: encode_item_wire)
next
  case (2 i bs)
  then show ?case using try_decode_item_wire [of i "[]"] by (simp add: encode_item_wire)
next
  case (3 bs)
  show ?case by (rule try_decode_item_safe)
next
  case (4 i bs xs)
  then show ?case using try_decode_item_wire [of i xs] by (simp add: encode_item_wire)
qed

definition folder_resume_ok :: "resume_data \<Rightarrow> bool" where
  "folder_resume_ok r \<longleftrightarrow> resume_version r = 1 \<and> 42 + 16 * length (resume_entries r) \<le> kMaxFieldDataSize"

lemma folder_action_resume: "folder_action_value FD_ResumeFile = 2"
  by simp

lemma try_decode_folder_resume_pieces:
  "unat n \<le> length rflt \<Longrightarrow>
   try_decode_folder_download_resume (write_u16be (folder_action_value FD_ResumeFile) @ write_u16be n @ rflt) =
     (if length rflt > unat n then Some (Inl trailing_bytes) else try_decode_resume_data rflt)"
  by (simp add: try_decode_folder_download_resume_def span_simps)

lemma try_decode_folder_resume_safe: "try_decode_folder_download_resume bs \<noteq> None"
proof (cases "length bs < 4")
  case False
  obtain l where l: "unat (read_u16be (take 2 (drop 2 bs))) = l" by simp
  have at: "u16be_at 0 bs = Some (read_u16be (take 2 bs))"
    "u16be_at 2 bs = Some (read_u16be (take 2 (drop 2 bs)))" using False by (simp_all add: span_simps)
  consider "length bs < 4 + l" | "length bs > 4 + l" | "length bs = 4 + l" by linarith
  then show ?thesis
    using try_decode_resume_data_safe
    by cases (simp_all add: try_decode_folder_download_resume_def at l span_simps)
qed (simp add: try_decode_folder_download_resume_def)

lemma encode_folder_resume_wire:
  assumes "folder_resume_ok r"
  obtains rflt where "encode_resume_data r = Inr rflt" "length rflt \<le> 65535" "resume_ok r"
    "encode_folder_download_resume r = Inr (write_u16be (folder_action_value FD_ResumeFile) @
       write_u16be (word_of_nat (length rflt)) @ rflt)"
proof -
  have ok: "resume_ok r" using assms by (simp add: folder_resume_ok_def resume_ok_def)
  then obtain rflt where e: "encode_resume_data r = Inr rflt" using resume.enc_total by blast
  then have "length rflt = 42 + length (resume_entries r) * 16"
    by (auto simp: encode_resume_data_def split: if_splits)
  then have "length rflt \<le> 65535" using assms by (simp add: folder_resume_ok_def)
  with e ok that show thesis by (simp add: encode_folder_download_resume_def del: folder_action_value.simps)
qed

interpretation fresume: codec encode_folder_download_resume try_decode_folder_download_resume folder_resume_ok
proof (unfold_locales, goal_cases)
  case (1 r)
  then show ?case by (metis encode_folder_resume_wire)
next
  case (2 r bs)
  from encode_folder_resume_wire [OF 2(1)] obtain rflt where
    r: "encode_resume_data r = Inr rflt" "length rflt \<le> 65535" "resume_ok r"
    and bs: "bs = write_u16be (folder_action_value FD_ResumeFile) @
       write_u16be (word_of_nat (length rflt)) @ rflt" using 2(2) by (metis sum.inject(2))
  from r have "try_decode_resume_data rflt = Some (Inr r)" by (intro resume.dec_enc)
  then show ?case unfolding bs using r by (simp add: try_decode_folder_resume_pieces del: folder_action_value.simps)
next
  case (3 bs)
  show ?case by (rule try_decode_folder_resume_safe)
next
  case (4 r bs xs)
  from encode_folder_resume_wire [OF 4(1)] obtain rflt where
    r: "encode_resume_data r = Inr rflt" "length rflt \<le> 65535"
    and bs: "bs = write_u16be (folder_action_value FD_ResumeFile) @
       write_u16be (word_of_nat (length rflt)) @ rflt" using 4(2) by (metis sum.inject(2))
  show ?case unfolding bs append_assoc
    using r 4(3) by (subst try_decode_folder_resume_pieces) simp_all
qed

section \<open>Properties\<close>

text \<open>C24: Every transfer message round-trips, is refused as having trailing bytes with any bytes
  behind it, and no byte string makes a transfer decoder read out of bounds.\<close>

theorem transfer_messages_round_trip:
  "(flat_file_ok file \<longrightarrow> (\<exists>w. encode_flat_file file = Inr w \<and> try_decode_flat_file w = Some (Inr file)
      \<and> (\<forall>x xs. try_decode_flat_file (w @ x # xs) = Some (Inl trailing_bytes)))) \<and>
   (resume_ok r \<longrightarrow> (\<exists>w. encode_resume_data r = Inr w \<and> try_decode_resume_data w = Some (Inr r)
      \<and> (\<forall>x xs. try_decode_resume_data (w @ x # xs) = Some (Inl trailing_bytes)))) \<and>
   (item_ok i \<longrightarrow> (\<exists>w. encode_folder_download_item i = Inr w
      \<and> try_decode_folder_download_item w = Some (Inr i)
      \<and> (\<forall>x xs. try_decode_folder_download_item (w @ x # xs) = Some (Inl trailing_bytes)))) \<and>
   (folder_resume_ok r \<longrightarrow> (\<exists>w. encode_folder_download_resume r = Inr w
      \<and> try_decode_folder_download_resume w = Some (Inr r)
      \<and> (\<forall>x xs. try_decode_folder_download_resume (w @ x # xs) = Some (Inl trailing_bytes)))) \<and>
   try_decode_flat_file bs \<noteq> None \<and> try_decode_resume_data bs \<noteq> None \<and>
   try_decode_folder_download_item bs \<noteq> None \<and> try_decode_folder_download_resume bs \<noteq> None"
proof (intro conjI impI)
  assume ok: "flat_file_ok file"
  then obtain w where "encode_flat_file file = Inr w" using flat.enc_total by blast
  then show "\<exists>w. encode_flat_file file = Inr w \<and> try_decode_flat_file w = Some (Inr file)
      \<and> (\<forall>x xs. try_decode_flat_file (w @ x # xs) = Some (Inl trailing_bytes))"
    using flat.dec_enc flat.dec_extended ok by blast
next
  assume ok: "resume_ok r"
  then obtain w where "encode_resume_data r = Inr w" using resume.enc_total by blast
  then show "\<exists>w. encode_resume_data r = Inr w \<and> try_decode_resume_data w = Some (Inr r)
      \<and> (\<forall>x xs. try_decode_resume_data (w @ x # xs) = Some (Inl trailing_bytes))"
    using resume.dec_enc resume.dec_extended ok by blast
next
  assume ok: "item_ok i"
  then obtain w where "encode_folder_download_item i = Inr w" using fitem.enc_total by blast
  then show "\<exists>w. encode_folder_download_item i = Inr w \<and> try_decode_folder_download_item w = Some (Inr i)
      \<and> (\<forall>x xs. try_decode_folder_download_item (w @ x # xs) = Some (Inl trailing_bytes))"
    using fitem.dec_enc fitem.dec_extended ok by blast
next
  assume ok: "folder_resume_ok r"
  then obtain w where "encode_folder_download_resume r = Inr w" using fresume.enc_total by blast
  then show "\<exists>w. encode_folder_download_resume r = Inr w \<and> try_decode_folder_download_resume w = Some (Inr r)
      \<and> (\<forall>x xs. try_decode_folder_download_resume (w @ x # xs) = Some (Inl trailing_bytes))"
    using fresume.dec_enc fresume.dec_extended ok by blast
qed (rule flat.dec_safe resume.dec_safe fitem.dec_safe fresume.dec_safe)+

definition two_forks :: flat_file where
  "two_forks = \<lparr> flat_version = 1, flat_forks =
     [\<lparr> ff_type = kForkTypeInfo, ff_compression_type = 0, ff_data = [1, 2] \<rparr>,
      \<lparr> ff_type = kForkTypeData, ff_compression_type = 0, ff_data = [] \<rparr>] \<rparr>"

definition one_resume :: resume_data where
  "one_resume = \<lparr> resume_version = 1, resume_entries = [\<lparr> re_fork = kForkTypeData, re_data_size = 9 \<rparr>] \<rparr>"

definition folder_a :: folder_download_item where
  "folder_a = \<lparr> item_folder = True, item_path = [\<lparr> pc_script = 0, pc_name = ''a'' \<rparr>] \<rparr>"

theorem transfer_messages_round_trip_witness:
  "(\<exists>w. encode_flat_file two_forks = Inr w \<and> try_decode_flat_file (w @ [0]) = Some (Inl trailing_bytes)) \<and>
   (\<exists>w. encode_folder_download_resume one_resume = Inr w
      \<and> try_decode_folder_download_resume (w @ [0]) = Some (Inl trailing_bytes)) \<and>
   (\<exists>w. encode_folder_download_item folder_a = Inr w \<and> try_decode_folder_download_item w = Some (Inr folder_a))"
proof -
  have "flat_file_ok two_forks" by (simp add: two_forks_def flat_file_ok_def fork_ok_def)
  moreover have "folder_resume_ok one_resume" by (simp add: one_resume_def folder_resume_ok_def)
  moreover have "item_ok folder_a"
    by (simp add: folder_a_def item_ok_def path_component_ok_def emit_path_component_def)
  ultimately show ?thesis using transfer_messages_round_trip [of two_forks one_resume folder_a] by blast
qed

text \<open>The INFO fork decoder accepts exactly the encodings: reserved bytes, both time stamps, name
  and comment all come back, and nothing else is accepted.\<close>

theorem info_fork_codec_exact:
  "(try_decode_info_fork bs = Some (Inr i) \<longleftrightarrow> info_fork_ok i \<and> encode_info_fork i = Inr bs) \<and>
   try_decode_info_fork bs \<noteq> None"
  using ifork.accepts_iff ifork.dec_safe by blast

text \<open>C25: A fork of 4 GiB or more has no wire form, and the encoder does not refuse it: it writes
  the size modulo \<open>2 ^ 32\<close>, and the decoder rejects what was encoded.\<close>

theorem oversize_fork_not_decodable:
  assumes "length (ff_data f) \<ge> 2 ^ 32"
  shows "\<exists>w. encode_flat_file \<lparr> flat_version = v, flat_forks = [f] \<rparr> = Inr w
    \<and> try_decode_flat_file w = Some (Inl trailing_bytes)"
proof -
  let ?n = "unat (word_of_nat (length (ff_data f)) :: u32)"
  have "?n < 2 ^ 32" using unat_less_power [of "word_of_nat (length (ff_data f)) :: u32"] by simp
  then have n: "?n < length (ff_data f)" using assms by simp
  have "decode_fork (emit_fork f) = Some (Inr (f\<lparr> ff_data := take ?n (ff_data f) \<rparr>, drop ?n (ff_data f)))"
    using n by (simp add: emit_fork_def decode_fork_wire)
  moreover have "drop ?n (ff_data f) \<noteq> []" using n by simp
  ultimately show ?thesis by (simp add: encode_flat_file_def try_decode_flat_file_wire)
qed

theorem oversize_fork_not_decodable_witness:
  "\<exists>w. encode_flat_file \<lparr> flat_version = 1, flat_forks = [\<lparr> ff_type = kForkTypeData,
      ff_compression_type = 0, ff_data = replicate (2 ^ 32) 7 \<rparr>] \<rparr> = Inr w
    \<and> try_decode_flat_file w = Some (Inl trailing_bytes)"
  by (rule oversize_fork_not_decodable) simp

text \<open>The resume offset is the size of the last DATA entry of the record, zero without one.\<close>

theorem data_resume_size_last:
  "data_resume_size r =
     (case filter (\<lambda>e. re_fork e = kForkTypeData) (resume_entries r) of
        [] \<Rightarrow> 0 | es \<Rightarrow> ucast (re_data_size (last es)))"
proof -
  have "last_data_size sz es = (case filter (\<lambda>e. re_fork e = kForkTypeData) es of
        [] \<Rightarrow> sz | es \<Rightarrow> ucast (re_data_size (last es)))" for sz es
  proof (induction es arbitrary: sz)
    case (Cons e es)
    then show ?case by (cases "filter (\<lambda>e. re_fork e = kForkTypeData) es") auto
  qed simp
  then show ?thesis by (simp add: data_resume_size_def)
qed

end
