(* ===== verification/Harc_Archive.thy ===== *)
theory Harc_Archive
  imports Folder_Download
begin

unbundle bit_operations_syntax

text \<open>
  The update-package container (\<open>hotline/protocol/archive.h\<close>, \<open>archive.cpp\<close>).  The
  program only reads archives; \<open>archive_wire\<close> writes down the documented layout, and the
  decoder is shown to read every archive laid out that way.  zlib is not part of the program: its
  \<open>uncompress\<close> is a parameter.
\<close>

definition kArchiveFormat :: u32 where
  "kArchiveFormat = four_cc CHR ''h'' CHR ''a'' CHR ''r'' CHR ''c''"
definition kArchiveVersion :: u32 where "kArchiveVersion = 1"
definition kArchiveCompressionZlib :: u32 where
  "kArchiveCompressionZlib = four_cc CHR ''z'' CHR ''l'' CHR ''i'' CHR ''b''"
definition kArchiveCompressionRaw :: u32 where
  "kArchiveCompressionRaw = four_cc CHR ''r'' CHR ''a'' CHR ''w'' CHR '' ''"
definition kArchiveHeaderSize :: nat where "kArchiveHeaderSize = 98"
definition kMaxArchiveEntryDecompressedSize :: nat where
  "kMaxArchiveEntryDecompressedSize = 64 * 1024 * 1024"

record archive_entry =
  ae_type :: u32
  ae_path :: "folder_path_component list"
  ae_reserved :: bytes
  ae_compression_type :: u32
  ae_decompressed_size :: u32
  ae_payload :: bytes

record archive =
  ar_version :: u32
  ar_archive_size :: u32
  ar_archive_name :: string
  ar_file_auto_launch :: u16
  ar_reserved3 :: bytes
  ar_entries :: "archive_entry list"

datatype ArchiveError =
    unsupported_compression
  | decompressed_size_mismatch
  | zlib_failure
  | exceeds_size_cap

section \<open>Decoder\<close>

text \<open>The path of an entry: a count and components that fill the path bytes exactly.\<close>

definition decode_archive_path :: "bytes \<Rightarrow> (DecodeError, folder_path_component list) checked" where
  "decode_archive_path path_bytes =
     (if length path_bytes < 2 then Some (Inl truncated)
      else do {
        path_count \<leftarrow> u16be_at 0 path_bytes;
        components \<leftarrow> span_from 2 path_bytes;
        and_then (read_many decode_path_component (unat path_count) components) (\<lambda>(path, rest).
          if rest \<noteq> [] then Some (Inl trailing_bytes) else Some (Inr path)) })"

text \<open>The pattern \<open>if (bytes.size() < n) return truncated; x = bytes.first(n); bytes =
  bytes.subspan(n)\<close>.\<close>

definition take_block :: "nat \<Rightarrow> bytes \<Rightarrow> (DecodeError, bytes \<times> bytes) checked" where
  "take_block n bs =
     (if length bs < n then Some (Inl truncated)
      else do { block \<leftarrow> span_first n bs; rest \<leftarrow> span_from n bs; Some (Inr (block, rest)) })"

definition decode_archive_entry :: "bytes \<Rightarrow> (DecodeError, archive_entry \<times> bytes) checked" where
  "decode_archive_entry bs =
     and_then (take_block 10 bs) (\<lambda>(head, bs). do {
       type \<leftarrow> u32be_at 0 head;
       path_size \<leftarrow> u16be_at 8 head;
       and_then (take_block (unat path_size) bs) (\<lambda>(path_bytes, bs).
       and_then (decode_archive_path path_bytes) (\<lambda>path.
       and_then (take_block 2 bs) (\<lambda>(rsvd_head, bs). do {
         rsvd_size \<leftarrow> u16be_at 0 rsvd_head;
         and_then (take_block (unat rsvd_size) bs) (\<lambda>(reserved, bs).
         and_then (take_block 12 bs) (\<lambda>(file_head, bs). do {
           compression \<leftarrow> u32be_at 0 file_head;
           decompressed_size \<leftarrow> u32be_at 4 file_head;
           compressed_size \<leftarrow> u32be_at 8 file_head;
           and_then (take_block (unat compressed_size) bs) (\<lambda>(payload, bs).
             Some (Inr (\<lparr> ae_type = type, ae_path = path, ae_reserved = reserved,
               ae_compression_type = compression, ae_decompressed_size = decompressed_size,
               ae_payload = payload \<rparr>, bs))) })) }))) })"

definition try_decode_archive :: "bytes \<Rightarrow> (DecodeError, archive) checked" where
  "try_decode_archive bs =
     (if length bs < kArchiveHeaderSize then Some (Inl truncated)
      else do {
        tag \<leftarrow> u32be_at 0 bs;
        if tag \<noteq> kArchiveFormat then Some (Inl wrong_format_tag)
        else do {
          version \<leftarrow> u32be_at 4 bs;
          if version \<noteq> kArchiveVersion then Some (Inl unsupported_version)
          else do {
            archive_size \<leftarrow> u32be_at 8 bs;
            len \<leftarrow> span_at 28 bs;
            name \<leftarrow> span_sub 29 (min (unat len) 63) bs;
            file_count \<leftarrow> u16be_at 92 bs;
            file_auto_launch \<leftarrow> u16be_at 94 bs;
            rsvd3_size \<leftarrow> u16be_at 96 bs;
            rest \<leftarrow> span_from kArchiveHeaderSize bs;
            and_then (take_block (unat rsvd3_size) rest) (\<lambda>(reserved3, rest).
            and_then (read_many decode_archive_entry (unat file_count) rest) (\<lambda>(entries, rest).
              if rest \<noteq> [] then Some (Inl trailing_bytes)
              else Some (Inr \<lparr> ar_version = version, ar_archive_size = archive_size,
                ar_archive_name = read_raw_name name, ar_file_auto_launch = file_auto_launch,
                ar_reserved3 = reserved3, ar_entries = entries \<rparr>))) } } })"

section \<open>Decompression\<close>

text \<open>
  \<open>uncompress dest_size source\<close> of zlib: the result code, the destination length it reports
  and the contents of the destination buffer afterwards.  \<open>Z_OK\<close> is 0.
\<close>

type_synonym zlib = "nat \<Rightarrow> bytes \<Rightarrow> int \<times> nat \<times> bytes"

definition decompress_archive_entry :: "zlib \<Rightarrow> archive_entry \<Rightarrow> ArchiveError + bytes" where
  "decompress_archive_entry uncompress e =
     (if unat (ae_decompressed_size e) > kMaxArchiveEntryDecompressedSize then Inl exceeds_size_cap
      else if ae_compression_type e = kArchiveCompressionRaw then
        (if length (ae_payload e) \<noteq> unat (ae_decompressed_size e) then Inl decompressed_size_mismatch
         else Inr (ae_payload e))
      else if ae_compression_type e \<noteq> kArchiveCompressionZlib then Inl unsupported_compression
      else (let (result, destination_length, out) = uncompress (unat (ae_decompressed_size e)) (ae_payload e)
        in if result \<noteq> 0 \<or> destination_length \<noteq> unat (ae_decompressed_size e) then Inl zlib_failure
           else Inr out))"

section \<open>The documented layout\<close>

definition emit_archive_path :: "folder_path_component list \<Rightarrow> bytes" where
  "emit_archive_path cs = write_u16be (word_of_nat (length cs)) @ concat (map emit_path_component cs)"

definition emit_archive_entry :: "archive_entry \<Rightarrow> bytes" where
  "emit_archive_entry e =
     write_u32be (ae_type e) @ write_u32be 0 @
     write_u16be (word_of_nat (length (emit_archive_path (ae_path e)))) @ emit_archive_path (ae_path e) @
     write_u16be (word_of_nat (length (ae_reserved e))) @ ae_reserved e @
     write_u32be (ae_compression_type e) @ write_u32be (ae_decompressed_size e) @
     write_u32be (word_of_nat (length (ae_payload e))) @ ae_payload e"

definition archive_wire :: "archive \<Rightarrow> bytes" where
  "archive_wire a =
     write_u32be kArchiveFormat @ write_u32be (ar_version a) @ write_u32be (ar_archive_size a) @
     replicate 16 0 @ [word_of_nat (length (ar_archive_name a))] @ map byte_of_char (ar_archive_name a) @
     replicate (63 - length (ar_archive_name a)) 0 @ write_u16be (word_of_nat (length (ar_entries a))) @
     write_u16be (ar_file_auto_launch a) @ write_u16be (word_of_nat (length (ar_reserved3 a))) @
     ar_reserved3 a @ concat (map emit_archive_entry (ar_entries a))"

definition archive_entry_ok :: "archive_entry \<Rightarrow> bool" where
  "archive_entry_ok e \<longleftrightarrow> list_all path_component_ok (ae_path e)
     \<and> length (emit_archive_path (ae_path e)) \<le> 65535 \<and> length (ae_reserved e) \<le> 65535
     \<and> length (ae_payload e) < 2 ^ 32"

definition archive_ok :: "archive \<Rightarrow> bool" where
  "archive_ok a \<longleftrightarrow> ar_version a = kArchiveVersion \<and> length (ar_archive_name a) \<le> 63
     \<and> length (ar_reserved3 a) \<le> 65535 \<and> length (ar_entries a) \<le> 65535
     \<and> list_all archive_entry_ok (ar_entries a)"

section \<open>Lemmas\<close>

lemma take_block_simps:
  "length xs = n \<Longrightarrow> take_block n (xs @ ys) = Some (Inr (xs, ys))"
  "length xs = n \<Longrightarrow> take_block n xs = Some (Inr (xs, []))"
  "length bs < n \<Longrightarrow> take_block n bs = Some (Inl truncated)"
  by (simp_all add: take_block_def span_simps)

lemma take_block_safe: "take_block n bs \<noteq> None"
  by (simp add: take_block_def span_simps)

lemma take_block_Ok: "take_block n bs = Some (Inr (b, r)) \<longleftrightarrow> length b = n \<and> bs = b @ r"
  by (auto simp: take_block_def span_simps)

lemma decode_archive_path_safe: "decode_archive_path bs \<noteq> None"
proof -
  have "and_then (read_many decode_path_component n rest) (\<lambda>(path, rest').
      if rest' \<noteq> [] then Some (Inl trailing_bytes) else Some (Inr path)) \<noteq> None" for n rest
    by (rule and_then_safe [OF pcomp.many_safe]) (auto split: prod.splits)
  then show ?thesis by (simp add: decode_archive_path_def span_simps)
qed

lemma decode_archive_path_emit:
  assumes "list_all path_component_ok cs" "length (emit_archive_path cs) \<le> 65535"
  shows "decode_archive_path (emit_archive_path cs) = Some (Inr cs)"
proof -
  have "length cs \<le> 65535"
    using assms(2) path_count_bound [of cs 65535] by (simp add: emit_archive_path_def)
  then show ?thesis
    using assms(1) by (simp add: decode_archive_path_def emit_archive_path_def span_simps pcomp.many_emit_all)
qed

lemma decode_archive_entry_emit:
  assumes "archive_entry_ok e"
  shows "decode_archive_entry (emit_archive_entry e @ rest) = Some (Inr (e, rest))"
proof -
  obtain t p rs ct ds pl where e: "e = \<lparr> ae_type = t, ae_path = p, ae_reserved = rs,
      ae_compression_type = ct, ae_decompressed_size = ds, ae_payload = pl \<rparr>" by (cases e) simp
  have ok: "list_all path_component_ok p" "length (emit_archive_path p) \<le> 65535"
    "length rs \<le> 65535" "length pl < 4294967296"
    using assms by (simp_all add: archive_entry_ok_def e)
  define pb where "pb = emit_archive_path p"
  define head where "head = write_u32be t @ write_u32be 0 @ write_u16be (word_of_nat (length pb))"
  define rh where "rh = write_u16be (word_of_nat (length rs))"
  define fh where "fh = write_u32be ct @ write_u32be ds @ write_u32be (word_of_nat (length pl))"
  have lens: "length head = 10" "length rh = 2" "length fh = 12" by (simp_all add: head_def rh_def fh_def)
  have reads: "u32be_at 0 head = Some t" "u16be_at 8 head = Some (word_of_nat (length pb))"
    "u16be_at 0 rh = Some (word_of_nat (length rs))" "u32be_at 0 fh = Some ct" "u32be_at 4 fh = Some ds"
    "u32be_at 8 fh = Some (word_of_nat (length pl))"
    by (simp_all add: head_def rh_def fh_def span_simps)
  have wire: "emit_archive_entry e @ rest = head @ pb @ rh @ rs @ fh @ pl @ rest"
    by (simp add: emit_archive_entry_def e head_def rh_def fh_def pb_def)
  have path: "decode_archive_path pb = Some (Inr p)"
    unfolding pb_def by (rule decode_archive_path_emit [OF ok(1,2)])
  have "length pb \<le> 65535" using ok(2) by (simp add: pb_def)
  then show ?thesis
    unfolding wire decode_archive_entry_def
    using ok(3,4) by (simp add: take_block_simps lens reads path word_of_nat_inverse32 e)
qed

text \<open>\<open>and_then_safe\<close> in the form the simplifier gives a goal that there is a result.\<close>

lemma and_then_defined:
  assumes "r \<noteq> None" and "\<And>x. r = Some (Inr x) \<Longrightarrow> \<exists>y. f x = Some y"
  shows "\<exists>y. and_then r f = Some y"
  using and_then_safe [of r f] assms by auto

lemma decode_archive_entry_safe: "\<exists>y. decode_archive_entry bs = Some y"
  unfolding decode_archive_entry_def
  by ((rule and_then_defined, rule take_block_safe decode_archive_path_safe,
      (clarsimp simp: take_block_Ok span_simps)?)+)

interpretation aentry: element emit_archive_entry decode_archive_entry archive_entry_ok
  by unfold_locales (simp_all add: decode_archive_entry_emit decode_archive_entry_safe)

lemma archive_tail_safe:
  "and_then (take_block n rest) (\<lambda>(reserved3, rest).
     and_then (read_many decode_archive_entry m rest) (\<lambda>(entries, rest).
       if rest \<noteq> [] then Some (Inl trailing_bytes) else Some (Inr (f reserved3 entries)))) \<noteq> None"
proof -
  have "\<exists>y. and_then (read_many decode_archive_entry m rest) (\<lambda>(entries, rest).
       if rest \<noteq> [] then Some (Inl trailing_bytes) else Some (Inr (f reserved3 entries))) = Some y"
    for rest reserved3
    by (rule and_then_defined [OF aentry.many_safe]) auto
  then show ?thesis by (intro and_then_safe [OF take_block_safe]) auto
qed

lemma try_decode_archive_safe: "try_decode_archive bs \<noteq> None"
proof (cases "length bs < 98")
  case False
  then show ?thesis
    using archive_tail_safe [where f = "\<lambda>reserved3 entries. \<lparr> ar_version = v, ar_archive_size = sz,
      ar_archive_name = nm, ar_file_auto_launch = fa, ar_reserved3 = reserved3, ar_entries = entries \<rparr>"
      for v sz nm fa]
    by (simp add: try_decode_archive_def kArchiveHeaderSize_def span_simps del: not_None_eq)
qed (simp add: try_decode_archive_def kArchiveHeaderSize_def)

lemma try_decode_archive_wire:
  assumes "archive_ok a"
  shows "try_decode_archive (archive_wire a @ xs) =
    (if xs = [] then Some (Inr a) else Some (Inl trailing_bytes))"
proof -
  obtain v sz nm fa r3 es where a: "a = \<lparr> ar_version = v, ar_archive_size = sz, ar_archive_name = nm,
      ar_file_auto_launch = fa, ar_reserved3 = r3, ar_entries = es \<rparr>" by (cases a) simp
  have ok: "v = 1" "length nm \<le> 63" "length r3 \<le> 65535" "length es \<le> 65535" "list_all archive_entry_ok es"
    using assms by (simp_all add: archive_ok_def a kArchiveVersion_def)
  define tail where "tail = r3 @ concat (map emit_archive_entry es) @ xs"
  define bs where "bs = archive_wire a @ xs"
  have bs: "bs = write_u32be kArchiveFormat @ write_u32be v @ write_u32be sz @ replicate 16 0 @
      [word_of_nat (length nm)] @ map byte_of_char nm @ replicate (63 - length nm) 0 @
      write_u16be (word_of_nat (length es)) @ write_u16be fa @ write_u16be (word_of_nat (length r3)) @ tail"
    by (simp add: bs_def archive_wire_def a tail_def)
  have reads: "\<not> length bs < 98" "u32be_at 0 bs = Some kArchiveFormat" "u32be_at 4 bs = Some v"
    "u32be_at 8 bs = Some sz" "span_at 28 bs = Some (word_of_nat (length nm))"
    "span_sub 29 (length nm) bs = Some (map byte_of_char nm)"
    "u16be_at 92 bs = Some (word_of_nat (length es))" "u16be_at 94 bs = Some fa"
    "u16be_at 96 bs = Some (word_of_nat (length r3))" "span_from 98 bs = Some tail"
    using ok(2) by (simp_all add: bs span_simps nth_append)
  have "try_decode_archive bs = (if xs = [] then Some (Inr a) else Some (Inl trailing_bytes))"
    using ok reads
    by (simp add: try_decode_archive_def kArchiveHeaderSize_def kArchiveVersion_def tail_def
        take_block_simps aentry.many_emit aentry.many_emit_all a min_absorb1)
  then show ?thesis by (simp add: bs_def)
qed

section \<open>Properties\<close>

text \<open>C26: The archive decoder reads every archive laid out as documented, entry for entry with
  paths, reserved bytes and payloads, refuses it with bytes behind it, and never reads out of
  bounds whatever the counts and sizes in the input say.\<close>

theorem archive_decoder_complete:
  "(archive_ok a \<longrightarrow> try_decode_archive (archive_wire a) = Some (Inr a) \<and>
     (\<forall>xs. xs \<noteq> [] \<longrightarrow> try_decode_archive (archive_wire a @ xs) = Some (Inl trailing_bytes))) \<and>
   try_decode_archive bs \<noteq> None"
  using try_decode_archive_wire [of a "[]"] try_decode_archive_wire [of a] try_decode_archive_safe by simp

theorem archive_decoder_complete_witness:
  "try_decode_archive (archive_wire \<lparr> ar_version = kArchiveVersion, ar_archive_size = 0, ar_archive_name = ''a'',
      ar_file_auto_launch = 0, ar_reserved3 = [1], ar_entries = [\<lparr> ae_type = 5,
        ae_path = [\<lparr> pc_script = 0, pc_name = ''f'' \<rparr>], ae_reserved = [], ae_compression_type = kArchiveCompressionRaw,
        ae_decompressed_size = 1, ae_payload = [9] \<rparr>] \<rparr> @ [0]) = Some (Inl trailing_bytes)"
  using archive_decoder_complete [of "\<lparr> ar_version = kArchiveVersion, ar_archive_size = 0, ar_archive_name = ''a'',
      ar_file_auto_launch = 0, ar_reserved3 = [1], ar_entries = [\<lparr> ae_type = 5,
        ae_path = [\<lparr> pc_script = 0, pc_name = ''f'' \<rparr>], ae_reserved = [], ae_compression_type = kArchiveCompressionRaw,
        ae_decompressed_size = 1, ae_payload = [9] \<rparr>] \<rparr>"]
  by (simp add: archive_ok_def archive_entry_ok_def path_component_ok_def emit_archive_path_def
      emit_path_component_def)

text \<open>What zlib documents of \<open>uncompress\<close>, relative to what a stream decompresses to: it writes
  inside the buffer; if it returns \<open>Z_OK\<close> the bytes before the length it reports are the
  decompressed stream; and it returns \<open>Z_OK\<close> whenever the stream is sound and fits, if it does not run out
  of memory (\<open>Z_MEM_ERROR\<close>, -4).\<close>

definition zlib_contract :: "(bytes \<Rightarrow> bytes option) \<Rightarrow> zlib \<Rightarrow> bool" where
  "zlib_contract inflate uncompress \<longleftrightarrow> (\<forall>n src r m buf. uncompress n src = (r, m, buf) \<longrightarrow>
     length buf = n \<and> (r = 0 \<longrightarrow> m \<le> n \<and> inflate src = Some (take m buf))
     \<and> (\<forall>data. inflate src = Some data \<longrightarrow> length data \<le> n \<longrightarrow> r = 0 \<or> r = - 4))"

text \<open>C27: Decompression is exact.  An entry unpacks to \<open>out\<close> exactly if \<open>out\<close> has the announced
  size, that size is at most 64 MiB, and \<open>out\<close> is the payload of a raw entry or what the
  payload of a zlib entry decompresses to; so a stream that is damaged, or decompresses to
  less or more than announced, yields an error and never a buffer padded with zeros.  An entry
  over the cap is refused as such, whatever its type.  zlib is taken to do what it documents, and
  not to run out of memory.\<close>

theorem decompress_exact:
  assumes "zlib_contract inflate uncompress"
    and "fst (uncompress (unat (ae_decompressed_size e)) (ae_payload e)) \<noteq> - 4"
  shows "(decompress_archive_entry uncompress e = Inr out \<longleftrightarrow>
      length out = unat (ae_decompressed_size e) \<and> length out \<le> 67108864
      \<and> (ae_compression_type e = kArchiveCompressionRaw \<and> out = ae_payload e
        \<or> ae_compression_type e = kArchiveCompressionZlib \<and> inflate (ae_payload e) = Some out))
    \<and> (67108864 < unat (ae_decompressed_size e) \<longrightarrow>
        decompress_archive_entry uncompress e = Inl exceeds_size_cap)"
proof -
  have types: "kArchiveCompressionZlib \<noteq> kArchiveCompressionRaw"
    by (simp add: kArchiveCompressionZlib_def kArchiveCompressionRaw_def four_cc_def byte_of_char_def)
  obtain r m buf where u: "uncompress (unat (ae_decompressed_size e)) (ae_payload e) = (r, m, buf)"
    by (metis prod_cases3)
  with assms have z: "length buf = unat (ae_decompressed_size e)" "r \<noteq> - 4"
    "r = 0 \<longrightarrow> m \<le> length buf \<and> inflate (ae_payload e) = Some (take m buf)"
    "\<forall>data. inflate (ae_payload e) = Some data \<longrightarrow> length data \<le> unat (ae_decompressed_size e) \<longrightarrow> r = 0"
    unfolding zlib_contract_def by fastforce+
  have "r = 0 \<and> m = unat (ae_decompressed_size e) \<and> buf = out \<longleftrightarrow>
      length out = unat (ae_decompressed_size e) \<and> inflate (ae_payload e) = Some out"
    using z by auto
  then show ?thesis
    using types u by (auto simp: decompress_archive_entry_def kMaxArchiveEntryDecompressedSize_def)
qed

text \<open>A format of stored streams stands for zlib: the byte 120 and then the data.  A stream of two bytes
  unpacks if two are announced, and not if three are.\<close>

definition stored :: "bytes \<Rightarrow> bytes option" where
  "stored src = (case src of [] \<Rightarrow> None | b # bs \<Rightarrow> if b = 120 then Some bs else None)"

definition unpack_stored :: zlib where
  "unpack_stored n src =
     (case stored src of
        None \<Rightarrow> (- 3, 0, replicate n 0)
      | Some data \<Rightarrow> if length data \<le> n then (0, length data, data @ replicate (n - length data) 0)
          else (- 5, n, take n data))"

definition stored_entry :: "u32 \<Rightarrow> archive_entry" where
  "stored_entry n = \<lparr> ae_type = 0, ae_path = [], ae_reserved = [],
     ae_compression_type = kArchiveCompressionZlib, ae_decompressed_size = n, ae_payload = [120, 5, 6] \<rparr>"

theorem decompress_exact_witness:
  "decompress_archive_entry unpack_stored (stored_entry 2) = Inr [5, 6]
   \<and> (\<forall>out. decompress_archive_entry unpack_stored (stored_entry 3) \<noteq> Inr out)"
proof -
  have contract: "zlib_contract stored unpack_stored"
    unfolding zlib_contract_def unpack_stored_def by (auto split: option.splits if_splits)
  have "fst (unpack_stored (unat (ae_decompressed_size (stored_entry n))) (ae_payload (stored_entry n))) \<noteq> - 4" for n
    by (simp add: unpack_stored_def split: option.split)
  note exact = decompress_exact [OF contract this, THEN conjunct1]
  have "stored (ae_payload (stored_entry n)) = Some [5, 6]" "ae_compression_type (stored_entry n) = kArchiveCompressionZlib"
    "ae_decompressed_size (stored_entry n) = n" for n
    by (simp_all add: stored_def stored_entry_def)
  moreover have "kArchiveCompressionZlib \<noteq> kArchiveCompressionRaw"
    by (simp add: kArchiveCompressionZlib_def kArchiveCompressionRaw_def four_cc_def byte_of_char_def)
  ultimately show ?thesis by (auto simp: exact)
qed

end
