(* ===== verification/Hope.thy ===== *)
theory Hope
  imports Login_Keys Field_List
begin

text \<open>
  The encrypted-login (HOPE) field lists and their parsers (\<open>hotline/protocol/hope.h\<close>,
  \<open>hope.cpp\<close>).
\<close>

definition kHmacSha1Name :: bytes where
  "kHmacSha1Name = 9 # map byte_of_char ''HMAC-SHA1''"

definition kHmacMd5Name :: bytes where
  "kHmacMd5Name = 8 # map byte_of_char ''HMAC-MD5''"

definition kBlowfishName :: bytes where
  "kBlowfishName = 8 # map byte_of_char ''BLOWFISH''"

definition kMacAlgList :: bytes where
  "kMacAlgList = [0, 2, 9] @ map byte_of_char ''HMAC-SHA1''"

definition kClientCipherAlgList :: bytes where
  "kClientCipherAlgList = [0, 1, 8] @ map byte_of_char ''BLOWFISH''"

definition kMinSessionKeySize :: nat where "kMinSessionKeySize = 32"

datatype MacAlgorithm = hmac_sha1 | hmac_md5
datatype CipherAlgorithm = cipher_blowfish
datatype HopeError = hope_malformed | unsupported_mac_algorithm | unsupported_cipher_algorithm

definition build_stage1_login :: field_list where
  "build_stage1_login =
     [\<lparr> field_id = field_id_value F_UserLogin, field_bytes = [0] \<rparr>,
      \<lparr> field_id = field_id_value F_UserPassword, field_bytes = [0] \<rparr>,
      \<lparr> field_id = field_id_value F_MacAlg, field_bytes = kMacAlgList \<rparr>,
      \<lparr> field_id = field_id_value F_ClientCipherAlg, field_bytes = kClientCipherAlgList \<rparr>]"

definition parse_server_mac_algorithm :: "bytes \<Rightarrow> (HopeError, MacAlgorithm) checked" where
  "parse_server_mac_algorithm f =
     (if length f < 3 then Some (Inl hope_malformed)
      else do {
        name \<leftarrow> span_from 2 f;
        if name = kHmacSha1Name then Some (Inr hmac_sha1)
        else if name = kHmacMd5Name then Some (Inr hmac_md5)
        else Some (Inl unsupported_mac_algorithm) })"

definition parse_server_cipher_algorithm :: "bytes \<Rightarrow> (HopeError, CipherAlgorithm) checked" where
  "parse_server_cipher_algorithm f =
     (if length f < 3 then Some (Inl hope_malformed)
      else do {
        name \<leftarrow> span_from 2 f;
        if name = kBlowfishName then Some (Inr cipher_blowfish)
        else Some (Inl unsupported_cipher_algorithm) })"

definition login_digests :: "digest_alg \<Rightarrow> bytes \<Rightarrow> bytes \<Rightarrow> bytes \<Rightarrow> (bytes \<times> bytes) option" where
  "login_digests H login password session_key = do {
     l \<leftarrow> hmac H login session_key;
     p \<leftarrow> hmac H password session_key;
     Some (l, p) }"

definition build_stage2_login ::
    "digest_alg \<Rightarrow> bytes \<Rightarrow> bytes \<Rightarrow> bytes \<Rightarrow> bytes \<Rightarrow> field_list option" where
  "build_stage2_login H login password session_key server_cipher_field = do {
     (mac_login, mac_password) \<leftarrow> login_digests H login password session_key;
     Some
       [\<lparr> field_id = field_id_value F_UserLogin, field_bytes = mac_login \<rparr>,
        \<lparr> field_id = field_id_value F_UserPassword, field_bytes = mac_password \<rparr>,
        \<lparr> field_id = field_id_value F_ClientCipherAlg, field_bytes = server_cipher_field \<rparr>,
        make_integer_field (field_id_value F_Vers) 197] }"

definition build_server_stage2_reply :: "bytes \<Rightarrow> MacAlgorithm \<Rightarrow> field_list" where
  "build_server_stage2_reply session_key algorithm =
     (let name = (if algorithm = hmac_sha1 then kHmacSha1Name else kHmacMd5Name);
          mac_field = [0, 1] @ name;
          cipher_field = [0, 1] @ kBlowfishName
      in [\<lparr> field_id = field_id_value F_SessionKey, field_bytes = session_key \<rparr>,
          \<lparr> field_id = field_id_value F_MacAlg, field_bytes = mac_field \<rparr>,
          \<lparr> field_id = field_id_value F_ServerCipherAlg, field_bytes = cipher_field \<rparr>])"

definition mac_name :: "MacAlgorithm \<Rightarrow> bytes" where
  "mac_name a = (case a of hmac_sha1 \<Rightarrow> kHmacSha1Name | hmac_md5 \<Rightarrow> kHmacMd5Name)"

lemma algorithm_names_distinct:
  "kHmacSha1Name \<noteq> kHmacMd5Name" "kHmacMd5Name \<noteq> kBlowfishName" "kHmacSha1Name \<noteq> kBlowfishName"
  by (simp_all add: kHmacSha1Name_def kHmacMd5Name_def kBlowfishName_def)
    (simp add: byte_of_char_def)

lemma algorithm_name_lengths [simp]:
  "length kHmacSha1Name = 10" "length kHmacMd5Name = 9" "length kBlowfishName = 9"
  by (simp_all add: kHmacSha1Name_def kHmacMd5Name_def kBlowfishName_def)

section \<open>Properties\<close>

text \<open>The algorithm parsers never read out of bounds and recognise an algorithm exactly by its
  name behind a two-byte prefix of any value; a name cut short or followed by anything is
  unsupported, and only a field of fewer than three bytes is malformed.\<close>

theorem hope_parsers_exact:
  "(parse_server_mac_algorithm f = Some (Inr a) \<longleftrightarrow> length f \<ge> 2 \<and> drop 2 f = mac_name a) \<and>
   (parse_server_cipher_algorithm f = Some (Inr c) \<longleftrightarrow> length f \<ge> 2 \<and> drop 2 f = kBlowfishName) \<and>
   (parse_server_mac_algorithm f = Some (Inl hope_malformed) \<longleftrightarrow> length f < 3) \<and>
   (parse_server_cipher_algorithm f = Some (Inl hope_malformed) \<longleftrightarrow> length f < 3) \<and>
   parse_server_mac_algorithm f \<noteq> None \<and> parse_server_cipher_algorithm f \<noteq> None"
proof (cases "length f < 3")
  case True
  then have "length (drop 2 f) < 9" by simp
  then have "drop 2 f \<noteq> kHmacSha1Name" "drop 2 f \<noteq> kHmacMd5Name" "drop 2 f \<noteq> kBlowfishName"
    by (intro notI; simp del: length_drop)+
  with True show ?thesis
    by (cases a) (simp_all add: parse_server_mac_algorithm_def parse_server_cipher_algorithm_def mac_name_def)
next
  case False
  then show ?thesis using algorithm_names_distinct
    by (cases a; cases c) (auto simp: parse_server_mac_algorithm_def parse_server_cipher_algorithm_def
        mac_name_def span_simps)
qed

text \<open>The server's reply, sent as a field list and looked up by the client, gives back the
  session key and both algorithms, for every session key a field can carry.\<close>

theorem hope_reply_understood:
  assumes "length session_key \<le> 65535"
  shows "\<exists>wire l. encode_field_list (build_server_stage2_reply session_key algorithm) = Inr wire
    \<and> decode_field_list wire = Some (Inr l)
    \<and> field_data l (field_id_value F_SessionKey) = session_key
    \<and> parse_server_mac_algorithm (field_data l (field_id_value F_MacAlg)) = Some (Inr algorithm)
    \<and> parse_server_cipher_algorithm (field_data l (field_id_value F_ServerCipherAlg))
        = Some (Inr cipher_blowfish)"
proof -
  let ?l = "build_server_stage2_reply session_key algorithm"
  have "fields_ok ?l"
    using assms by (simp add: build_server_stage2_reply_def fields_ok_def field_ok_def Let_def)
  then obtain wire where w: "encode_field_list ?l = Inr wire" "decode_field_list wire = Some (Inr ?l)"
    using flist.enc_total flist.dec_enc by blast
  have d: "field_data ?l (field_id_value F_SessionKey) = session_key"
    "field_data ?l (field_id_value F_MacAlg) = [0, 1] @ mac_name algorithm"
    "field_data ?l (field_id_value F_ServerCipherAlg) = [0, 1] @ kBlowfishName"
    by (simp_all add: build_server_stage2_reply_def field_data_def mac_name_def split: MacAlgorithm.split)
  have "parse_server_mac_algorithm ([0, 1] @ mac_name algorithm) = Some (Inr algorithm)"
    using algorithm_names_distinct
    by (cases algorithm) (simp_all add: parse_server_mac_algorithm_def mac_name_def span_simps)
  moreover have "parse_server_cipher_algorithm ([0, 1] @ kBlowfishName) = Some (Inr cipher_blowfish)"
    by (simp add: parse_server_cipher_algorithm_def span_simps)
  ultimately show ?thesis using w d by (intro exI [of _ wire] exI [of _ ?l]) simp
qed

theorem hope_reply_understood_witness:
  "\<exists>wire l. encode_field_list (build_server_stage2_reply (replicate 32 7) hmac_md5) = Inr wire
    \<and> decode_field_list wire = Some (Inr l)
    \<and> field_data l (field_id_value F_SessionKey) = replicate 32 7
    \<and> parse_server_mac_algorithm (field_data l (field_id_value F_MacAlg)) = Some (Inr hmac_md5)"
  using hope_reply_understood [of "replicate 32 7" hmac_md5] by auto

text \<open>Both login stages of the client are representable on the wire with either digest: the
  digest fields have the digest's length and the echoed cipher field must fit a field.\<close>

theorem hope_logins_representable:
  assumes "H \<in> {Md5, Sha1}" and "length server_cipher_field \<le> 65535"
  shows "\<exists>l w1 w2. build_stage2_login H login password session_key server_cipher_field = Some l
    \<and> encode_field_list build_stage1_login = Inr w1 \<and> encode_field_list l = Inr w2
    \<and> length (field_data l (field_id_value F_UserLogin)) = alg_digest_size H
    \<and> length (field_data l (field_id_value F_UserPassword)) = alg_digest_size H
    \<and> decode_integer_field (l ! 3) = Some (Inr 197)"
proof -
  have md: "message_digest H" "alg_digest_size H \<le> 20"
    using assms(1) md5.message_digest_axioms sha1.message_digest_axioms
    by (auto simp: Md5_def Sha1_def)
  obtain ml mp where m: "hmac H login session_key = Some ml" "length ml = alg_digest_size H"
    "hmac H password session_key = Some mp" "length mp = alg_digest_size H"
    using message_digest.hmac_total [OF md(1)] by metis
  define l where "l = [\<lparr> field_id = field_id_value F_UserLogin, field_bytes = ml \<rparr>,
      \<lparr> field_id = field_id_value F_UserPassword, field_bytes = mp \<rparr>,
      \<lparr> field_id = field_id_value F_ClientCipherAlg, field_bytes = server_cipher_field \<rparr>,
      make_integer_field (field_id_value F_Vers) 197]"
  have "build_stage2_login H login password session_key server_cipher_field = Some l"
    by (simp add: build_stage2_login_def login_digests_def m l_def)
  moreover have "fields_ok build_stage1_login"
    by (simp add: build_stage1_login_def fields_ok_def field_ok_def kMacAlgList_def kClientCipherAlgList_def)
  moreover have "fields_ok l"
    using assms(2) m md(2) by (simp add: l_def fields_ok_def field_ok_def make_integer_field_def)
  moreover have "field_data l (field_id_value F_UserLogin) = ml"
    "field_data l (field_id_value F_UserPassword) = mp"
    by (simp_all add: l_def field_data_def)
  moreover have "decode_integer_field (l ! 3) = Some (Inr 197)"
    by (simp add: l_def decode_make_integer_field)
  ultimately show ?thesis using m flist.enc_total by metis
qed

theorem hope_logins_representable_witness:
  "\<exists>l w1 w2. build_stage2_login Md5 [1] [2] [3] [0, 1, 8] = Some l
    \<and> encode_field_list build_stage1_login = Inr w1 \<and> encode_field_list l = Inr w2"
  using hope_logins_representable [of Md5 "[0, 1, 8]" "[1]" "[2]" "[3]"] by auto

end
