(* ===== verification/Hope_Channel.thy ===== *)
theory Hope_Channel
  imports Hope Secure_Channel
begin

text \<open>
  The encrypted login from end to end: the reply of the server (\<open>hope.cpp\<close>) crosses the wire as a
  field list, the client answers it, and the cipher objects both make of it
  (\<open>transaction_cipher.h\<close>) are in step.
\<close>

definition mac_digest :: "MacAlgorithm \<Rightarrow> digest_alg" where
  "mac_digest a = (case a of hmac_sha1 \<Rightarrow> Sha1 | hmac_md5 \<Rightarrow> Md5)"

lemma mac_digest_program: "message_digest (mac_digest a)"
  by (rule digest_cases) (cases a; simp add: mac_digest_def)

lemma mac_digest_short: "alg_digest_size (mac_digest a) \<le> 20"
  by (cases a) (simp_all add: mac_digest_def Md5_def Sha1_def)

section \<open>The answer of the client\<close>

text \<open>The server finds in the second login the digests it computes itself and the cipher it offered.\<close>

lemma stage2_login_received:
  assumes "length cipher_field \<le> 65535"
  shows "\<exists>fields wire l. build_stage2_login (mac_digest a) login password key cipher_field = Some fields
    \<and> encode_field_list fields = Inr wire \<and> decode_field_list wire = Some (Inr l)
    \<and> login_digests (mac_digest a) login password key
        = Some (field_data l (field_id_value F_UserLogin), field_data l (field_id_value F_UserPassword))
    \<and> field_data l (field_id_value F_ClientCipherAlg) = cipher_field"
proof -
  obtain ml mp where m: "hmac (mac_digest a) login key = Some ml" "length ml = alg_digest_size (mac_digest a)"
    "hmac (mac_digest a) password key = Some mp" "length mp = alg_digest_size (mac_digest a)"
    using message_digest.hmac_total [OF mac_digest_program] by metis
  define l where "l = [\<lparr> field_id = field_id_value F_UserLogin, field_bytes = ml \<rparr>,
      \<lparr> field_id = field_id_value F_UserPassword, field_bytes = mp \<rparr>,
      \<lparr> field_id = field_id_value F_ClientCipherAlg, field_bytes = cipher_field \<rparr>,
      make_integer_field (field_id_value F_Vers) 197]"
  have "build_stage2_login (mac_digest a) login password key cipher_field = Some l"
    "login_digests (mac_digest a) login password key = Some (ml, mp)"
    by (simp_all add: build_stage2_login_def login_digests_def m l_def)
  moreover have "fields_ok l"
    using assms m(2,4) mac_digest_short [of a] by (simp add: l_def fields_ok_def field_ok_def make_integer_field_def)
  then obtain wire where "encode_field_list l = Inr wire" "decode_field_list wire = Some (Inr l)"
    using flist.enc_total flist.dec_enc by blast
  moreover have "field_data l (field_id_value F_UserLogin) = ml" "field_data l (field_id_value F_UserPassword) = mp"
    "field_data l (field_id_value F_ClientCipherAlg) = cipher_field"
    by (simp_all add: l_def field_data_def)
  ultimately show ?thesis by metis
qed

section \<open>Properties\<close>

text \<open>C21: The encrypted login leads both ends to one channel.  The server's reply, sent as a field list
  and looked up by the client, gives the client the session key and both algorithms; the second
  login the client builds from what it read, sent in turn, carries the digests of login and password
  that the server computes with its own key and algorithm, and the cipher it offered; and the cipher
  objects the two make, each from its own copy of the session key, have matching lanes in both
  directions.  This holds for every session key of at least 32 bytes that a field can carry and
  any login and password; shorter keys are outside the protocol, although the rejection the header
  documents is not in the code.\<close>

theorem hope_login_opens_channel:
  assumes "kMinSessionKeySize \<le> length session_key" and "length session_key \<le> 65535"
  shows "\<exists>wire l wire' l'. encode_field_list (build_server_stage2_reply session_key algorithm) = Inr wire
    \<and> decode_field_list wire = Some (Inr l)
    \<and> field_data l (field_id_value F_SessionKey) = session_key
    \<and> parse_server_mac_algorithm (field_data l (field_id_value F_MacAlg)) = Some (Inr algorithm)
    \<and> parse_server_cipher_algorithm (field_data l (field_id_value F_ServerCipherAlg)) = Some (Inr cipher_blowfish)
    \<and> Option.bind (build_stage2_login (mac_digest algorithm) login password
          (field_data l (field_id_value F_SessionKey)) (field_data l (field_id_value F_ServerCipherAlg)))
        (\<lambda>fields. Some (encode_field_list fields)) = Some (Inr wire')
    \<and> decode_field_list wire' = Some (Inr l')
    \<and> login_digests (mac_digest algorithm) login password session_key
        = Some (field_data l' (field_id_value F_UserLogin), field_data l' (field_id_value F_UserPassword))
    \<and> parse_server_cipher_algorithm (field_data l' (field_id_value F_ClientCipherAlg)) = Some (Inr cipher_blowfish)
    \<and> (\<exists>c v. transaction_cipher_new (mac_digest algorithm) password (field_data l (field_id_value F_SessionKey)) True = Some c
        \<and> transaction_cipher_new (mac_digest algorithm) password session_key False = Some v
        \<and> tc_ok c \<and> tc_ok v \<and> enc_lane c = dec_lane v \<and> enc_lane v = dec_lane c)"
proof -
  obtain wire l where 1: "encode_field_list (build_server_stage2_reply session_key algorithm) = Inr wire"
    "decode_field_list wire = Some (Inr l)" "field_data l (field_id_value F_SessionKey) = session_key"
    "parse_server_mac_algorithm (field_data l (field_id_value F_MacAlg)) = Some (Inr algorithm)"
    "parse_server_cipher_algorithm (field_data l (field_id_value F_ServerCipherAlg)) = Some (Inr cipher_blowfish)"
    using hope_reply_understood [OF assms(2), of algorithm] by blast
  let ?f = "field_data l (field_id_value F_ServerCipherAlg)"
  have "2 \<le> length ?f" "drop 2 ?f = kBlowfishName"
    using hope_parsers_exact [of ?f hmac_sha1 cipher_blowfish] 1(5) by simp_all
  then have "length ?f - 2 = 9" by (metis algorithm_name_lengths(3) length_drop)
  then have "length ?f \<le> 65535" by simp
  from stage2_login_received [OF this, of algorithm login password session_key] obtain fields wire' l' where
    2: "build_stage2_login (mac_digest algorithm) login password session_key ?f = Some fields"
    "encode_field_list fields = Inr wire'" "decode_field_list wire' = Some (Inr l')"
    "login_digests (mac_digest algorithm) login password session_key
        = Some (field_data l' (field_id_value F_UserLogin), field_data l' (field_id_value F_UserPassword))"
    "field_data l' (field_id_value F_ClientCipherAlg) = ?f" by metis
  obtain c v where 3: "transaction_cipher_new (mac_digest algorithm) password session_key True = Some c"
    "transaction_cipher_new (mac_digest algorithm) password session_key False = Some v" "in_step c v" "in_step v c"
    using message_digest.tc_new_in_step [OF mac_digest_program, of algorithm password session_key] by blast
  show ?thesis
    using 1 2 3(1,2) 3(3,4) [unfolded in_step_lanes]
    by (intro exI [of _ wire] exI [of _ l] exI [of _ wire'] exI [of _ l']) simp
qed

theorem hope_login_opens_channel_witness:
  "\<exists>c v. transaction_cipher_new Md5 [112, 119] (replicate 32 7) True = Some c
     \<and> transaction_cipher_new Md5 [112, 119] (replicate 32 7) False = Some v \<and> enc_lane c = dec_lane v"
proof -
  have "kMinSessionKeySize \<le> length (replicate 32 (7 :: u8))" "length (replicate 32 (7 :: u8)) \<le> 65535"
    by (simp_all add: kMinSessionKeySize_def)
  from hope_login_opens_channel [OF this, of hmac_md5 "[97]" "[112, 119]"] show ?thesis
    by (metis MacAlgorithm.simps(4) mac_digest_def)
qed

end
