(* ===== verification/Delivery_Properties.thy ===== *)
theory Delivery_Properties
  imports Connection_Properties
begin

text \<open>
  The properties of two connections that talk to each other: transactions arrive as they were
  sent, plain and encrypted, whole and in parts.
\<close>

section \<open>Connections for the instances\<close>

text \<open>An established connection with a session behind it, on a kernel that always blocks.\<close>

definition session_env_of :: "transaction_cipher \<Rightarrow> session_env" where
  "session_env_of t = \<lparr> sv_session = session_new \<lparr> sg_server_name = ''slop'', sg_server_version = 197,
     sg_community_banner_id = 0, sg_lookup_user = None, sg_incorrect_login_message = ''Incorrect login.'' \<rparr>,
     sv_cipher = t, sv_flags = [3] \<rparr>"

definition open_connection :: "session_env crypto_hooks \<Rightarrow> transaction_cipher \<Rightarrow> session_env connection" where
  "open_connection hooks t = (server_new 1000 (session_env_of t) (scripted []))
     \<lparr> cn_socket := 3, cn_state := established, cn_stage := stage_header, cn_crypto := hooks \<rparr>"

lemma open_connection_fields [simp]:
  "queue_ok (open_connection hooks t)" "cn_crypto (open_connection hooks t) = hooks"
  "ready hooks (open_connection hooks t)" "alive (open_connection hooks t)"
  "cn_inbound (open_connection hooks t) = []" "sv_cipher (cn_env (open_connection hooks t)) = t"
  "cn_max_receive_size (open_connection hooks t) = 1000" "received (cn_callbacks (open_connection hooks t)) = []"
  "cn_partial (open_connection hooks t) key = None"
  by (simp_all add: open_connection_def queue_ok_def ready_def alive_def session_env_of_def
      server_new_def connection_new_def)

lemma open_connection_queues:
  "cn_state (queue_transaction ev kind tid data is_reply error (open_connection hooks t)) \<noteq> dead"
proof -
  let ?c = "open_connection hooks t"
  obtain e bs where b: "transaction_bytes kind tid data is_reply error ?c = (e, bs)" by force
  let ?q = "queue_bytes bs (?c\<lparr> cn_env := e \<rparr>)"
  have "queue_ok ?q" by (simp add: queue_ok_queue_bytes)
  then have "cn_state (flush_sends ev ?q) = cn_state ?q"
    by (rule flush_on_blocking_state [rotated 2])
      (simp_all add: queue_bytes_def open_connection_def scripted_def socket_is_open_def kInvalid_def)
  also have "cn_state ?q = established" by (simp add: queue_bytes_def open_connection_def)
  finally show ?thesis by (simp add: queue_transaction_bytes b)
qed

lemma open_connection_sends:
  "cn_state (queue_all ev [keepalive_message] (open_connection hooks t)) \<noteq> dead"
  by (simp add: queue_message_def open_connection_queues)

lemma keepalive_sendable: "sendable (cn_max_receive_size (open_connection hooks t)) keepalive_message"
  by (simp add: sendable_def keepalive_message_def)

text \<open>An application that takes what it is handed and never ends the connection.\<close>

definition listening :: "session_env events" where
  "listening = no_events\<lparr> ev_transaction := Some (\<lambda>r c. c) \<rparr>"

lemma listening_laws: "lawful_events listening" "lawful_receiver listening hooks lane" "peaceful listening"
  by (simp_all add: listening_def lawful_events_def lawful_receiver_def peaceful_def)

lemma one_conveyed: "list_all2 conveys (take (length rs) [m]) rs \<Longrightarrow> length rs = 1 \<Longrightarrow> \<exists>t. rs = [t] \<and> conveys m t"
  by (auto simp: length_Suc_conv)

section \<open>Delivery\<close>

text \<open>C1: Encrypted transactions arrive once, in order and unchanged.  A connection whose hooks
  wrap a \<open>TransactionCipher\<close> queues any messages within the receive limit of its peer, whose
  hooks wrap a cipher object in step with it.  Whatever flags were chosen, whatever partial sends
  the kernel made and however the network cuts what goes over the wire, the peer lives on and has
  handed exactly those messages to its application.  There is one exception: the callback of the
  application, called for a message, may end the connection; then an initial part, up to and with
  that message, was delivered.\<close>

theorem encrypted_delivery:
  assumes "H \<in> {Md5, Sha1}"
    and "lawful_events sev" and "cipher_place get put pick"
    and "closing_keeps sev (\<lambda>hs e. (hs, enc_lane (get e), tc_ok (get e)))"
    and "queue_ok c" and "cn_crypto c = cipher_hooks H get put pick" and "tc_ok (get (cn_env c))"
    and "cn_state (queue_all sev ms c) \<noteq> dead"
    and "\<forall>m\<in>set ms. sendable (cn_max_receive_size d) m"
    and "lawful_events rcv" and "cipher_place get' put' pick'"
    and "lawful_receiver rcv (cipher_hooks H get' put' pick') (\<lambda>e. dec_lane (get' e))"
    and "ready (cipher_hooks H get' put' pick') d" and "alive d" and "cn_inbound d = []"
    and "dec_lane (get' (cn_env d)) = enc_lane (get (cn_env c))"
  shows "\<exists>bs. outflow (queue_all sev ms c) = outflow c @ bs \<and>
    (\<forall>chunks. concat chunks = bs \<longrightarrow> (\<exists>d' rs. serve r rcv chunks d = Some d'
       \<and> received (cn_callbacks d') = received (cn_callbacks d) @ rs
       \<and> list_all2 conveys (take (length rs) ms) rs
       \<and> (cn_state d' \<noteq> dead \<and> length rs = length ms
         \<or> cn_state d' = dead \<and> rs \<noteq> [] \<and> owner_ends rcv (received (cn_callbacks d')))))"
  by (rule delivery [where R = "cipher_decodes H" and lane = "\<lambda>e. enc_lane (get e)" and ok = "\<lambda>e. tc_ok (get e)"
        and lane' = "\<lambda>e. dec_lane (get' e)",
      OF assms(2) message_digest.cipher_sends [OF digest_cases [OF assms(1)] assms(3)] assms(4-8,9,10,12)
        cipher_hooks_decode [OF assms(11)] assms(13-16)])

text \<open>After a login a keepalive with three key permutations, cut after three bytes, arrives.\<close>

theorem encrypted_delivery_witness:
  "\<exists>a b bs d t. transaction_cipher_new Sha1 [112, 119] [1, 2, 3] True = Some a
     \<and> transaction_cipher_new Sha1 [112, 119] [1, 2, 3] False = Some b
     \<and> outflow (queue_all closing_events [keepalive_message] (open_connection (session_hooks Sha1) a))
         = outflow (open_connection (session_hooks Sha1) a) @ bs
     \<and> serve server_role listening [take 3 bs, drop 3 bs] (open_connection (session_hooks Sha1) b) = Some d
     \<and> cn_state d \<noteq> dead \<and> received (cn_callbacks d) = [t] \<and> conveys keepalive_message t"
proof -
  obtain a b where new: "transaction_cipher_new Sha1 [112, 119] [1, 2, 3] True = Some a"
    "transaction_cipher_new Sha1 [112, 119] [1, 2, 3] False = Some b" and st: "in_step a b"
    using sha1.tc_new_in_step [of "[112, 119]" "[1, 2, 3]"] by blast
  have lanes: "tc_ok a" "enc_lane a = dec_lane b" using st by (simp_all add: in_step_lanes)
  have hooks: "session_hooks Sha1 = cipher_hooks Sha1 sv_cipher put_cipher pick_flag" by (simp add: session_hooks_def)
  have keep: "closing_keeps closing_events (\<lambda>hs e. (hs, enc_lane (sv_cipher e), tc_ok (sv_cipher e)))"
    by (simp add: closing_keeps_def session_closing_def)
  let ?c = "open_connection (session_hooks Sha1) a" and ?d = "open_connection (session_hooks Sha1) b"
  obtain bs where bs: "outflow (queue_all closing_events [keepalive_message] ?c) = outflow ?c @ bs"
    and all: "\<forall>chunks. concat chunks = bs \<longrightarrow>
      (\<exists>d' rs. serve server_role listening chunks ?d = Some d'
       \<and> received (cn_callbacks d') = received (cn_callbacks ?d) @ rs
       \<and> list_all2 conveys (take (length rs) [keepalive_message]) rs
       \<and> (cn_state d' \<noteq> dead \<and> length rs = length [keepalive_message]
         \<or> cn_state d' = dead \<and> rs \<noteq> [] \<and> owner_ends listening (received (cn_callbacks d'))))"
    using encrypted_delivery [of Sha1 closing_events sv_cipher put_cipher pick_flag ?c "[keepalive_message]" ?d
        listening sv_cipher put_cipher pick_flag server_role]
      closing.lawful session_cipher_place keep lanes open_connection_sends keepalive_sendable
      listening_laws(1) listening_laws(2) [of "session_hooks Sha1" "\<lambda>e. dec_lane (sv_cipher e)"]
    unfolding hooks by auto
  have "concat [take 3 bs, drop 3 bs] = bs" by simp
  with all obtain d rs where d: "serve server_role listening [take 3 bs, drop 3 bs] ?d = Some d"
    "received (cn_callbacks d) = rs" "list_all2 conveys (take (length rs) [keepalive_message]) rs"
    "cn_state d \<noteq> dead" "length rs = 1"
    using peaceful_never_ends [OF listening_laws(3)] by (metis open_connection_fields(8) append_Nil
        length_Cons list.size(3) One_nat_def)
  with one_conveyed [OF d(3,5)] new bs show ?thesis by blast
qed

text \<open>C13: Without encryption the same holds of any two connections: every message is delivered, once, in
  order and unchanged, and the receiver lives on, unless the receiver's application ends the
  connection in its callback for one of them.\<close>

theorem plain_delivery:
  assumes "lawful_events sev" and "closing_keeps sev (\<lambda>hs e. hs)"
    and "queue_ok c" and "cn_crypto c = no_crypto" and "cn_state (queue_all sev ms c) \<noteq> dead"
    and "\<forall>m\<in>set ms. sendable (cn_max_receive_size d) m"
    and "lawful_events rcv" and "lawful_receiver rcv no_crypto (\<lambda>_. ())"
    and "ready no_crypto d" and "alive d" and "cn_inbound d = []"
  shows "\<exists>bs. outflow (queue_all sev ms c) = outflow c @ bs \<and>
    (\<forall>chunks. concat chunks = bs \<longrightarrow> (\<exists>d' rs. serve r rcv chunks d = Some d'
       \<and> received (cn_callbacks d') = received (cn_callbacks d) @ rs
       \<and> list_all2 conveys (take (length rs) ms) rs
       \<and> (cn_state d' \<noteq> dead \<and> length rs = length ms
         \<or> cn_state d' = dead \<and> rs \<noteq> [] \<and> owner_ends rcv (received (cn_callbacks d')))))"
proof -
  have keep: "closing_keeps sev (\<lambda>hs e. (hs, (), True))" using assms(2) by (simp add: closing_keeps_def)
  show ?thesis
    by (rule delivery [where R = plain_decodes and lane = "\<lambda>_. ()" and ok = "\<lambda>_. True" and lane' = "\<lambda>_. ()",
        OF assms(1) plain_sends keep assms(3,4) TrueI assms(5,6,7,8) plain_hooks_decode assms(9-11) refl])
qed

theorem plain_delivery_witness:
  "\<forall>t. \<exists>bs d r. outflow (queue_all closing_events [keepalive_message] (open_connection no_crypto t))
         = outflow (open_connection no_crypto t) @ bs
     \<and> serve client_role listening [take 3 bs, drop 3 bs] (open_connection no_crypto t) = Some d
     \<and> cn_state d \<noteq> dead \<and> received (cn_callbacks d) = [r] \<and> conveys keepalive_message r"
proof
  fix t
  let ?c = "open_connection no_crypto t"
  have keep: "closing_keeps closing_events (\<lambda>hs e. hs)" by (simp add: closing_keeps_def session_closing_def)
  have small: "\<forall>m\<in>set [keepalive_message]. sendable (cn_max_receive_size ?c) m"
    using keepalive_sendable by simp
  from plain_delivery [OF closing.lawful keep open_connection_fields(1,2) open_connection_sends small
      listening_laws(1,2) open_connection_fields(3-5), where r = client_role]
  obtain bs where bs: "outflow (queue_all closing_events [keepalive_message] ?c) = outflow ?c @ bs"
    and all: "\<forall>chunks. concat chunks = bs \<longrightarrow>
      (\<exists>d' rs. serve client_role listening chunks ?c = Some d'
       \<and> received (cn_callbacks d') = received (cn_callbacks ?c) @ rs
       \<and> list_all2 conveys (take (length rs) [keepalive_message]) rs
       \<and> (cn_state d' \<noteq> dead \<and> length rs = length [keepalive_message]
         \<or> cn_state d' = dead \<and> rs \<noteq> [] \<and> owner_ends listening (received (cn_callbacks d'))))" by blast
  have "concat [take 3 bs, drop 3 bs] = bs" by simp
  with all obtain d rs where d: "serve client_role listening [take 3 bs, drop 3 bs] ?c = Some d"
    "received (cn_callbacks d) = rs" "list_all2 conveys (take (length rs) [keepalive_message]) rs"
    "cn_state d \<noteq> dead" "length rs = 1"
    using peaceful_never_ends [OF listening_laws(3)] by (metis open_connection_fields(8) append_Nil
        length_Cons list.size(3) One_nat_def)
  with one_conveyed [OF d(3,5)] bs
  show "\<exists>bs d r. outflow (queue_all closing_events [keepalive_message] ?c) = outflow ?c @ bs
     \<and> serve client_role listening [take 3 bs, drop 3 bs] ?c = Some d
     \<and> cn_state d \<noteq> dead \<and> received (cn_callbacks d) = [r] \<and> conveys keepalive_message r" by blast
qed

section \<open>Transactions in parts\<close>

definition part_header :: "transaction_header \<Rightarrow> nat \<Rightarrow> bytes \<Rightarrow> transaction_header" where
  "part_header h full data = h\<lparr> th_total_size := word_of_nat full, th_data_size := word_of_nat (length data) \<rparr>"

lemma reassemble_parts:
  assumes "full = length held + length (concat parts)" and "full < 4294967296"
    and "\<forall>p\<in>set parts. p \<noteq> [] \<and> length p < full" and "parts \<noteq> []"
    and "(case m (th_is_reply h, th_id h) of Some p \<Rightarrow> pr_data p | None \<Rightarrow> []) = held"
  shows "reassemble m (map (\<lambda>p. (part_header h full p, p)) parts)
    = ([\<lparr> rt_header = part_header h full (last parts), rt_data = held @ concat parts \<rparr>],
       m((th_is_reply h, th_id h) := None))"
  using assms
proof (induction parts arbitrary: m held)
  case (Cons p parts)
  have len: "length p < full" "p \<noteq> []" using Cons.prems(3) by auto
  have u: "unat (word_of_nat n :: u32) = n" if "n \<le> full" for n
    using that Cons.prems(2) by (intro word_of_nat_inverse32) linarith
  have ne: "(word_of_nat full :: u32) \<noteq> word_of_nat (length p)"
    using u [of full] u [of "length p"] len by (metis less_imp_le nat_neq_iff order_refl)
  show ?case
  proof (cases parts)
    case Nil
    then show ?thesis
      using Cons.prems(1,5) ne u [of full] by (simp add: add_part_def part_header_def Let_def fun_upd_def)
  next
    case (Cons q qs)
    have "q \<noteq> []" using Cons.prems(3) Cons by simp
    then have short: "\<not> full \<le> length (held @ p)" using Cons.prems(1) Cons by (cases q) auto
    let ?m = "m((th_is_reply h, th_id h) \<mapsto> \<lparr> pr_header = part_header h full p, pr_data = held @ p \<rparr>)"
    have a: "add_part m (part_header h full p) p = ([], ?m)"
      using Cons.prems(5) ne u [of full] short by (simp add: add_part_def part_header_def Let_def)
    have upd: "?m((th_is_reply h, th_id h) := None) = m((th_is_reply h, th_id h) := None)"
      by (rule ext) simp
    have IH: "reassemble ?m (map (\<lambda>p. (part_header h full p, p)) parts)
        = ([\<lparr> rt_header = part_header h full (last parts), rt_data = (held @ p) @ concat parts \<rparr>],
           m((th_is_reply h, th_id h) := None))"
      unfolding upd [symmetric] by (rule Cons.IH) (use Cons.prems Cons in auto)
    have "parts \<noteq> []" using Cons by simp
    then show ?thesis by (simp add: a IH del: fun_upd_apply)
  qed
qed simp

text \<open>Nothing comes out before the last part.\<close>

lemma parts_withheld:
  assumes "length held + length (concat parts) < full" and "full < 4294967296"
    and "(case m (th_is_reply h, th_id h) of Some p \<Rightarrow> pr_data p | None \<Rightarrow> []) = held"
  shows "fst (reassemble m (map (\<lambda>p. (part_header h full p, p)) parts)) = []"
  using assms
proof (induction parts arbitrary: m held)
  case (Cons p parts)
  let ?m = "m((th_is_reply h, th_id h) \<mapsto> \<lparr> pr_header = part_header h full p, pr_data = held @ p \<rparr>)"
  have u: "unat (word_of_nat n :: u32) = n" if "n \<le> full" for n
    using that Cons.prems(2) by (intro word_of_nat_inverse32) linarith
  have "length p < full" using Cons.prems(1) by simp
  then have "(word_of_nat full :: u32) \<noteq> word_of_nat (length p)"
    using u [of full] u [of "length p"] by (metis less_imp_le nat_neq_iff order_refl)
  then have "add_part m (part_header h full p) p = ([], ?m)"
    using Cons.prems u [of full] by (simp add: add_part_def part_header_def Let_def)
  moreover have "fst (reassemble ?m (map (\<lambda>p. (part_header h full p, p)) parts)) = []"
    by (rule Cons.IH [where held = "held @ p"]) (use Cons.prems in auto)
  ultimately show ?case by (simp add: split: prod.split)
qed simp

lemma parts_take_withheld:
  assumes "n < length parts" and "\<forall>p\<in>set parts. p \<noteq> []" and "length (concat parts) < 4294967296"
    and "m (th_is_reply h, th_id h) = None"
  shows "fst (reassemble m (map (\<lambda>p. (part_header h (length (concat parts)) p, p)) (take n parts))) = []"
proof (rule parts_withheld [where held = "[]"])
  have "parts = take n parts @ parts ! n # drop (Suc n) parts" using assms(1) by (rule id_take_nth_drop)
  then have "length (concat parts) = length (concat (take n parts)) + length (parts ! n) + length (concat (drop (Suc n) parts))"
    by (metis add.assoc concat.simps(2) concat_append length_append)
  moreover have "parts ! n \<noteq> []" using assms(1,2) by simp
  ultimately show "length [] + length (concat (take n parts)) < length (concat parts)"
    by (cases "parts ! n") simp_all
qed (use assms in simp_all)

lemma parts_decode:
  assumes "\<forall>p\<in>set parts. p \<noteq> [] \<and> length p < full" and "full \<le> unat M"
  shows "decodes_all M plain_decodes () (map (\<lambda>p. (encode_header (part_header h full p), p)) parts)
    (map (\<lambda>p. (part_header h full p, p)) parts) ()"
  using assms(1)
proof (induction parts)
  case (Cons p parts)
  have M: "unat M < 4294967296" by (rule unat_u32_less)
  have p: "0 < length p" "length p < full" using Cons.prems by auto
  have u: "unat (word_of_nat n :: u32) = n" if "n \<le> full" for n
    using that M assms(2) by (intro word_of_nat_inverse32) linarith
  have "(word_of_nat n :: u32) \<noteq> 0" if "0 < n" "n \<le> full" for n
    using u [OF that(2)] that(1) by (metis less_irrefl unat_0)
  then have "\<not> refused M (part_header h full p)"
    using u [of full] u [of "length p"] p assms(2)
    by (simp add: refused_def part_header_def word_less_nat_alt)
  then show ?case
    using Cons u [of "length p"] p by (simp add: frame_ok_def plain_decodes_def part_header_def)
qed simp

text \<open>C12: A transaction that arrives in parts is delivered once, when its last part is in: the
  data are the parts in order and the header is that of the last part; however the network cuts
  the bytes, and nothing else is delivered and no part stays behind.  The connection lives on,
  unless the application's callback ends it when it is handed the transaction.\<close>

theorem parts_delivered_whole:
  assumes "lawful_events ev" and "lawful_receiver ev no_crypto (\<lambda>_. ())"
    and "ready no_crypto c" and "alive c" and "cn_inbound c = []"
    and "cn_partial c (th_is_reply h, th_id h) = None"
    and "parts \<noteq> []" and "\<forall>p\<in>set parts. p \<noteq> [] \<and> length p < length (concat parts)"
    and "length (concat parts) \<le> unat (cn_max_receive_size c)"
    and "concat chunks = concat (map (\<lambda>p. encode_header (part_header h (length (concat parts)) p) @ p) parts)"
  shows "\<exists>d. serve r ev chunks c = Some d
     \<and> received (cn_callbacks d) = received (cn_callbacks c)
         @ [\<lparr> rt_header = part_header h (length (concat parts)) (last parts), rt_data = concat parts \<rparr>]
     \<and> cn_partial d = cn_partial c \<and> cn_inbound d = []
     \<and> (cn_state d \<noteq> dead \<or> owner_ends ev (received (cn_callbacks d)))"
proof -
  let ?n = "length (concat parts)"
  let ?ws = "map (\<lambda>p. (encode_header (part_header h ?n p), p)) parts"
  let ?fs = "map (\<lambda>p. (part_header h ?n p, p)) parts"
  let ?c = "feed (wire ?ws) c"
  have full: "?n < 4294967296" using assms(9) unat_u32_less [of "cn_max_receive_size c"] by linarith
  with assms(6-8) have re: "reassemble (cn_partial c) ?fs
      = ([\<lparr> rt_header = part_header h ?n (last parts), rt_data = concat parts \<rparr>], cn_partial c)"
    using reassemble_parts [of ?n "[]" parts "cn_partial c" h] by (simp add: fun_upd_idem)
  have w: "concat chunks = wire ?ws" using assms(10) by (simp add: wire_def comp_def)
  have "decodes_all (cn_max_receive_size ?c) plain_decodes () ?ws ?fs ()"
    using parts_decode [OF assms(8,9)] by simp
  moreover have "ready no_crypto ?c" "alive ?c" "cn_inbound ?c = wire ?ws"
    using assms(3-5) by (simp_all add: ready_def alive_def)
  ultimately obtain d n where d: "parse_inbound ev (role_handler r ev) ?c = Some d" and
    s: "streamed ev no_crypto (\<lambda>_. ()) ?c ?ws ?fs [] () n d"
    using receiver.stream_received [OF role_receiver [OF assms(1,2) plain_hooks_decode, of r], of ?c] by blast
  have "n = length parts"
  proof (rule ccontr)
    assume "n \<noteq> length parts"
    with s have "n < length parts" "fst (reassemble (cn_partial c) (take n ?fs)) \<noteq> []"
      by (auto simp: streamed_def)
    then show False using parts_take_withheld [of n parts "cn_partial c" h] assms(6,8) full by (simp add: take_map)
  qed
  with s re have "received (cn_callbacks d) = received (cn_callbacks c)
         @ [\<lparr> rt_header = part_header h ?n (last parts), rt_data = concat parts \<rparr>]"
    "cn_partial d = cn_partial c" "cn_inbound d = []" "cn_state d \<noteq> dead \<or> owner_ends ev (received (cn_callbacks d))"
    by (auto simp: streamed_def alive_def)
  moreover have "stage_ok (role_size r) c" using assms(3) by (simp add: ready_def stage_ok_def)
  then have "serve r ev chunks c = Some d" using serve_whole [OF assms(1)] w d by simp
  ultimately show ?thesis by blast
qed

text \<open>A message in three parts.\<close>

definition three_parts :: "bytes list" where
  "three_parts = [[1, 2], [3], [4, 5, 6]]"

definition three_parts_wire :: bytes where
  "three_parts_wire =
     concat (map (\<lambda>p. encode_header (part_header (message_header keepalive_message 0) 6 p) @ p) three_parts)"

theorem parts_delivered_whole_witness:
  "\<forall>t. \<exists>d. serve server_role listening [take 9 three_parts_wire, drop 9 three_parts_wire]
       (open_connection no_crypto t) = Some d
     \<and> cn_state d \<noteq> dead \<and> map rt_data (received (cn_callbacks d)) = [[1, 2, 3, 4, 5, 6]]"
proof
  fix t
  have parts: "length (concat three_parts) = 6" "three_parts \<noteq> []" "concat three_parts = [1, 2, 3, 4, 5, 6]"
    "\<forall>p\<in>set three_parts. p \<noteq> [] \<and> length p < 6"
    by (simp_all add: three_parts_def)
  have limit: "6 \<le> unat (cn_max_receive_size (open_connection no_crypto t))" by simp
  have w: "concat [take 9 three_parts_wire, drop 9 three_parts_wire]
      = concat (map (\<lambda>p. encode_header (part_header (message_header keepalive_message 0) 6 p) @ p) three_parts)"
    by (simp add: three_parts_wire_def)
  from parts_delivered_whole [OF listening_laws(1,2) open_connection_fields(3-5,9) parts(2),
      where r = server_role, unfolded parts(1), OF parts(4) limit w]
  show "\<exists>d. serve server_role listening [take 9 three_parts_wire, drop 9 three_parts_wire]
       (open_connection no_crypto t) = Some d
     \<and> cn_state d \<noteq> dead \<and> map rt_data (received (cn_callbacks d)) = [[1, 2, 3, 4, 5, 6]]"
    using peaceful_never_ends [OF listening_laws(3)]
    by (elim exE conjE disjE) (auto simp only: parts(3) open_connection_fields list.map
      received_transaction.simps append_Nil)
qed

end
