(* ===== verification/Keepalive_Properties.thy ===== *)
theory Keepalive_Properties
  imports Delivery_Properties
begin

text \<open>
  Transactions without data, which \<open>queue_transaction\<close> sends and the receive policy of
  \<open>parse_inbound\<close> refuses, and the keepalive, which carries the two bytes of an empty field list.
\<close>

section \<open>The keepalive\<close>

lemma keepalive_is_message: "queue_keepalive ev c = queue_message ev keepalive_message c"
proof -
  have "encode_field_list [] = Inr [0, 0]" by (simp add: encode_field_list_def write_u16be_def)
  then show ?thesis
    by (simp add: queue_keepalive_def queue_message_def keepalive_message_def)
qed

section \<open>A refused header\<close>

context receiver
begin

lemma refused_header:
  assumes "ready hooks c" and "alive c" and "cn_inbound c = wh @ later" and "length wh = 20"
    and "R (lane (cn_env c)) wh wd l' header data" and "refused (cn_max_receive_size c) header"
  shows "\<exists>d. parse_inbound ev h c = Some d \<and> cn_state d = dead \<and>
    received (cn_callbacks d) = received (cn_callbacks c)"
proof -
  from decoding assms(4,5) obtain raw flag e where
    hd: "(case cr_decode_header hooks of Some f \<Rightarrow> f wh (cn_env c) | None \<Rightarrow> (wh, 0, cn_env c)) = (raw, flag, e)"
    and raw: "decode_header raw = header"
    unfolding hooks_decode_def by blast
  let ?c = "c\<lparr> cn_inbound := later, cn_header_bytes := raw, cn_pending_flag := flag, cn_env := e,
      cn_pending_header := header \<rparr>"
  have "parse_round ev h c = Inl (mark_dead ev ?c)"
    using assms(1-4,6) hd raw by (simp add: parse_round_def ready_def alive_def transaction_header_size_def)
  then have "parse_inbound ev h c = Some (mark_dead ev ?c)" by (simp add: parse_inbound.simps [of ev h c])
  moreover have "received (cn_callbacks (mark_dead ev ?c)) = received (cn_callbacks c)"
    using keeps_mark_dead [of ?c] by (auto simp: keeps_def may_die_def)
  ultimately show ?thesis by (intro exI [of _ "mark_dead ev ?c"]) simp
qed

end

definition no_data :: "u16 \<Rightarrow> u32 \<Rightarrow> bool \<Rightarrow> u32 \<Rightarrow> outgoing" where
  "no_data kind tid is_reply error = \<lparr> om_type = kind, om_id = tid, om_data = [],
     om_is_reply = is_reply, om_error = error \<rparr>"

lemma no_data_refused: "refused M (message_header (no_data kind tid is_reply error) flag)"
  by (simp add: refused_def message_header_def no_data_def)

text \<open>Over any channel.\<close>

lemma no_data_ends_receiver:
  assumes "lawful_events sev" and "sends hooks ok lane R" and "queue_ok c" and "cn_crypto c = hooks"
    and "ok (cn_env c)" and "cn_state (queue_transaction sev kind tid [] is_reply error c) \<noteq> dead"
    and "lawful_events rcv" and "lawful_receiver rcv hooks' lane'" and "hooks_decode hooks' lane' R"
    and "ready hooks' d" and "alive d" and "cn_inbound d = []" and "lane' (cn_env d) = lane (cn_env c)"
  shows "\<exists>bs. outflow (queue_transaction sev kind tid [] is_reply error c) = outflow c @ bs \<and> length bs = 20 \<and>
    (\<forall>chunks later. concat chunks = bs @ later \<longrightarrow> (\<exists>d'. serve r rcv chunks d = Some d'
       \<and> cn_state d' = dead \<and> received (cn_callbacks d') = received (cn_callbacks d)))"
proof -
  let ?m = "no_data kind tid is_reply error"
  have m: "om_type ?m = kind" "om_id ?m = tid" "om_data ?m = []" "om_is_reply ?m = is_reply" "om_error ?m = error"
    by (simp_all add: no_data_def)
  have "\<exists>e wh wd flag. transaction_bytes (om_type ?m) (om_id ?m) (om_data ?m) (om_is_reply ?m) (om_error ?m) c = (e, wh @ wd)
        \<and> length wh = 20 \<and> length wd = length (om_data ?m) \<and> ok e
        \<and> R (lane (cn_env c)) wh wd (lane e) (message_header ?m flag) (om_data ?m)"
    using assms(2,4,5) unfolding sends_def by blast
  then obtain e wh flag where b: "transaction_bytes kind tid [] is_reply error c = (e, wh)" "length wh = 20"
    and R: "R (lane (cn_env c)) wh [] (lane e) (message_header ?m flag) []"
    unfolding m by auto
  have out: "outflow (queue_transaction sev kind tid [] is_reply error c) = outflow c @ wh"
    using application.queue_transaction_output [OF _ assms(3,6)] assms(1) b(1) by (simp add: application_def)
  have "\<exists>d'. serve r rcv chunks d = Some d' \<and> cn_state d' = dead
      \<and> received (cn_callbacks d') = received (cn_callbacks d)" if "concat chunks = wh @ later" for chunks later
  proof -
    have "stage_ok (role_size r) d" using assms(10) by (simp add: ready_def stage_ok_def)
    then have "serve r rcv chunks d = parse_inbound rcv (role_handler r rcv) (feed (wh @ later) d)"
      using serve_whole [OF assms(7)] that by simp
    then show ?thesis
      using receiver.refused_header [OF role_receiver [OF assms(7-9), of r], of "feed (wh @ later) d" wh later]
        R b(2) no_data_refused assms(10-13) by (fastforce simp: ready_def alive_def)
  qed
  with out b(2) show ?thesis by blast
qed

section \<open>Properties\<close>

text \<open>C18: A transaction without data ends the connection of its receiver.  The sender queues it like any
  other, as a header alone; the receiver, however the network cuts the bytes and whatever follows
  them, is dead after that header and has handed nothing to its application.  The keepalive does
  not: its two bytes of data are delivered as one transaction, and the receiver lives on unless
  its application's callback for the keepalive ends the connection.\<close>

theorem transaction_needs_data:
  assumes "lawful_events sev" and "closing_keeps sev (\<lambda>hs e. hs)" and "queue_ok c" and "cn_crypto c = no_crypto"
    and "lawful_events rcv" and "lawful_receiver rcv no_crypto (\<lambda>_. ())"
    and "ready no_crypto d" and "alive d" and "cn_inbound d = []" and "2 \<le> unat (cn_max_receive_size d)"
  shows "(cn_state (queue_transaction sev kind tid [] is_reply error c) \<noteq> dead \<longrightarrow>
      (\<exists>bs. outflow (queue_transaction sev kind tid [] is_reply error c) = outflow c @ bs \<and> length bs = 20 \<and>
        (\<forall>chunks later. concat chunks = bs @ later \<longrightarrow> (\<exists>d'. serve r rcv chunks d = Some d'
           \<and> cn_state d' = dead \<and> received (cn_callbacks d') = received (cn_callbacks d)))))
    \<and> (cn_state (queue_keepalive sev c) \<noteq> dead \<longrightarrow>
      (\<exists>bs. outflow (queue_keepalive sev c) = outflow c @ bs \<and>
        (\<forall>chunks. concat chunks = bs \<longrightarrow> (\<exists>d' t. serve r rcv chunks d = Some d'
           \<and> received (cn_callbacks d') = received (cn_callbacks d) @ [t] \<and> conveys keepalive_message t
           \<and> (cn_state d' \<noteq> dead \<or> owner_ends rcv (received (cn_callbacks d')))))))"
proof (intro conjI impI)
  assume "cn_state (queue_transaction sev kind tid [] is_reply error c) \<noteq> dead"
  then show "\<exists>bs. outflow (queue_transaction sev kind tid [] is_reply error c) = outflow c @ bs \<and> length bs = 20 \<and>
        (\<forall>chunks later. concat chunks = bs @ later \<longrightarrow> (\<exists>d'. serve r rcv chunks d = Some d'
           \<and> cn_state d' = dead \<and> received (cn_callbacks d') = received (cn_callbacks d)))"
    by (intro no_data_ends_receiver [OF assms(1) plain_sends assms(3,4) TrueI _ assms(5,6) plain_hooks_decode assms(7-9) refl])
next
  have keep: "closing_keeps sev (\<lambda>hs e. (hs, (), True))" using assms(2) by (simp add: closing_keeps_def)
  have small: "\<forall>m\<in>set [keepalive_message]. sendable (cn_max_receive_size d) m"
    using assms(10) by (simp add: sendable_def keepalive_message_def)
  have one: "\<exists>t. rs = [t] \<and> conveys keepalive_message t"
    if "list_all2 conveys (take (length rs) [keepalive_message]) rs"
      "A \<and> length rs = length [keepalive_message] \<or> B \<and> rs \<noteq> [] \<and> C" for rs and A B C :: bool
    using that by (cases rs) (auto simp: list_all2_Cons2)
  assume "cn_state (queue_keepalive sev c) \<noteq> dead"
  then have "cn_state (queue_all sev [keepalive_message] c) \<noteq> dead" by (simp add: keepalive_is_message)
  from delivery [where R = plain_decodes and lane = "\<lambda>_. ()" and ok = "\<lambda>_. True" and lane' = "\<lambda>_. ()" and r = r,
      OF assms(1) plain_sends keep assms(3,4) TrueI this small assms(5,6) plain_hooks_decode assms(7-9) refl]
  obtain bs where out: "outflow (queue_keepalive sev c) = outflow c @ bs" and
    all: "\<And>chunks. concat chunks = bs \<Longrightarrow> \<exists>d' rs. serve r rcv chunks d = Some d'
       \<and> received (cn_callbacks d') = received (cn_callbacks d) @ rs
       \<and> list_all2 conveys (take (length rs) [keepalive_message]) rs
       \<and> (cn_state d' \<noteq> dead \<and> length rs = length [keepalive_message]
         \<or> cn_state d' = dead \<and> rs \<noteq> [] \<and> owner_ends rcv (received (cn_callbacks d')))"
    unfolding queue_all.simps keepalive_is_message [symmetric] by blast
  have "\<exists>d' t. serve r rcv chunks d = Some d'
       \<and> received (cn_callbacks d') = received (cn_callbacks d) @ [t] \<and> conveys keepalive_message t
       \<and> (cn_state d' \<noteq> dead \<or> owner_ends rcv (received (cn_callbacks d')))" if whole: "concat chunks = bs" for chunks
  proof -
    from all [OF whole] obtain d' rs where d': "serve r rcv chunks d = Some d'"
      "received (cn_callbacks d') = received (cn_callbacks d) @ rs"
      "list_all2 conveys (take (length rs) [keepalive_message]) rs"
      "cn_state d' \<noteq> dead \<and> length rs = length [keepalive_message]
         \<or> cn_state d' = dead \<and> rs \<noteq> [] \<and> owner_ends rcv (received (cn_callbacks d'))" by blast
    from one [OF d'(3,4)] d' show ?thesis by blast
  qed
  with out show "\<exists>bs. outflow (queue_keepalive sev c) = outflow c @ bs \<and>
        (\<forall>chunks. concat chunks = bs \<longrightarrow> (\<exists>d' t. serve r rcv chunks d = Some d'
           \<and> received (cn_callbacks d') = received (cn_callbacks d) @ [t] \<and> conveys keepalive_message t
           \<and> (cn_state d' \<noteq> dead \<or> owner_ends rcv (received (cn_callbacks d')))))" by blast
qed

text \<open>A reply without fields or data, cut after seven bytes and followed by a keepalive, ends the
  connection; a keepalive, cut after seven bytes, is delivered.\<close>

theorem transaction_needs_data_witness:
  "\<forall>t. (\<exists>bs d. outflow (queue_transaction closing_events 0 9 [] True 0 (open_connection no_crypto t))
         = outflow (open_connection no_crypto t) @ bs
     \<and> serve client_role listening [take 7 bs, drop 7 bs, [0, 0]] (open_connection no_crypto t) = Some d
     \<and> cn_state d = dead \<and> received (cn_callbacks d) = [])
   \<and> (\<exists>bs d r. outflow (queue_keepalive closing_events (open_connection no_crypto t))
         = outflow (open_connection no_crypto t) @ bs
     \<and> serve client_role listening [take 7 bs, drop 7 bs] (open_connection no_crypto t) = Some d
     \<and> cn_state d \<noteq> dead \<and> received (cn_callbacks d) = [r] \<and> conveys keepalive_message r)"
proof (intro allI conjI)
  fix t
  let ?c = "open_connection no_crypto t"
  have keep: "closing_keeps closing_events (\<lambda>hs e. hs)" by (simp add: closing_keeps_def session_closing_def)
  have limit: "2 \<le> unat (cn_max_receive_size ?c)" by simp
  note both = transaction_needs_data [OF closing.lawful keep open_connection_fields(1,2) listening_laws(1,2)
      open_connection_fields(3-5) limit, where r = client_role]
  have live: "cn_state (queue_transaction closing_events 0 9 [] True 0 ?c) \<noteq> dead"
    using open_connection_queues [of closing_events 0 9 "[]" True 0 no_crypto t] by simp
  from both [THEN conjunct1, THEN mp, OF live]
  obtain bs where bs: "outflow (queue_transaction closing_events 0 9 [] True 0 ?c) = outflow ?c @ bs"
    and all: "\<And>chunks later. concat chunks = bs @ later \<Longrightarrow>
      \<exists>d. serve client_role listening chunks ?c = Some d \<and> cn_state d = dead
        \<and> received (cn_callbacks d) = received (cn_callbacks ?c)" by blast
  have "concat [take 7 bs, drop 7 bs, [0, 0]] = bs @ [0, 0]" by simp
  from all [OF this] bs show "\<exists>bs d. outflow (queue_transaction closing_events 0 9 [] True 0 ?c) = outflow ?c @ bs
     \<and> serve client_role listening [take 7 bs, drop 7 bs, [0, 0]] ?c = Some d
     \<and> cn_state d = dead \<and> received (cn_callbacks d) = []" by auto
  have live: "cn_state (queue_keepalive closing_events ?c) \<noteq> dead"
    using open_connection_sends [of closing_events no_crypto t] by (simp add: keepalive_is_message)
  from both [THEN conjunct2, THEN mp, OF live]
  obtain bs where bs: "outflow (queue_keepalive closing_events ?c) = outflow ?c @ bs"
    and all: "\<And>chunks. concat chunks = bs \<Longrightarrow> \<exists>d r. serve client_role listening chunks ?c = Some d
        \<and> received (cn_callbacks d) = received (cn_callbacks ?c) @ [r] \<and> conveys keepalive_message r
        \<and> (cn_state d \<noteq> dead \<or> owner_ends listening (received (cn_callbacks d)))" by blast
  have "concat [take 7 bs, drop 7 bs] = bs" by simp
  from all [OF this] bs peaceful_never_ends [OF listening_laws(3)]
  show "\<exists>bs d r. outflow (queue_keepalive closing_events ?c) = outflow ?c @ bs
     \<and> serve client_role listening [take 7 bs, drop 7 bs] ?c = Some d
     \<and> cn_state d \<noteq> dead \<and> received (cn_callbacks d) = [r] \<and> conveys keepalive_message r" by auto
qed

end
