(* ===== verification/Legacy_Header.thy ===== *)
theory Legacy_Header
  imports Payloads Wire_Constants
begin

text \<open>
  The historical header \<open>audit/HotlineClientServerCommon.utf8.h\<close>: the enumerations that
  \<open>hotline/protocol/constants.h\<close> reproduces and the packed records whose wire form
  \<open>hotline/protocol/payload.h\<close> keeps.  The enumerations have no names; those whose enumerators no code
  of the header uses are lists of enumerators with their values, in the order of the header.
\<close>

section \<open>Enumerations\<close>

definition legacy_transaction_ids :: "(string \<times> int) list" where
  "legacy_transaction_ids =
    [(''myTran_Error'', 100), (''myTran_GetMsgs'', 101), (''myTran_NewMsg'', 102),
     (''myTran_PostMsg'', 103), (''myTran_ServerMsg'', 104), (''myTran_ChatSend'', 105),
     (''myTran_ChatMsg'', 106), (''myTran_Login'', 107), (''myTran_SendInstantMsg'', 108),
     (''myTran_ShowAgreement'', 109), (''myTran_DisconnectUser'', 110),
     (''myTran_DisconnectMsg'', 111), (''myTran_InviteNewChat'', 112),
     (''myTran_InviteToChat'', 113), (''myTran_RejectChatInvite'', 114),
     (''myTran_JoinChat'', 115), (''myTran_LeaveChat'', 116),
     (''myTran_NotifyChatChangeUser'', 117), (''myTran_NotifyChatDeleteUser'', 118),
     (''myTran_NotifyChatSubject'', 119), (''myTran_SetChatSubject'', 120),
     (''myTran_Agreed'', 121), (''myTran_ServerBanner'', 122), (''myTran_IconChange'', 123),
     (''myTran_NickChange'', 124), (''myTran_FakeRed'', 125), (''myTran_Away'', 126),
     (''myTran_CrazyServer'', 127), (''myTran_BlockDownload'', 128), (''myTran_Visible'', 129),
     (''myTran_AdminSpector'', 130), (''myTran_StandardMessage'', 131),
     (''myTran_GetFileNameList'', 200), (''myTran_DownloadFile'', 202),
     (''myTran_UploadFile'', 203), (''myTran_DeleteFile'', 204), (''myTran_NewFolder'', 205),
     (''myTran_GetFileInfo'', 206), (''myTran_SetFileInfo'', 207), (''myTran_MoveFile'', 208),
     (''myTran_MakeFileAlias'', 209), (''myTran_DownloadFldr'', 210),
     (''myTran_DownloadInfo'', 211), (''myTran_DownloadBanner'', 212),
     (''myTran_UploadFldr'', 213), (''myTran_KillDownload'', 214),
     (''myTran_GetUserNameList'', 300), (''myTran_NotifyChangeUser'', 301),
     (''myTran_NotifyDeleteUser'', 302), (''myTran_GetClientInfoText'', 303),
     (''myTran_SetClientUserInfo'', 304), (''myTran_GetUserList'', 348),
     (''myTran_SetUserList'', 349), (''myTran_NewUser'', 350), (''myTran_DeleteUser'', 351),
     (''myTran_GetUser'', 352), (''myTran_SetUser'', 353), (''myTran_UserAccess'', 354),
     (''myTran_UserBroadcast'', 355), (''myTran_GetNewsCatNameList'', 370),
     (''myTran_GetNewsArtNameList'', 371), (''myTran_DelNewsItem'', 380),
     (''myTran_NewNewsFldr'', 381), (''myTran_NewNewsCat'', 382), (''myTran_GetNewsArtData'', 400),
     (''myTran_PostNewsArt'', 410), (''myTran_DelNewsArt'', 411),
     (''myTran_KeepConnectionAlive'', 500)]"

definition legacy_field_ids :: "(string \<times> int) list" where
  "legacy_field_ids =
    [(''myField_SessionKey'', 3587), (''myField_MacAlg'', 3588), (''myField_S_CipherAlg'', 0x0ec1),
     (''myField_C_CipherAlg'', 0x0ec2), (''myField_ErrorText'', 100), (''myField_Data'', 101),
     (''myField_UserName'', 102), (''myField_UserID'', 103), (''myField_UserIconID'', 104),
     (''myField_UserLogin'', 105), (''myField_UserPassword'', 106), (''myField_RefNum'', 107),
     (''myField_TransferSize'', 108), (''myField_ChatOptions'', 109),
     (''myField_UserAccess'', 110), (''myField_UserAlias'', 111), (''myField_UserFlags'', 112),
     (''myField_Options'', 113), (''myField_ChatID'', 114), (''myField_ChatSubject'', 115),
     (''myField_WaitingCount'', 116), (''myField_IconId'', 117), (''myField_NickName'', 118),
     (''myField_FakeRed'', 119), (''myField_Away'', 120), (''myField_BlockDownload'', 121),
     (''myField_Visible'', 112), (''myField_AdminSpector'', 122),
     (''myField_StandardMessage'', 123), (''myField_number'', 114),
     (''myField_ServerAgreement'', 150), (''myField_ServerBanner'', 151),
     (''myField_ServerBannerType'', 152), (''myField_ServerBannerUrl'', 153),
     (''myField_NoServerAgreement'', 154), (''myField_Vers'', 160),
     (''myField_CommunityBannerID'', 161), (''myField_ServerName'', 162),
     (''myField_FileNameWithInfo'', 200), (''myField_FileName'', 201), (''myField_FilePath'', 202),
     (''myField_FileResumeData'', 203), (''myField_FileXferOptions'', 204),
     (''myField_FileTypeString'', 205), (''myField_FileCreatorString'', 206),
     (''myField_FileSize'', 207), (''myField_FileCreateDate'', 208),
     (''myField_FileModifyDate'', 209), (''myField_FileComment'', 210),
     (''myField_FileNewName'', 211), (''myField_FileNewPath'', 212), (''myField_FileType'', 213),
     (''myField_QuotingMsg'', 214), (''myField_AutomaticResponse'', 215),
     (''myField_FldrItemCount'', 220), (''myField_UserNameWithInfo'', 300),
     (''myField_NewsCatGUID'', 319), (''myField_NewsCatListData'', 320),
     (''myField_NewsArtListData'', 321), (''myField_NewsCatName'', 322),
     (''myField_NewsCatListData15'', 323), (''myField_NewsPath'', 325),
     (''myField_NewsArtID'', 326), (''myField_NewsArtDataFlav'', 327),
     (''myField_NewsArtTitle'', 328), (''myField_NewsArtPoster'', 329),
     (''myField_NewsArtDate'', 330), (''myField_NewsArtPrevArt'', 331),
     (''myField_NewsArtNextArt'', 332), (''myField_NewsArtData'', 333),
     (''myField_NewsArtFlags'', 334), (''myField_NewsArtParentArt'', 335),
     (''myField_NewsArt1stChildArt'', 336), (''myField_NewsArtRecurseDel'', 337)]"

datatype (plugins only: size) AccessPriv =
    myAcc_DeleteFile | myAcc_UploadFile | myAcc_DownloadFile | myAcc_RenameFile
  | myAcc_MoveFile | myAcc_CreateFolder | myAcc_DeleteFolder | myAcc_RenameFolder
  | myAcc_MoveFolder | myAcc_ReadChat | myAcc_SendChat | myAcc_CreateChat | myAcc_CloseChat
  | myAcc_ShowInList | myAcc_CreateUser | myAcc_DeleteUser | myAcc_OpenUser | myAcc_ModifyUser
  | myAcc_ChangeOwnPass | myAcc_SendPrivMsg | myAcc_NewsReadArt | myAcc_NewsPostArt
  | myAcc_DisconUser | myAcc_CannotBeDiscon | myAcc_GetClientInfo | myAcc_UploadAnywhere
  | myAcc_AnyName | myAcc_NoAgreement | myAcc_SetFileComment | myAcc_SetFolderComment
  | myAcc_ViewDropBoxes | myAcc_MakeAlias | myAcc_Broadcast | myAcc_NewsDeleteArt
  | myAcc_NewsCreateCat | myAcc_NewsDeleteCat | myAcc_NewsCreateFldr | myAcc_NewsDeleteFldr
  | myAcc_UploadFolder | myAcc_DownloadFolder | myAcc_SendMessage | myAcc_FakeRed | myAcc_Away
  | myAcc_ChangeNick | myAcc_ChangeIcon | myAcc_SpeakBefore | myAcc_RefuseChat
  | myAcc_BlockDownload | myAcc_Visible | myAcc_Canviewinvisible | myAcc_Canflood
  | myAcc_ViewOwnDropBox | myAcc_DontQueue | myAcc_AdmInSpector | myAcc_PostBefore

primrec access_priv_value :: "AccessPriv \<Rightarrow> u32" where
  "access_priv_value myAcc_DeleteFile = 0"
| "access_priv_value myAcc_UploadFile = 1"
| "access_priv_value myAcc_DownloadFile = 2"
| "access_priv_value myAcc_RenameFile = 3"
| "access_priv_value myAcc_MoveFile = 4"
| "access_priv_value myAcc_CreateFolder = 5"
| "access_priv_value myAcc_DeleteFolder = 6"
| "access_priv_value myAcc_RenameFolder = 7"
| "access_priv_value myAcc_MoveFolder = 8"
| "access_priv_value myAcc_ReadChat = 9"
| "access_priv_value myAcc_SendChat = 10"
| "access_priv_value myAcc_CreateChat = 11"
| "access_priv_value myAcc_CloseChat = 12"
| "access_priv_value myAcc_ShowInList = 13"
| "access_priv_value myAcc_CreateUser = 14"
| "access_priv_value myAcc_DeleteUser = 15"
| "access_priv_value myAcc_OpenUser = 16"
| "access_priv_value myAcc_ModifyUser = 17"
| "access_priv_value myAcc_ChangeOwnPass = 18"
| "access_priv_value myAcc_SendPrivMsg = 19"
| "access_priv_value myAcc_NewsReadArt = 20"
| "access_priv_value myAcc_NewsPostArt = 21"
| "access_priv_value myAcc_DisconUser = 22"
| "access_priv_value myAcc_CannotBeDiscon = 23"
| "access_priv_value myAcc_GetClientInfo = 24"
| "access_priv_value myAcc_UploadAnywhere = 25"
| "access_priv_value myAcc_AnyName = 26"
| "access_priv_value myAcc_NoAgreement = 27"
| "access_priv_value myAcc_SetFileComment = 28"
| "access_priv_value myAcc_SetFolderComment = 29"
| "access_priv_value myAcc_ViewDropBoxes = 30"
| "access_priv_value myAcc_MakeAlias = 31"
| "access_priv_value myAcc_Broadcast = 32"
| "access_priv_value myAcc_NewsDeleteArt = 33"
| "access_priv_value myAcc_NewsCreateCat = 34"
| "access_priv_value myAcc_NewsDeleteCat = 35"
| "access_priv_value myAcc_NewsCreateFldr = 36"
| "access_priv_value myAcc_NewsDeleteFldr = 37"
| "access_priv_value myAcc_UploadFolder = 38"
| "access_priv_value myAcc_DownloadFolder = 39"
| "access_priv_value myAcc_SendMessage = 40"
| "access_priv_value myAcc_FakeRed = 41"
| "access_priv_value myAcc_Away = 42"
| "access_priv_value myAcc_ChangeNick = 43"
| "access_priv_value myAcc_ChangeIcon = 44"
| "access_priv_value myAcc_SpeakBefore = 45"
| "access_priv_value myAcc_RefuseChat = 46"
| "access_priv_value myAcc_BlockDownload = 47"
| "access_priv_value myAcc_Visible = 48"
| "access_priv_value myAcc_Canviewinvisible = 49"
| "access_priv_value myAcc_Canflood = 50"
| "access_priv_value myAcc_ViewOwnDropBox = 51"
| "access_priv_value myAcc_DontQueue = 52"
| "access_priv_value myAcc_AdmInSpector = 53"
| "access_priv_value myAcc_PostBefore = 54"

definition legacy_user_options :: "(string \<times> int) list" where
  "legacy_user_options =
    [(''myOpt_UserMessage'', 1), (''myOpt_RefuseMessage'', 2), (''myOpt_RefuseChat'', 3),
     (''myOpt_AutomaticResponse'', 4)]"

definition legacy_folder_actions :: "(string \<times> int) list" where
  "legacy_folder_actions =
    [(''dlFldrAction_SendFile'', 1), (''dlFldrAction_ResumeFile'', 2),
     (''dlFldrAction_NextFile'', 3)]"

definition kMyUserDataFileVersion :: int where "kMyUserDataFileVersion = 1"

section \<open>Access rights\<close>

text \<open>\<open>SMyUserAccess\<close> is two 32-bit words; the bit functions of \<open>UMemory\<close> take their eight
  bytes in memory order, so the bytes are the state.  Its bit functions are those of the framework
  (\<^const>\<open>get_bit\<close>, \<^const>\<open>set_bit_to\<close>).\<close>

record user_access =
  ua_data :: bytes

definition access_clear :: "user_access \<Rightarrow> user_access" where
  "access_clear a = a\<lparr> ua_data := replicate 8 0 \<rparr>"

definition access_fill :: "user_access \<Rightarrow> user_access" where
  "access_fill a = a\<lparr> ua_data := replicate 8 0xFF \<rparr>"

definition set_priv :: "u32 \<Rightarrow> bool \<Rightarrow> user_access \<Rightarrow> user_access option" where
  "set_priv priv allow a = map_option (\<lambda>d. a\<lparr> ua_data := d \<rparr>) (set_bit_to (ua_data a) priv allow)"

definition has_priv :: "u32 \<Rightarrow> user_access \<Rightarrow> bool option" where
  "has_priv priv a = get_bit (ua_data a) priv"

definition has_no_priv :: "user_access \<Rightarrow> bool" where
  "has_no_priv a \<longleftrightarrow> take 4 (ua_data a) = replicate 4 0 \<and> drop 4 (ua_data a) = replicate 4 0"

text \<open>The long conjunction and the long sequence, in their order.\<close>

definition has_all_privs :: "AccessPriv list" where
  "has_all_privs =
    [myAcc_DownloadFile, myAcc_DownloadFolder, myAcc_SpeakBefore, myAcc_PostBefore,
     myAcc_UploadFile, myAcc_UploadFolder, myAcc_UploadAnywhere, myAcc_DeleteFile,
     myAcc_RenameFile, myAcc_MoveFile, myAcc_SetFileComment, myAcc_CreateFolder,
     myAcc_DeleteFolder, myAcc_RenameFolder, myAcc_MoveFolder, myAcc_SetFolderComment,
     myAcc_ViewDropBoxes, myAcc_MakeAlias, myAcc_CreateUser, myAcc_DeleteUser, myAcc_OpenUser,
     myAcc_ModifyUser, myAcc_GetClientInfo, myAcc_AdmInSpector, myAcc_DisconUser,
     myAcc_CannotBeDiscon, myAcc_SendMessage, myAcc_Broadcast, myAcc_NewsReadArt,
     myAcc_NewsPostArt, myAcc_NewsDeleteArt, myAcc_NewsCreateCat, myAcc_NewsDeleteCat,
     myAcc_NewsCreateFldr, myAcc_FakeRed, myAcc_RefuseChat, myAcc_Canviewinvisible, myAcc_Canflood,
     myAcc_Visible, myAcc_BlockDownload, myAcc_Away, myAcc_ChangeNick, myAcc_ChangeIcon,
     myAcc_NewsDeleteFldr, myAcc_CreateChat, myAcc_ViewOwnDropBox, myAcc_DontQueue, myAcc_ReadChat,
     myAcc_SendChat, myAcc_AnyName]"

definition set_all_privs :: "AccessPriv list" where
  "set_all_privs =
    [myAcc_DownloadFile, myAcc_DownloadFolder, myAcc_UploadFile, myAcc_SpeakBefore,
     myAcc_PostBefore, myAcc_UploadFolder, myAcc_UploadAnywhere, myAcc_DeleteFile,
     myAcc_RenameFile, myAcc_MoveFile, myAcc_SetFileComment, myAcc_CreateFolder,
     myAcc_DeleteFolder, myAcc_RenameFolder, myAcc_MoveFolder, myAcc_SetFolderComment,
     myAcc_ViewDropBoxes, myAcc_MakeAlias, myAcc_CreateUser, myAcc_DeleteUser, myAcc_OpenUser,
     myAcc_ModifyUser, myAcc_GetClientInfo, myAcc_AdmInSpector, myAcc_DisconUser,
     myAcc_CannotBeDiscon, myAcc_SendMessage, myAcc_Broadcast, myAcc_NewsReadArt,
     myAcc_NewsPostArt, myAcc_NewsDeleteArt, myAcc_NewsCreateCat, myAcc_NewsDeleteCat,
     myAcc_NewsCreateFldr, myAcc_FakeRed, myAcc_RefuseChat, myAcc_Canviewinvisible, myAcc_Canflood,
     myAcc_Visible, myAcc_BlockDownload, myAcc_Away, myAcc_ChangeNick, myAcc_ChangeIcon,
     myAcc_NewsDeleteFldr, myAcc_CreateChat, myAcc_DontQueue, myAcc_ViewOwnDropBox, myAcc_ReadChat,
     myAcc_SendChat, myAcc_AnyName]"

fun has_privs :: "AccessPriv list \<Rightarrow> user_access \<Rightarrow> bool option" where
  "has_privs [] a = Some True"
| "has_privs (p # ps) a = do {
     b \<leftarrow> has_priv (access_priv_value p) a;
     if b then has_privs ps a else Some False }"

fun set_privs :: "AccessPriv list \<Rightarrow> user_access \<Rightarrow> user_access option" where
  "set_privs [] a = Some a"
| "set_privs (p # ps) a = do {
     b \<leftarrow> set_priv (access_priv_value p) True a;
     set_privs ps b }"

definition has_all_priv :: "user_access \<Rightarrow> bool option" where
  "has_all_priv a = has_privs has_all_privs a"

definition set_all_priv :: "user_access \<Rightarrow> user_access option" where
  "set_all_priv a = set_privs set_all_privs (access_clear a)"

definition access_eq :: "user_access \<Rightarrow> user_access \<Rightarrow> bool" where
  "access_eq a b \<longleftrightarrow> take 4 (ua_data a) = take 4 (ua_data b) \<and> drop 4 (ua_data a) = drop 4 (ua_data b)"

definition access_neq :: "user_access \<Rightarrow> user_access \<Rightarrow> bool" where
  "access_neq a b \<longleftrightarrow> take 4 (ua_data a) \<noteq> take 4 (ua_data b) \<or> drop 4 (ua_data a) \<noteq> drop 4 (ua_data b)"

section \<open>Packed layouts\<close>

text \<open>Members with their sizes in bytes, without padding.\<close>

definition file_info_layout :: "(string \<times> nat) list" where
  "file_info_layout = [(''type'', 4), (''creator'', 4), (''fileSize'', 4), (''rsvd'', 4),
     (''nameScript'', 2), (''nameSize'', 2)]"

definition user_data_file_layout :: "(string \<times> nat) list" where
  "user_data_file_layout = [(''version'', 2), (''iconID'', 2), (''access'', 8),
     (''maxSimulDownloads'', 2), (''rsvd'', 512), (''nameScript'', 2), (''nameSize'', 2),
     (''nameData'', 64), (''aliasScript'', 2), (''aliasSize'', 2), (''aliasData'', 64),
     (''loginScript'', 2), (''loginSize'', 2), (''loginData'', 32), (''passwordScript'', 2),
     (''passwordSize'', 2), (''passwordData'', 32)]"

definition layout_size :: "(string \<times> nat) list \<Rightarrow> nat" where
  "layout_size l = sum_list (map snd l)"

section \<open>Lemmas\<close>

definition all_field_ids :: "FieldId list" where
  "all_field_ids =
    [F_SessionKey, F_MacAlg, F_ServerCipherAlg, F_ClientCipherAlg, F_ErrorText, F_Data, F_UserName,
     F_UserId, F_UserIconId, F_UserLogin, F_UserPassword, F_RefNum, F_TransferSize, F_ChatOptions,
     F_UserAccess, F_UserAlias, F_UserFlags, F_Options, F_ChatId, F_ChatSubject, F_WaitingCount,
     F_IconId, F_NickName, F_FakeRed, F_Away, F_BlockDownload, F_Visible, F_AdminSpector,
     F_StandardMessage, F_Number, F_ServerAgreement, F_ServerBanner, F_ServerBannerType,
     F_ServerBannerUrl, F_NoServerAgreement, F_Vers, F_CommunityBannerId, F_ServerName,
     F_FileNameWithInfo, F_FileName, F_FilePath, F_FileResumeData, F_FileXferOptions,
     F_FileTypeString, F_FileCreatorString, F_FileSize, F_FileCreateDate, F_FileModifyDate,
     F_FileComment, F_FileNewName, F_FileNewPath, F_FileType, F_QuotingMsg, F_AutomaticResponse,
     F_FldrItemCount, F_UserNameWithInfo, F_NewsCategoryGuid, F_NewsCatListData, F_NewsArtListData,
     F_NewsCatName, F_NewsCatListData15, F_NewsPath, F_NewsArtId, F_NewsArtDataFlav,
     F_NewsArtTitle, F_NewsArtPoster, F_NewsArtDate, F_NewsArtPrevArt, F_NewsArtNextArt,
     F_NewsArtData, F_NewsArtFlags, F_NewsArtParentArt, F_NewsArt1stChildArt, F_NewsArtRecurseDel]"

lemma all_field_ids_complete: "x \<in> set all_field_ids"
  by (cases x) (simp_all add: all_field_ids_def)

lemma layout_sizes:
  "layout_size file_info_layout = kFileInfoHeaderSize" "layout_size user_data_file_layout = 734"
  by (simp_all add: layout_size_def file_info_layout_def user_data_file_layout_def kFileInfoHeaderSize_def)

lemma transaction_ids_verbatim:
  "map snd legacy_transaction_ids = map (uint \<circ> transaction_type_value) all_transaction_types"
  by (simp add: legacy_transaction_ids_def all_transaction_types_def)

lemma field_ids_verbatim: "map snd legacy_field_ids = map (uint \<circ> field_id_value) all_field_ids"
  by (simp add: legacy_field_ids_def all_field_ids_def)

definition all_access_privs :: "AccessPriv list" where
  "all_access_privs =
    [myAcc_DeleteFile, myAcc_UploadFile, myAcc_DownloadFile, myAcc_RenameFile, myAcc_MoveFile,
     myAcc_CreateFolder, myAcc_DeleteFolder, myAcc_RenameFolder, myAcc_MoveFolder, myAcc_ReadChat,
     myAcc_SendChat, myAcc_CreateChat, myAcc_CloseChat, myAcc_ShowInList, myAcc_CreateUser,
     myAcc_DeleteUser, myAcc_OpenUser, myAcc_ModifyUser, myAcc_ChangeOwnPass, myAcc_SendPrivMsg,
     myAcc_NewsReadArt, myAcc_NewsPostArt, myAcc_DisconUser, myAcc_CannotBeDiscon,
     myAcc_GetClientInfo, myAcc_UploadAnywhere, myAcc_AnyName, myAcc_NoAgreement,
     myAcc_SetFileComment, myAcc_SetFolderComment, myAcc_ViewDropBoxes, myAcc_MakeAlias,
     myAcc_Broadcast, myAcc_NewsDeleteArt, myAcc_NewsCreateCat, myAcc_NewsDeleteCat,
     myAcc_NewsCreateFldr, myAcc_NewsDeleteFldr, myAcc_UploadFolder, myAcc_DownloadFolder,
     myAcc_SendMessage, myAcc_FakeRed, myAcc_Away, myAcc_ChangeNick, myAcc_ChangeIcon,
     myAcc_SpeakBefore, myAcc_RefuseChat, myAcc_BlockDownload, myAcc_Visible,
     myAcc_Canviewinvisible, myAcc_Canflood, myAcc_ViewOwnDropBox, myAcc_DontQueue,
     myAcc_AdmInSpector, myAcc_PostBefore]"

lemma all_access_privs_complete: "p \<in> set all_access_privs"
  by (cases p) (simp_all add: all_access_privs_def)

lemma privileges_verbatim: "map access_priv_value all_access_privs = map (ucast \<circ> privilege_value) all_privileges"
  by (simp add: all_access_privs_def all_privileges_def)

text \<open>The privileges the two lists name, and the five they do not.\<close>

definition special_privs :: "AccessPriv set" where
  "special_privs = {myAcc_CloseChat, myAcc_ShowInList, myAcc_ChangeOwnPass, myAcc_SendPrivMsg,
     myAcc_NoAgreement}"

lemma set_has_all_privs: "set has_all_privs = - special_privs"
proof (intro set_eqI)
  show "p \<in> set has_all_privs \<longleftrightarrow> p \<in> - special_privs" for p
    by (cases p) (simp_all add: has_all_privs_def special_privs_def)
qed

lemma set_set_all_privs: "set set_all_privs = - special_privs"
proof (intro set_eqI)
  show "p \<in> set set_all_privs \<longleftrightarrow> p \<in> - special_privs" for p
    by (cases p) (simp_all add: set_all_privs_def special_privs_def)
qed

text \<open>The privilege of the modern enumeration with the same number.\<close>

definition modern_priv :: "AccessPriv \<Rightarrow> AccessPrivilege" where
  "modern_priv p = all_privileges ! unat (access_priv_value p)"

lemma modern_priv_value: "ucast (privilege_value (modern_priv p)) = access_priv_value p"
  by (cases p) (simp_all add: modern_priv_def all_privileges_def)

lemma unat_access_priv: "unat (access_priv_value p) = unat (privilege_value (modern_priv p))"
  unfolding modern_priv_value [symmetric] by (simp add: unat_privilege)

lemma range_modern_priv: "range modern_priv = UNIV"
proof -
  have "map modern_priv all_access_privs = all_privileges"
    by (simp add: modern_priv_def all_access_privs_def all_privileges_def)
  then have "set all_privileges \<subseteq> range modern_priv" by (metis image_set image_mono top_greatest)
  then show ?thesis using all_privileges_complete by blast
qed

lemma inj_modern_priv: "inj modern_priv"
proof (rule injI)
  fix p q assume "modern_priv p = modern_priv q"
  then have "access_priv_value p = access_priv_value q" by (metis modern_priv_value)
  moreover have "distinct (map access_priv_value all_access_privs)" by (simp add: all_access_privs_def)
  ultimately show "p = q" using all_access_privs_complete by (auto simp: distinct_map dest: inj_onD)
qed

text \<open>The access rights as a mask.\<close>

definition access_mask_of :: "user_access \<Rightarrow> access_mask" where
  "access_mask_of a = decode_access_mask (ua_data a)"

lemma has_priv_mask:
  assumes "length (ua_data a) = 8"
  shows "has_priv (access_priv_value p) a = Some (mask_has (access_mask_of a) (modern_priv p))"
  using get_bit_view [of "access_priv_value p" "ua_data a"] assms privilege_value_less [of "modern_priv p"]
  by (simp add: has_priv_def access_mask_of_def mask_has_msb_bit unat_access_priv)

lemma has_privs_mask:
  "length (ua_data a) = 8 \<Longrightarrow> has_privs ps a = Some (\<forall>p\<in>set ps. mask_has (access_mask_of a) (modern_priv p))"
  by (induction ps) (simp_all add: has_priv_mask)

lemma mask_bits_eqI:
  "(\<And>n. n < 64 \<Longrightarrow> bit (am_bits m) n = bit (am_bits m') n) \<Longrightarrow> m = (m' :: access_mask)"
  by (rule access_mask.equality) (auto intro: bit_word_eqI)

lemma set_bit_to_view:
  assumes "unat i < 8 * length data"
  shows "\<exists>d. set_bit_to data i v = Some d \<and> length d = length data \<and> bit_view d = (bit_view data)[unat i := v]"
proof -
  have "map_option bit_view (set_bit_to data i v) = Some ((bit_view data)[unat i := v])"
    using set_bit_view [OF assms] clear_bit_view [OF assms] by (simp add: set_bit_to_def)
  then obtain d where d: "set_bit_to data i v = Some d" "bit_view d = (bit_view data)[unat i := v]"
    by (cases "set_bit_to data i v") auto
  moreover have "length d = length data"
    using arg_cong [OF d(2), of length] by simp
  ultimately show ?thesis by blast
qed

lemma set_priv_mask:
  assumes "length (ua_data a) = 8"
  obtains b where "set_priv (access_priv_value p) v a = Some b" "length (ua_data b) = 8"
    "access_mask_of b = mask_set (access_mask_of a) (modern_priv p) v"
proof -
  let ?i = "unat (access_priv_value p)"
  have i: "?i < 55" using privilege_value_less [of "modern_priv p"] by (simp add: unat_access_priv)
  obtain d where d: "set_bit_to (ua_data a) (access_priv_value p) v = Some d" "length d = 8"
    "bit_view d = (bit_view (ua_data a))[?i := v]"
    using set_bit_to_view [of "access_priv_value p" "ua_data a" v] assms i by auto
  have "msb_bit d j = (if j = ?i then v else msb_bit (ua_data a) j)" if "j < 64" for j
    using arg_cong [OF d(3), of "\<lambda>l. l ! j"] that assms d(2) i by (simp add: nth_list_update)
  then have "decode_access_mask d = mask_set (access_mask_of a) (modern_priv p) v"
    using i assms d(2)
    by (intro mask_bits_eqI)
      (auto simp: bit_decoded_mask access_mask_of_def mask_set_def mask_shift_alt bit_simps
        simp flip: unat_access_priv)
  then show ?thesis using that [of "a\<lparr> ua_data := d \<rparr>"] d by (simp add: set_priv_def access_mask_of_def)
qed

lemma set_privs_mask:
  assumes "length (ua_data a) = 8"
  shows "\<exists>b. set_privs ps a = Some b \<and> length (ua_data b) = 8 \<and>
    (\<forall>q. mask_has (access_mask_of b) q \<longleftrightarrow> q \<in> modern_priv ` set ps \<or> mask_has (access_mask_of a) q)"
  using assms
proof (induction ps arbitrary: a)
  case (Cons p ps)
  obtain b where b: "set_priv (access_priv_value p) True a = Some b" "length (ua_data b) = 8"
    "access_mask_of b = mask_set (access_mask_of a) (modern_priv p) True"
    by (rule set_priv_mask [OF Cons.prems])
  then show ?case using Cons.IH [OF b(2)] by auto
qed simp

lemma access_clear_none: "\<not> mask_has (access_mask_of (access_clear a)) q"
proof -
  have "decode_access_mask (replicate 8 0) = mask_new"
    by (simp add: decode_access_mask_def mask_new_def read_u64be_def read_u32be_def numeral_eq_Suc)
  then show ?thesis by (simp add: access_mask_of_def access_clear_def)
qed

text \<open>What \<open>SetAllPriv\<close> writes.  The record of a seeded administrator documented in
  \<open>audit/05-tracker-utils.md\<close> is this and the right to skip the agreement.\<close>

lemma set_all_bytes:
  "set_all_priv a = Some (a\<lparr> ua_data := [0xFF, 0xF3, 0xCF, 0xEF, 0xFF, 0xFF, 0xFE, 0] \<rparr>)"
proof -
  have zeros: "replicate 8 (0 :: byte) = [0, 0, 0, 0, 0, 0, 0, 0]" by (simp add: numeral_eq_Suc)
  show ?thesis
    by (simp add: set_all_priv_def set_all_privs_def set_priv_def set_bit_to_def set_bit_at_def
        access_clear_def span_simps zeros)
qed

lemma seeded_administrator:
  "set_priv (access_priv_value myAcc_NoAgreement) True
     (a\<lparr> ua_data := [0xFF, 0xF3, 0xCF, 0xEF, 0xFF, 0xFF, 0xFE, 0] \<rparr>)
   = Some (a\<lparr> ua_data := [0xFF, 0xF3, 0xCF, 0xFF, 0xFF, 0xFF, 0xFE, 0] \<rparr>)"
  by (simp add: set_priv_def set_bit_to_def set_bit_at_def span_simps)

section \<open>Properties\<close>

text \<open>The tables of the modern protocol are those of the historical header, entry for entry: every
  transaction, field, option, folder action and privilege has the number it had, none is missing and
  none was added.\<close>

theorem legacy_tables_verbatim:
  "map snd legacy_transaction_ids = map (uint \<circ> transaction_type_value) all_transaction_types \<and>
   set all_transaction_types = UNIV \<and>
   map snd legacy_field_ids = map (uint \<circ> field_id_value) all_field_ids \<and> set all_field_ids = UNIV \<and>
   map access_priv_value all_access_privs = map (ucast \<circ> privilege_value) all_privileges \<and>
   set all_access_privs = UNIV \<and> set all_privileges = UNIV \<and>
   map snd legacy_user_options = map (uint \<circ> user_option_value)
     [UO_UserMessage, UO_RefuseMessage, UO_RefuseChat, UO_AutomaticResponse] \<and>
   map snd legacy_folder_actions = map (uint \<circ> folder_action_value) [FD_SendFile, FD_ResumeFile, FD_NextFile]"
  using transaction_ids_verbatim field_ids_verbatim privileges_verbatim all_transaction_types_complete
    all_field_ids_complete all_access_privs_complete all_privileges_complete
  by (auto simp: legacy_user_options_def legacy_folder_actions_def)

text \<open>C23: The access rights of the historical program and the modern mask are the same set: both read
  the same eight bytes, reading and writing a right agree, and \<open>HasAllPriv\<close> asks for, and
  \<open>SetAllPriv\<close> gives, every right but five: besides the skipped agreement, closing a chat, being
  listed, changing one's password and sending private messages.\<close>

theorem legacy_access_compatible:
  assumes "length (ua_data a) = 8"
  shows "has_priv (access_priv_value p) a = Some (mask_has (access_mask_of a) (modern_priv p))
    \<and> map_option access_mask_of (set_priv (access_priv_value p) v a)
        = Some (mask_set (access_mask_of a) (modern_priv p) v)
    \<and> has_all_priv a = Some (\<forall>q. q \<in> special_privs \<or> mask_has (access_mask_of a) (modern_priv q))
    \<and> (\<exists>b. set_all_priv a = Some b \<and> (\<forall>q. mask_has (access_mask_of b) (modern_priv q) \<longleftrightarrow> q \<notin> special_privs))"
proof -
  obtain b where "set_priv (access_priv_value p) v a = Some b"
    "access_mask_of b = mask_set (access_mask_of a) (modern_priv p) v"
    by (rule set_priv_mask [OF assms])
  moreover have "has_all_priv a = Some (\<forall>q. q \<in> special_privs \<or> mask_has (access_mask_of a) (modern_priv q))"
    unfolding has_all_priv_def has_privs_mask [OF assms] set_has_all_privs by blast
  moreover obtain c where c: "set_all_priv a = Some c"
    "\<And>q. mask_has (access_mask_of c) q \<longleftrightarrow> q \<in> modern_priv ` (- special_privs) \<or> mask_has (access_mask_of (access_clear a)) q"
    using set_privs_mask [of "access_clear a" set_all_privs]
    by (auto simp: set_all_priv_def access_clear_def set_set_all_privs)
  have "mask_has (access_mask_of c) (modern_priv q) \<longleftrightarrow> q \<notin> special_privs" for q
    using c(2) [of "modern_priv q"] inj_modern_priv [THEN injD] access_clear_none by blast
  ultimately show ?thesis using has_priv_mask [OF assms] c(1) by auto
qed

theorem legacy_access_compatible_witness:
  "has_priv (access_priv_value myAcc_ReadChat) \<lparr> ua_data = [0, 0x40, 0, 0, 0, 0, 0, 0] \<rparr>
     = Some (mask_has (access_mask_of \<lparr> ua_data = [0, 0x40, 0, 0, 0, 0, 0, 0] \<rparr>) (modern_priv myAcc_ReadChat))"
  using legacy_access_compatible [of "\<lparr> ua_data = [0, 0x40, 0, 0, 0, 0, 0, 0] \<rparr>" myAcc_ReadChat] by simp

end
