(* ===== verification/Login_Properties.thy ===== *)
theory Login_Properties
  imports Connection_Properties
begin

text \<open>
  What a login session grants, by itself and behind a server connection.
\<close>

section \<open>A guest\<close>

definition guest :: user_record where
  "guest = \<lparr> ur_name = ''Guest'', ur_password = [144, 136], ur_access = mask_new \<rparr>"

definition guest_config :: session_config where
  "guest_config = \<lparr> sg_server_name = ''slop'', sg_server_version = 197, sg_community_banner_id = 0,
     sg_lookup_user = Some (\<lambda>login. if login = ''guest'' then Inr guest else Inl unknown_user),
     sg_incorrect_login_message = ''Incorrect login.'' \<rparr>"

definition guest_fields :: field_list where
  "guest_fields = [\<lparr> field_id = 105, field_bytes = scramble [71, 85, 101, 115, 116] \<rparr>,
     \<lparr> field_id = 106, field_bytes = [144, 136] \<rparr>]"

definition guest_login :: received_transaction where
  "guest_login =
     (let data = write_u16be 2 @ concat (map emit_field guest_fields)
      in \<lparr> rt_header = message_header \<lparr> om_type = 107, om_id = 1, om_data = data, om_is_reply = False,
             om_error = 0 \<rparr> 0, rt_data = data \<rparr>)"

definition guest_agreed :: received_transaction where
  "guest_agreed = \<lparr> rt_header = message_header \<lparr> om_type = 121, om_id = 2, om_data = [0, 0],
     om_is_reply = False, om_error = 0 \<rparr> 0, rt_data = [0, 0] \<rparr>"

lemma guest_verified: "verified guest_config guest_login ''guest'' guest"
proof -
  have "fields_ok guest_fields \<and> encode_field_list guest_fields = Inr (rt_data guest_login)"
    by (simp add: fields_ok_def field_ok_def guest_fields_def encode_field_list_cases scramble_def
        guest_login_def Let_def)
  then have d: "decode_field_list (rt_data guest_login) = Some (Inr guest_fields)"
    using flist.accepts_iff by blast
  have f: "find_field guest_fields (field_id_value F_UserLogin) = Some \<lparr> field_id = 105,
      field_bytes = scramble [71, 85, 101, 115, 116] \<rparr>"
    "find_field guest_fields (field_id_value F_UserPassword) = Some \<lparr> field_id = 106, field_bytes = [144, 136] \<rparr>"
    by (simp_all add: guest_fields_def)
  have n: "''guest'' = normalize_login (map char_of_byte (scramble (scramble [71, 85, 101, 115, 116])))"
    by (simp add: scramble_def normalize_login_def normalize_char_def char_of_byte_def char_of_def bit_Suc_0_iff)
  have s: "scramble [71, 85, 101, 115, 116] \<noteq> []" by (simp add: scramble_def)
  show ?thesis
    unfolding verified_def
    by (intro exI [of _ guest_fields] exI, intro conjI, rule d, rule f, use s in simp, rule f,
        use n in simp, simp add: guest_config_def, simp add: guest_config_def, simp add: guest_def)
qed

section \<open>The session\<close>

text \<open>C9: The verdict on a login.  A \<open>Login\<close> transaction is accepted exactly when its field list
  decodes, names a non-empty login whose unscrambled and normalised form the user database knows,
  and carries that user's stored password byte for byte; then the session has the user's access
  and waits for the agreement, and the reply tells version, banner and server name.  Any other is
  answered with error 1 and one line of text, and closes the session.\<close>

theorem login_verdict:
  assumes "th_type (rt_header r) = transaction_type_value TT_Login" and "th_is_reply (rt_header r) = 0"
    and "ss_state s \<noteq> session_closed"
  shows "(\<forall>login user. verified (ss_config s) r login user \<longrightarrow> session_process r s = Some
      (s\<lparr> ss_login := login, ss_access := ur_access user, ss_state := awaiting_agreement \<rparr>,
       Some \<lparr> or_id = th_id (rt_header r), or_error = 0,
         or_fields =
           [make_integer_field (field_id_value F_Vers) (ucast (sg_server_version (ss_config s))),
            make_integer_field (field_id_value F_CommunityBannerId) (sg_community_banner_id (ss_config s)),
            make_string_field (field_id_value F_ServerName) (sg_server_name (ss_config s))] \<rparr>))
    \<and> ((\<forall>login user. \<not> verified (ss_config s) r login user) \<longrightarrow> (\<exists>line. session_process r s = Some
      (s\<lparr> ss_state := session_closed \<rparr>,
       Some \<lparr> or_id = th_id (rt_header r), or_error = 1,
         or_fields = [make_string_field (field_id_value F_ErrorText) line] \<rparr>)))"
  using assms session_login_verified [of s r] session_login_refused [of s r]
  by (simp add: session_process_def failed_login_def)

theorem login_verdict_witness:
  "\<exists>s reply. session_process guest_login (session_new guest_config) = Some (s, Some reply)
     \<and> ss_state s = awaiting_agreement \<and> ss_login s = ''guest'' \<and> or_error reply = 0"
proof -
  have t: "th_type (rt_header guest_login) = transaction_type_value TT_Login" "th_is_reply (rt_header guest_login) = 0"
    by (simp_all add: guest_login_def message_header_def Let_def)
  have new: "ss_state (session_new guest_config) \<noteq> session_closed" "ss_config (session_new guest_config) = guest_config"
    by (simp_all add: session_new_def)
  from login_verdict [OF t new(1), THEN conjunct1, unfolded new(2), rule_format, OF guest_verified]
  show ?thesis by simp
qed

text \<open>C8: An active session is authorised.  In whatever order a session is given transactions and
  closed, it is active only if it accepted a login and was sent the agreement after that; the
  login name and the access it holds are those of that login's user; and processing always
  returns.\<close>

theorem active_session_authorized:
  assumes "session_run config hist s" and "ss_state s = active"
  shows "\<exists>h1 r out h2 user a. hist = h1 @ (r, out) # h2
     \<and> th_type (rt_header r) = transaction_type_value TT_Login \<and> th_is_reply (rt_header r) = 0
     \<and> verified config r (ss_login s) user \<and> ss_access s = ur_access user
     \<and> a \<in> set (map fst h2) \<and> th_type (rt_header a) = transaction_type_value TT_Agreed
     \<and> th_is_reply (rt_header a) = 0 \<and> (\<exists>s' reply. session_process r s = Some (s', reply))"
proof -
  have "logged_in config hist s" using session_run_invariant [OF assms(1)] assms(2) by simp
  then obtain h1 r out h2 user a o' where "hist = h1 @ (r, out) # h2"
    "th_type (rt_header r) = transaction_type_value TT_Login" "th_is_reply (rt_header r) = 0"
    "verified config r (ss_login s) user" "ss_access s = ur_access user" "(a, o') \<in> set h2"
    "th_type (rt_header a) = transaction_type_value TT_Agreed" "th_is_reply (rt_header a) = 0"
    using assms(2) unfolding logged_in_def by blast
  moreover from this(6) have "a \<in> set (map fst h2)" by force
  ultimately show ?thesis using session_process_total [of r s] by blast
qed


section \<open>Instances of runs\<close>

lemma guest_steps:
  "\<exists>s reply. session_process guest_login (session_new guest_config) = Some (s, Some reply)
     \<and> session_process guest_agreed s = Some (s\<lparr> ss_state := active \<rparr>, None)"
proof -
  have t: "th_type (rt_header guest_login) = transaction_type_value TT_Login" "th_is_reply (rt_header guest_login) = 0"
    by (simp_all add: guest_login_def message_header_def Let_def)
  have new: "ss_state (session_new guest_config) \<noteq> session_closed" "ss_config (session_new guest_config) = guest_config"
    by (simp_all add: session_new_def)
  have p: "session_process guest_login (session_new guest_config) = session_login guest_login (session_new guest_config)"
    using t new(1) by (simp add: session_process_def)
  have v: "verified (ss_config (session_new guest_config)) guest_login ''guest'' guest"
    by (simp add: new(2) guest_verified)
  show ?thesis
    unfolding p session_login_verified [OF v]
    by (intro exI conjI, rule refl) (simp add: session_process_def guest_agreed_def message_header_def)
qed

theorem active_session_authorized_witness:
  "\<exists>hist s h1 r out h2 user. session_run guest_config hist s \<and> ss_state s = active
     \<and> hist = h1 @ (r, out) # h2 \<and> verified guest_config r (ss_login s) user"
proof -
  obtain s reply where p: "session_process guest_login (session_new guest_config) = Some (s, Some reply)"
    "session_process guest_agreed s = Some (s\<lparr> ss_state := active \<rparr>, None)"
    using guest_steps by blast
  have run: "session_run guest_config (([] @ [(guest_login, Some reply)]) @ [(guest_agreed, None)]) (s\<lparr> ss_state := active \<rparr>)"
    by (rule session_run.process [OF session_run.process [OF session_run.start p(1)] p(2)])
  have "ss_state (s\<lparr> ss_state := active \<rparr>) = active" by simp
  with active_session_authorized [OF run this] run show ?thesis by blast
qed











end
