(* ===== verification/Net_Poller.thy ===== *)
theory Net_Poller
  imports Net_Socket
begin

unbundle bit_operations_syntax

text \<open>
  The readiness poller (\<open>appwarrior/net/poller.h\<close>, the POSIX half of \<open>poller.cpp\<close>).
  \<open>std::map<int, short>\<close> is a list of bindings in ascending order of keys, the order in which
  the code iterates; \<open>ordered_map\<close> is the contract of such a map.
\<close>

section \<open>Ordered maps\<close>

locale ordered_map =
  fixes put :: "'k::linorder \<Rightarrow> 'v \<Rightarrow> ('k \<times> 'v) list \<Rightarrow> ('k \<times> 'v) list"
    and del :: "'k \<Rightarrow> ('k \<times> 'v) list \<Rightarrow> ('k \<times> 'v) list"
    and wf :: "('k \<times> 'v) list \<Rightarrow> bool"
  assumes wf_sorted: "wf m \<Longrightarrow> sorted_wrt (<) (map fst m)"
    and wf_empty: "wf []"
    and wf_put: "wf m \<Longrightarrow> wf (put k v m)"
    and wf_del: "wf m \<Longrightarrow> wf (del k m)"
    and look_put: "wf m \<Longrightarrow> map_of (put k v m) = (map_of m)(k \<mapsto> v)"
    and look_del: "wf m \<Longrightarrow> map_of (del k m) = (map_of m)(k := None)"
begin

lemma distinct_keys: "wf m \<Longrightarrow> distinct (map fst m)"
  using wf_sorted by (induction m) (fastforce simp: strict_sorted_iff)+

lemma keys_put: "wf m \<Longrightarrow> fst ` set (put k v m) = insert k (fst ` set m)"
  using look_put [of m k v] by (metis dom_fun_upd dom_map_of_conv_image_fst option.distinct(1))

lemma keys_del: "wf m \<Longrightarrow> fst ` set (del k m) = fst ` set m - {k}"
  using look_del [of m k] by (metis dom_fun_upd dom_map_of_conv_image_fst)

lemma binding_put_same: "wf m \<Longrightarrow> (j, w) \<in> set (put k v m) \<longleftrightarrow> (if j = k then w = v else (j, w) \<in> set m)"
  using distinct_keys [OF wf_put] distinct_keys [of m] look_put [of m k v]
  by (metis fun_upd_apply map_of_eq_Some_iff option.inject)

end

fun map_put :: "'k::linorder \<Rightarrow> 'v \<Rightarrow> ('k \<times> 'v) list \<Rightarrow> ('k \<times> 'v) list" where
  "map_put k v [] = [(k, v)]"
| "map_put k v ((j, w) # m) =
     (if k < j then (k, v) # (j, w) # m
      else if k = j then (k, v) # m
      else (j, w) # map_put k v m)"

definition map_erase :: "'k \<Rightarrow> ('k \<times> 'v) list \<Rightarrow> ('k \<times> 'v) list" where
  "map_erase k m = filter (\<lambda>b. fst b \<noteq> k) m"

definition map_wf :: "('k::linorder \<times> 'v) list \<Rightarrow> bool" where
  "map_wf m = sorted_wrt (<) (map fst m)"

lemma set_map_put: "fst ` set (map_put k v m) = insert k (fst ` set m)"
  by (induction k v m rule: map_put.induct) auto

lemma map_wf_put: "map_wf m \<Longrightarrow> map_wf (map_put k v m)"
proof (induction k v m rule: map_put.induct)
  case (2 k v j w m)
  then show ?case using set_map_put [of k v m] by (auto simp: map_wf_def)
qed (simp add: map_wf_def)

lemma map_of_put: "map_wf m \<Longrightarrow> map_of (map_put k v m) = (map_of m)(k \<mapsto> v)"
  by (induction k v m rule: map_put.induct) (auto simp: map_wf_def fun_eq_iff)

lemma map_of_erase: "map_of (map_erase k m) = (map_of m)(k := None)"
  by (induction m) (auto simp: map_erase_def fun_eq_iff)

lemma map_wf_erase: "map_wf m \<Longrightarrow> map_wf (map_erase k m)"
  by (induction m) (auto simp: map_wf_def map_erase_def)

interpretation imap: ordered_map map_put map_erase map_wf
proof (unfold_locales, goal_cases)
  case (1 m)
  then show ?case by (simp only: map_wf_def)
next
  case 2
  show ?case by (simp add: map_wf_def)
qed (simp_all only: map_wf_put map_wf_erase map_of_put map_of_erase)

section \<open>The poller\<close>

datatype PollInterest = Poll_read | Poll_write | Poll_read_write

definition poll_interest_value :: "PollInterest \<Rightarrow> u8" where
  "poll_interest_value i = (case i of Poll_read \<Rightarrow> 1 | Poll_write \<Rightarrow> 2 | Poll_read_write \<Rightarrow> 3)"

definition POLLIN :: int where "POLLIN = 1"
definition POLLOUT :: int where "POLLOUT = 4"
definition POLLERR :: int where "POLLERR = 8"
definition POLLHUP :: int where "POLLHUP = 16"
definition POLLNVAL :: int where "POLLNVAL = 32"

text \<open>\<open>NativeSocket\<close> is the type parameter: an int on POSIX, a 64-bit handle on Windows.\<close>

record 'h poll_event =
  pe_descriptor :: 'h
  pe_readable :: bool
  pe_writable :: bool
  pe_closed :: bool

record 'h poller =
  pl_interests :: "('h \<times> int) list"

definition poller_new :: "'h poller" where
  "poller_new = \<lparr> pl_interests = [] \<rparr>"

definition to_poll_mask :: "PollInterest \<Rightarrow> int" where
  "to_poll_mask interest =
     (let mask = 0;
          mask = (if (poll_interest_value interest AND poll_interest_value Poll_read) \<noteq> 0
                  then mask OR POLLIN else mask);
          mask = (if (poll_interest_value interest AND poll_interest_value Poll_write) \<noteq> 0
                  then mask OR POLLOUT else mask)
      in mask)"

definition poller_add :: "int \<Rightarrow> PollInterest \<Rightarrow> int poller \<Rightarrow> int poller" where
  "poller_add descriptor interest p =
     (if descriptor < 0 then p
      else p\<lparr> pl_interests := map_put descriptor (to_poll_mask interest) (pl_interests p) \<rparr>)"

definition poller_remove :: "'h \<Rightarrow> 'h poller \<Rightarrow> 'h poller" where
  "poller_remove descriptor p = p\<lparr> pl_interests := map_erase descriptor (pl_interests p) \<rparr>"

definition poller_contains :: "'h \<Rightarrow> 'h poller \<Rightarrow> bool" where
  "poller_contains descriptor p = (map_of (pl_interests p) descriptor \<noteq> None)"

definition poll_event_of :: "int \<Rightarrow> int \<Rightarrow> int poll_event" where
  "poll_event_of fd revents = \<lparr> pe_descriptor = fd,
     pe_readable = ((revents AND POLLIN) \<noteq> 0), pe_writable = ((revents AND POLLOUT) \<noteq> 0),
     pe_closed = ((revents AND (POLLHUP OR POLLERR OR POLLNVAL)) \<noteq> 0) \<rparr>"

text \<open>\<open>static_cast<int>(timeout.count())\<close> keeps the low 32 bits.  The kernel fills one event mask
  per descriptor, zero where it has nothing to report.\<close>

definition poller_wait :: "int \<Rightarrow> int poller \<Rightarrow> kernel \<Rightarrow> (NetError + int poll_event list) \<times> kernel" where
  "poller_wait timeout p k =
     (let descriptors = pl_interests p; t = signed_take_bit 31 timeout in
      if descriptors = [] then (Inr [], snd (sys (Call_poll [] t) k))
      else case sys (Call_poll descriptors t) k of
             (Sys_error e, k1) \<Rightarrow> (if e = EINTR then Inr [] else Inl net_system, k1)
           | (Sys_value _ _ _ revents, k1) \<Rightarrow>
               (Inr (map (\<lambda>(fd, rev). poll_event_of fd rev)
                  (filter (\<lambda>(fd, rev). rev \<noteq> 0)
                    (zip (map fst descriptors) (revents @ replicate (length descriptors) 0)))), k1))"

definition poller_ok :: "int poller \<Rightarrow> bool" where
  "poller_ok p \<longleftrightarrow> map_wf (pl_interests p) \<and> (\<forall>b\<in>set (pl_interests p). 0 \<le> fst b)"

lemma pe_descriptor_poll_event_of [simp]: "pe_descriptor (poll_event_of fd rv) = fd"
  by (simp add: poll_event_of_def)

text \<open>The events made from a registration map and the masks the system fills in, whatever the
  function that makes an event of a descriptor and its mask.\<close>

lemma polled_events:
  assumes "map_wf m" and f: "\<And>fd rv. pe_descriptor (f fd rv) = fd"
    and "es = [] \<or> (\<exists>rs. length m \<le> length rs \<and>
      es = map (\<lambda>(fd, rv). f fd rv) (filter P (zip (map fst m) rs)))"
  shows "sorted_wrt (<) (map pe_descriptor es) \<and> (\<forall>e\<in>set es. map_of m (pe_descriptor e) \<noteq> None)"
proof (cases "es = []")
  case False
  then obtain rs where len: "length m \<le> length rs"
    and es: "es = map (\<lambda>(fd, rv). f fd rv) (filter P (zip (map fst m) rs))" using assms(3) by blast
  have descriptors: "map pe_descriptor (map (\<lambda>(fd, rv). f fd rv) zs) = map fst zs" for zs
    using f by (induction zs) auto
  have "sorted_wrt (<) (map fst (zip (map fst m) rs))"
    unfolding map_fst_zip_take using assms(1) len by (simp add: map_wf_def min_absorb1)
  then have "sorted_wrt (<) (map fst (filter P (zip (map fst m) rs)))"
    by (simp add: sorted_wrt_map sorted_wrt_filter)
  then have "sorted_wrt (<) (map pe_descriptor es)" unfolding es descriptors .
  moreover have "\<forall>e\<in>set es. map_of m (pe_descriptor e) \<noteq> None"
    unfolding es using f by (auto simp: map_of_eq_None_iff dest!: set_zip_leftD)
  ultimately show ?thesis ..
qed simp

section \<open>Properties\<close>

text \<open>The poller is a map from non-negative descriptors to interests: adding replaces, removing
  forgets, other descriptors are unaffected, and a negative descriptor is never registered.\<close>

theorem poller_is_map:
  assumes "poller_ok p"
  shows "poller_ok (poller_add d i p) \<and> poller_ok (poller_remove d p) \<and>
    map_of (pl_interests (poller_add d i p)) =
      (if d < 0 then map_of (pl_interests p) else (map_of (pl_interests p))(d \<mapsto> to_poll_mask i)) \<and>
    map_of (pl_interests (poller_remove d p)) = (map_of (pl_interests p))(d := None)"
proof -
  have wf: "map_wf (pl_interests p)" and nn: "\<forall>b\<in>set (pl_interests p). 0 \<le> fst b"
    using assms by (simp_all add: poller_ok_def)
  have "\<forall>b\<in>set (map_put d x (pl_interests p)). 0 \<le> fst b" if "0 \<le> d" for x :: int
    using that nn imap.keys_put [OF wf, of d x] by (metis image_iff insert_iff)
  moreover have "\<forall>b\<in>set (map_erase d (pl_interests p)). 0 \<le> fst b"
    using nn by (auto simp: map_erase_def)
  ultimately show ?thesis
    using wf nn by (simp add: poller_ok_def poller_add_def poller_remove_def imap.wf_put imap.wf_del
        imap.look_put imap.look_del)
qed

theorem poller_is_map_witness:
  "map_of (pl_interests (poller_add 4 Poll_read (poller_add 7 Poll_write poller_new))) 7
     = Some (to_poll_mask Poll_write)"
proof -
  have new: "poller_ok poller_new" by (simp add: poller_ok_def poller_new_def map_wf_def)
  have ok: "poller_ok (poller_add 7 Poll_write poller_new)"
    using poller_is_map [OF new, of 7 Poll_write] by simp
  show ?thesis
    using poller_is_map [OF ok, of 4 Poll_read] poller_is_map [OF new, of 7 Poll_write] by simp
qed

text \<open>Every event of \<open>wait\<close> is about a registered descriptor, with at most one event per
  descriptor in ascending order, and each says something unless only unknown bits were set; an
  interrupted wait is an empty list and not an error.\<close>

theorem poller_wait_events:
  assumes "poller_ok p" and "poller_wait timeout p k = (r, k')"
  shows "(\<forall>events. r = Inr events \<longrightarrow> sorted_wrt (<) (map pe_descriptor events) \<and>
      (\<forall>e\<in>set events. poller_contains (pe_descriptor e) p)) \<and>
    (kn_script k \<noteq> [] \<and> hd (kn_script k) = Sys_error EINTR \<longrightarrow> r = Inr [])"
proof -
  let ?ds = "pl_interests p"
  have wf: "map_wf ?ds" using assms(1) by (simp add: poller_ok_def)
  have shape: "events = [] \<or> (\<exists>rs. length ?ds \<le> length rs \<and> events =
      map (\<lambda>(fd, rev). poll_event_of fd rev) (filter (\<lambda>(fd, rev). rev \<noteq> 0) (zip (map fst ?ds) rs)))"
    if "r = Inr events" for events
    using assms(2) that
    by (force simp: poller_wait_def Let_def split: if_splits prod.splits sys_result.splits)
  have "sorted_wrt (<) (map pe_descriptor events) \<and>
      (\<forall>e\<in>set events. poller_contains (pe_descriptor e) p)" if "r = Inr events" for events
    using polled_events [OF wf _ shape [OF that]] by (simp add: poller_contains_def)
  moreover have "r = Inr []" if "kn_script k \<noteq> []" "hd (kn_script k) = Sys_error EINTR"
    using assms(2) that by (auto simp: poller_wait_def Let_def sys_def split: if_splits list.splits)
  ultimately show ?thesis by blast
qed

theorem poller_wait_events_witness:
  "fst (poller_wait 100 (poller_add 4 Poll_read (poller_add 7 Poll_write poller_new))
     \<lparr> kn_little_endian = True, kn_script = [Sys_error EINTR], kn_trace = [] \<rparr>) = Inr []"
proof -
  have ok: "poller_ok (poller_add 4 Poll_read (poller_add 7 Poll_write poller_new))"
    by (simp add: poller_ok_def poller_new_def map_wf_def poller_add_def)
  show ?thesis
    using poller_wait_events [OF ok, of 100 "\<lparr> kn_little_endian = True, kn_script = [Sys_error EINTR],
      kn_trace = [] \<rparr>", OF prod.collapse [symmetric]] by simp
qed

end
