(* ===== verification/Net_Socket_Windows.thy ===== *)
theory Net_Socket_Windows
  imports Net_Socket "HOL-Library.Multiset"
begin

unbundle bit_operations_syntax

text \<open>
  Sockets and listeners on Windows (the first half of \<open>appwarrior/net/socket.cpp\<close>).  WinSock
  is not part of the program: a \<open>winsock\<close> is an arbitrary script of replies, the trace of the
  calls made, the per-thread error that \<open>WSAGetLastError\<close> reads, and whether the static of
  \<open>wsa_runtime\<close> has been constructed.  A failing call sets the error, a successful one leaves it,
  so the order in which the code saves the error and cleans up matters.
\<close>

section \<open>The system\<close>

datatype wsa_error =
    WSAEWOULDBLOCK | WSAEINPROGRESS | WSAEINTR | WSAECONNRESET | WSAENOTCONN | WSAECONNREFUSED
  | WSAEADDRINUSE | WSAEINVAL | WSAEAFNOSUPPORT | Other_wsa_error int

text \<open>\<open>NativeSocket\<close> is \<open>std::uintptr_t\<close>; buffer lengths are the C ints handed to the call.\<close>

type_synonym handle = u64

datatype wsa_call =
    Wsa_startup u16
  | Wsa_cleanup
  | Wsa_socket Family sock_kind
  | Wsa_fionbio handle bool
  | Wsa_setsockopt handle socket_option
  | Wsa_bind handle sockaddr
  | Wsa_connect handle sockaddr
  | Wsa_listen handle int
  | Wsa_accept handle
  | Wsa_send handle bytes int
  | Wsa_recv handle int
  | Wsa_sendto handle bytes int sockaddr
  | Wsa_recvfrom handle int
  | Wsa_getsockname handle
  | Wsa_getpeername handle
  | Wsa_shutdown handle
  | Wsa_closesocket handle
  | Wsa_poll "(handle \<times> int) list" int
  | Wsa_sleep u32

datatype wsa_reply =
    Wsa_failed wsa_error
  | Wsa_done nat bytes sockaddr "int list"

record winsock =
  ws_script :: "wsa_reply list"
  ws_trace :: "(wsa_call \<times> wsa_reply) list"
  ws_last_error :: wsa_error
  ws_started :: bool

definition wsys :: "wsa_call \<Rightarrow> winsock \<Rightarrow> wsa_reply \<times> winsock" where
  "wsys call w =
     (let (r, rest) = (case ws_script w of [] \<Rightarrow> (Wsa_failed WSAEWOULDBLOCK, []) | r # rs \<Rightarrow> (r, rs))
      in (r, w\<lparr> ws_script := rest, ws_trace := ws_trace w @ [(call, r)],
               ws_last_error := (case r of Wsa_failed e \<Rightarrow> e | Wsa_done _ _ _ _ \<Rightarrow> ws_last_error w) \<rparr>))"

definition INVALID_SOCKET :: handle where "INVALID_SOCKET = NOT 0"

text \<open>What a call that returns a \<open>SOCKET\<close> returns.\<close>

definition reply_handle :: "wsa_reply \<Rightarrow> handle" where
  "reply_handle r = (case r of Wsa_failed _ \<Rightarrow> INVALID_SOCKET | Wsa_done h _ _ _ \<Rightarrow> of_nat h)"

text \<open>\<open>WSAStartup\<close> returns its error and does not set the per-thread one; the code ignores it.\<close>

definition wsa_runtime :: "winsock \<Rightarrow> winsock" where
  "wsa_runtime w =
     (if ws_started w then w
      else (let (_, w1) = wsys (Wsa_startup 0x0202) w
            in w1\<lparr> ws_started := True, ws_last_error := ws_last_error w \<rparr>))"

text \<open>The static is destroyed at the end of the process.\<close>

definition wsa_runtime_destroy :: "winsock \<Rightarrow> winsock" where
  "wsa_runtime_destroy w = (if ws_started w then snd (wsys Wsa_cleanup w) else w)"

definition win_from_error :: "wsa_error \<Rightarrow> NetError" where
  "win_from_error e =
     (case e of
        WSAEWOULDBLOCK \<Rightarrow> would_block
      | WSAEINPROGRESS \<Rightarrow> would_block
      | WSAEINTR \<Rightarrow> interrupted
      | WSAECONNRESET \<Rightarrow> connection_closed
      | WSAENOTCONN \<Rightarrow> connection_closed
      | WSAECONNREFUSED \<Rightarrow> connection_refused
      | WSAEADDRINUSE \<Rightarrow> address_in_use
      | WSAEINVAL \<Rightarrow> invalid_argument
      | WSAEAFNOSUPPORT \<Rightarrow> invalid_argument
      | Other_wsa_error n \<Rightarrow> net_system)"

abbreviation win_last_error :: "winsock \<Rightarrow> NetError" where
  "win_last_error w \<equiv> win_from_error (ws_last_error w)"

definition win_set_non_blocking :: "handle \<Rightarrow> winsock \<Rightarrow> bool \<times> winsock" where
  "win_set_non_blocking h w =
     (case wsys (Wsa_fionbio h True) w of
        (Wsa_failed _, w1) \<Rightarrow> (False, w1)
      | (Wsa_done n _ _ _, w1) \<Rightarrow> (True, w1))"

text \<open>Windows runs on little-endian hosts only.\<close>

definition win_to_sockaddr :: "ip_address \<Rightarrow> sockaddr" where
  "win_to_sockaddr a =
     (if ip_family a = Ipv4 then Sockaddr_in (htons True (ip_port a)) (htonl True (network_address a))
      else Sockaddr_in6 (htons True (ip_port a)) (ip_bytes a) (ip_scope_id a))"

definition win_from_sockaddr :: "sockaddr \<Rightarrow> ip_address" where
  "win_from_sockaddr s =
     (case s of
        Sockaddr_in6 port bs scope \<Rightarrow> ipv6_address bs (htons True port) scope
      | Sockaddr_in port network \<Rightarrow>
          ipv4_address (ucast (network AND 0xFF)) (ucast (drop_bit 8 network AND 0xFF))
            (ucast (drop_bit 16 network AND 0xFF)) (ucast (drop_bit 24 network AND 0xFF))
            (htons True port))"

section \<open>Sockets\<close>

definition win_is_open :: "handle \<Rightarrow> bool" where
  "win_is_open h = (h \<noteq> INVALID_SOCKET)"

text \<open>The tail shared by the constructors and \<open>accept\<close>: a new descriptor is made non-blocking, or
  closed with the error of the failing call saved first.\<close>

definition win_adopt :: "handle \<Rightarrow> winsock \<Rightarrow> (NetError + handle) \<times> winsock" where
  "win_adopt h w =
     (if h = INVALID_SOCKET then (Inl (win_last_error w), w)
      else case win_set_non_blocking h w of
             (False, w1) \<Rightarrow>
               (let error = ws_last_error w1; (_, w2) = wsys (Wsa_closesocket h) w1
                in (Inl (win_from_error error), w2))
           | (True, w1) \<Rightarrow> (Inr h, w1))"

definition win_open_descriptor ::
    "Family \<Rightarrow> sock_kind \<Rightarrow> winsock \<Rightarrow> (NetError + handle) \<times> winsock" where
  "win_open_descriptor family kind w =
     (let (r, w1) = wsys (Wsa_socket family kind) (wsa_runtime w) in win_adopt (reply_handle r) w1)"

definition win_dual_stack ::
    "Family \<Rightarrow> (NetError + handle) \<times> winsock \<Rightarrow> (NetError + handle) \<times> winsock" where
  "win_dual_stack family r =
     (case r of
        (Inl e, w) \<Rightarrow> (Inl e, w)
      | (Inr h, w) \<Rightarrow>
          if family = Ipv6 then (let (_, w') = wsys (Wsa_setsockopt h (Ipv6_only False)) w in (Inr h, w'))
          else (Inr h, w))"

definition win_socket_create_tcp :: "Family \<Rightarrow> winsock \<Rightarrow> (NetError + handle) \<times> winsock" where
  "win_socket_create_tcp family w = win_open_descriptor family Stream w"

definition win_socket_create_udp :: "Family \<Rightarrow> winsock \<Rightarrow> (NetError + handle) \<times> winsock" where
  "win_socket_create_udp family w = win_dual_stack family (win_open_descriptor family Dgram w)"

definition win_socket_bind :: "handle \<Rightarrow> ip_address \<Rightarrow> winsock \<Rightarrow> (NetError + unit) \<times> winsock" where
  "win_socket_bind h a w =
     (if \<not> win_is_open h then (Inl invalid_argument, w)
      else case wsys (Wsa_bind h (win_to_sockaddr a)) w of
             (Wsa_failed _, w1) \<Rightarrow> (Inl (win_last_error w1), w1)
           | (Wsa_done _ _ _ _, w1) \<Rightarrow> (Inr (), w1))"

definition win_socket_connect :: "handle \<Rightarrow> ip_address \<Rightarrow> winsock \<Rightarrow> (NetError + unit) \<times> winsock" where
  "win_socket_connect h a w =
     (if \<not> win_is_open h then (Inl invalid_argument, w)
      else case wsys (Wsa_connect h (win_to_sockaddr a)) w of
             (Wsa_failed _, w1) \<Rightarrow> (Inl (win_last_error w1), w1)
           | (Wsa_done _ _ _ _, w1) \<Rightarrow> (Inr (), w1))"

text \<open>\<open>static_cast<int>(buffer.size())\<close> keeps the low 32 bits of the size as a signed number; a
  call never moves more bytes than the length it is given.\<close>

definition c_int_size :: "nat \<Rightarrow> int" where
  "c_int_size n = signed_take_bit 31 (int n)"

definition win_socket_send :: "handle \<Rightarrow> bytes \<Rightarrow> winsock \<Rightarrow> (NetError + nat) \<times> winsock" where
  "win_socket_send h buffer w =
     (if \<not> win_is_open h \<or> buffer = [] then (Inl invalid_argument, w)
      else (let len = c_int_size (length buffer) in
            case wsys (Wsa_send h (take (nat len) buffer) len) w of
              (Wsa_failed _, w1) \<Rightarrow> (Inl (win_last_error w1), w1)
            | (Wsa_done written _ _ _, w1) \<Rightarrow> (Inr (min written (nat len)), w1)))"

definition win_socket_receive :: "handle \<Rightarrow> nat \<Rightarrow> winsock \<Rightarrow> (NetError + bytes) \<times> winsock" where
  "win_socket_receive h n w =
     (if \<not> win_is_open h \<or> n = 0 then (Inl invalid_argument, w)
      else case wsys (Wsa_recv h (c_int_size n)) w of
             (Wsa_failed _, w1) \<Rightarrow> (Inl (win_last_error w1), w1)
           | (Wsa_done _ data _ _, w1) \<Rightarrow>
               (let got = take (nat (c_int_size n)) data in
                if got = [] then (Inl connection_closed, w1) else (Inr got, w1)))"

definition win_socket_send_to ::
    "handle \<Rightarrow> ip_address \<Rightarrow> bytes \<Rightarrow> winsock \<Rightarrow> (NetError + nat) \<times> winsock" where
  "win_socket_send_to h destination buffer w =
     (if \<not> win_is_open h then (Inl invalid_argument, w)
      else (let len = c_int_size (length buffer) in
            case wsys (Wsa_sendto h (take (nat len) buffer) len (win_to_sockaddr destination)) w of
              (Wsa_failed _, w1) \<Rightarrow> (Inl (win_last_error w1), w1)
            | (Wsa_done sent _ _ _, w1) \<Rightarrow> (Inr (min sent (nat len)), w1)))"

definition win_socket_receive_from ::
    "handle \<Rightarrow> nat \<Rightarrow> winsock \<Rightarrow> (NetError + bytes \<times> ip_address) \<times> winsock" where
  "win_socket_receive_from h n w =
     (if \<not> win_is_open h \<or> n = 0 then (Inl invalid_argument, w)
      else case wsys (Wsa_recvfrom h (c_int_size n)) w of
             (Wsa_failed _, w1) \<Rightarrow> (Inl (win_last_error w1), w1)
           | (Wsa_done _ data source _, w1) \<Rightarrow>
               (Inr (take (nat (c_int_size n)) data, win_from_sockaddr source), w1))"

definition win_socket_local_address :: "handle \<Rightarrow> winsock \<Rightarrow> (NetError + ip_address) \<times> winsock" where
  "win_socket_local_address h w =
     (case wsys (Wsa_getsockname h) w of
        (Wsa_failed _, w1) \<Rightarrow> (Inl (win_last_error w1), w1)
      | (Wsa_done _ _ a _, w1) \<Rightarrow> (Inr (win_from_sockaddr a), w1))"

definition win_socket_remote_address :: "handle \<Rightarrow> winsock \<Rightarrow> (NetError + ip_address) \<times> winsock" where
  "win_socket_remote_address h w =
     (case wsys (Wsa_getpeername h) w of
        (Wsa_failed _, w1) \<Rightarrow> (Inl (win_last_error w1), w1)
      | (Wsa_done _ _ a _, w1) \<Rightarrow> (Inr (win_from_sockaddr a), w1))"

definition win_socket_set_tcp_no_delay :: "handle \<Rightarrow> bool \<Rightarrow> winsock \<Rightarrow> winsock" where
  "win_socket_set_tcp_no_delay h enabled w = snd (wsys (Wsa_setsockopt h (Tcp_no_delay enabled)) w)"

definition win_socket_shutdown :: "handle \<Rightarrow> winsock \<Rightarrow> winsock" where
  "win_socket_shutdown h w = (if win_is_open h then snd (wsys (Wsa_shutdown h) w) else w)"

definition win_socket_close :: "handle \<Rightarrow> winsock \<Rightarrow> handle \<times> winsock" where
  "win_socket_close h w =
     (if win_is_open h then (INVALID_SOCKET, snd (wsys (Wsa_closesocket h) w)) else (h, w))"

section \<open>Listeners and pairs\<close>

definition win_listener_create_tcp :: "Family \<Rightarrow> winsock \<Rightarrow> (NetError + handle) \<times> winsock" where
  "win_listener_create_tcp family w = win_dual_stack family (win_open_descriptor family Stream w)"

definition win_listener_listen ::
    "handle \<Rightarrow> ip_address \<Rightarrow> int \<Rightarrow> winsock \<Rightarrow> (NetError + unit) \<times> winsock" where
  "win_listener_listen h a backlog w =
     (if h = INVALID_SOCKET \<or> backlog < 1 then (Inl invalid_argument, w)
      else
        (let (_, w1) = wsys (Wsa_setsockopt h (Reuse_addr True)) w in
         case wsys (Wsa_bind h (win_to_sockaddr a)) w1 of
           (Wsa_failed _, w2) \<Rightarrow> (Inl (win_last_error w2), w2)
         | (Wsa_done _ _ _ _, w2) \<Rightarrow>
             (case wsys (Wsa_listen h backlog) w2 of
                (Wsa_failed _, w3) \<Rightarrow> (Inl (win_last_error w3), w3)
              | (Wsa_done _ _ _ _, w3) \<Rightarrow> (Inr (), w3))))"

definition win_listener_accept :: "handle \<Rightarrow> winsock \<Rightarrow> (NetError + handle) \<times> winsock" where
  "win_listener_accept h w =
     (let (r, w1) = wsys (Wsa_accept h) w in win_adopt (reply_handle r) w1)"

definition win_listener_local_address :: "handle \<Rightarrow> winsock \<Rightarrow> (NetError + ip_address) \<times> winsock" where
  "win_listener_local_address h w =
     (case wsys (Wsa_getsockname h) w of
        (Wsa_failed _, w1) \<Rightarrow> (Inl (win_last_error w1), w1)
      | (Wsa_done _ _ a _, w1) \<Rightarrow> (Inr (win_from_sockaddr a), w1))"

definition win_listener_close :: "handle \<Rightarrow> winsock \<Rightarrow> handle \<times> winsock" where
  "win_listener_close h w =
     (if h \<noteq> INVALID_SOCKET then (INVALID_SOCKET, snd (wsys (Wsa_closesocket h) w)) else (h, w))"

text \<open>\<open>make_socket_pair\<close> is one function whose early returns destroy the locals made so far, in
  reverse order: the client, then the listener.  The three definitions are its body from the client's
  connection on, from the listener on, and the whole; the result of each is what the code returns
  once the locals of that part are destroyed.  The code moves the handles out of expected objects it
  declares \<open>const\<close>, which the deleted copy constructors of the two classes forbid; the model
  reads these moves as moves.\<close>

definition win_pair_connect ::
    "handle \<Rightarrow> ip_address \<Rightarrow> handle \<Rightarrow> winsock \<Rightarrow> (NetError + handle \<times> handle) \<times> winsock" where
  "win_pair_connect listener address client w =
     (let (_, w1) = wsys (Wsa_fionbio client False) w in
      case win_socket_connect client address w1 of
        (Inl e, w2) \<Rightarrow> (Inl e, snd (win_socket_close client w2))
      | (Inr _, w2) \<Rightarrow>
          (case win_listener_accept listener w2 of
             (Inl e, w3) \<Rightarrow> (Inl e, snd (win_socket_close client w3))
           | (Inr server, w3) \<Rightarrow>
               (let (_, w4) = wsys (Wsa_fionbio client False) w3;
                    (_, w5) = wsys (Wsa_fionbio server False) w4
                in (Inr (client, server), w5))))"

definition win_pair_listen :: "handle \<Rightarrow> winsock \<Rightarrow> (NetError + handle \<times> handle) \<times> winsock" where
  "win_pair_listen listener w =
     (case win_listener_listen listener (ipv4_address 127 0 0 1 0) 16 w of
        (Inl e, w1) \<Rightarrow> (Inl e, snd (win_listener_close listener w1))
      | (Inr _, w1) \<Rightarrow>
          (case win_listener_local_address listener w1 of
             (Inl e, w2) \<Rightarrow> (Inl e, snd (win_listener_close listener w2))
           | (Inr address, w2) \<Rightarrow>
               (case win_socket_create_tcp Ipv4 w2 of
                  (Inl e, w3) \<Rightarrow> (Inl e, snd (win_listener_close listener w3))
                | (Inr client, w3) \<Rightarrow>
                    (let (r, w4) = win_pair_connect listener address client w3
                     in (r, snd (win_listener_close listener w4))))))"

definition win_make_socket_pair :: "winsock \<Rightarrow> (NetError + handle \<times> handle) \<times> winsock" where
  "win_make_socket_pair w =
     (case win_listener_create_tcp Ipv4 (wsa_runtime w) of
        (Inl e, w1) \<Rightarrow> (Inl e, w1)
      | (Inr listener, w1) \<Rightarrow> win_pair_listen listener w1)"

section \<open>The stream interface\<close>

lemma c_int_size_le: "nat (c_int_size n) \<le> n"
proof -
  have "c_int_size n \<le> int n"
    unfolding c_int_size_def using signed_take_bit_int_less_eq_self_iff [of 31 "int n"] by simp
  then show ?thesis by simp
qed

interpretation windows: stream_socket win_is_open win_socket_send win_socket_receive win_socket_close
proof (unfold_locales, goal_cases)
  case (1 h b w n w')
  then show ?case using c_int_size_le [of "length b"]
    by (auto simp: win_socket_send_def Let_def split: if_splits prod.splits wsa_reply.splits)
next
  case (2 h m w got w')
  then show ?case using c_int_size_le [of m]
    by (auto simp: win_socket_receive_def Let_def split: if_splits prod.splits wsa_reply.splits)
qed (simp_all add: win_socket_send_def win_socket_receive_def win_socket_close_def win_is_open_def)

section \<open>Descriptors opened and closed\<close>

fun wsa_opened :: "(wsa_call \<times> wsa_reply) list \<Rightarrow> handle multiset" where
  "wsa_opened [] = {#}"
| "wsa_opened ((Wsa_socket f t, r) # es) =
     (if reply_handle r = INVALID_SOCKET then {#} else {#reply_handle r#}) + wsa_opened es"
| "wsa_opened ((Wsa_accept h, r) # es) =
     (if reply_handle r = INVALID_SOCKET then {#} else {#reply_handle r#}) + wsa_opened es"
| "wsa_opened (_ # es) = wsa_opened es"

fun wsa_closed :: "(wsa_call \<times> wsa_reply) list \<Rightarrow> handle multiset" where
  "wsa_closed [] = {#}"
| "wsa_closed ((Wsa_closesocket h, r) # es) = {#h#} + wsa_closed es"
| "wsa_closed (_ # es) = wsa_closed es"

lemma wsa_opened_append [simp]: "wsa_opened (xs @ ys) = wsa_opened xs + wsa_opened ys"
  by (induction xs rule: wsa_opened.induct) auto

lemma wsa_closed_append [simp]: "wsa_closed (xs @ ys) = wsa_closed xs + wsa_closed ys"
  by (induction xs rule: wsa_closed.induct) auto

text \<open>\<open>balance w w' H\<close>: between \<open>w\<close> and \<open>w'\<close> the handles \<open>H\<close> were opened and not closed.\<close>

definition balance :: "winsock \<Rightarrow> winsock \<Rightarrow> handle multiset \<Rightarrow> bool" where
  "balance w w' H \<longleftrightarrow> (\<exists>d. ws_trace w' = ws_trace w @ d \<and> wsa_opened d = wsa_closed d + H)"

lemma balance_refl: "balance w w {#}"
  by (simp add: balance_def)

lemma balance_step: "balance w w1 H \<Longrightarrow> balance w1 w2 K \<Longrightarrow> balance w w2 (H + K)"
  by (auto simp: balance_def)

lemma balance_then: "balance w w1 H \<Longrightarrow> balance w1 w2 {#} \<Longrightarrow> balance w w2 H"
  using balance_step [of w w1 H w2 "{#}"] by simp

lemma balance_release: "balance w w1 (H + {#h#}) \<Longrightarrow> balance w1 w2 {#} \<Longrightarrow>
    w' = snd (wsys (Wsa_closesocket h) w2) \<Longrightarrow> balance w w' H"
  by (auto simp: balance_def wsys_def Let_def split: list.splits)

lemma wsys_event: "wsys c w = (r, w') \<Longrightarrow> ws_trace w' = ws_trace w @ [(c, r)] \<and>
    ws_last_error w' = (case r of Wsa_failed e \<Rightarrow> e | Wsa_done _ _ _ _ \<Rightarrow> ws_last_error w)"
  by (auto simp: wsys_def Let_def split: list.splits prod.splits)

lemma balance_quiet:
  "wsys c w = (r, w') \<Longrightarrow> wsa_opened [(c, r)] = {#} \<Longrightarrow> wsa_closed [(c, r)] = {#} \<Longrightarrow> balance w w' {#}"
  using wsys_event [of c w r w'] by (auto simp: balance_def)

lemma balance_runtime: "balance w (wsa_runtime w) {#}"
  by (auto simp: wsa_runtime_def balance_def split: prod.splits dest!: wsys_event)

definition new_handle :: "winsock \<Rightarrow> (NetError + handle) \<times> winsock \<Rightarrow> bool" where
  "new_handle w q = (case fst q of
     Inl e \<Rightarrow> balance w (snd q) {#}
   | Inr h \<Rightarrow> h \<noteq> INVALID_SOCKET \<and> balance w (snd q) {#h#})"

lemma adopt_balance:
  assumes "balance w w1 (if h = INVALID_SOCKET then {#} else {#h#})"
  shows "new_handle w (win_adopt h w1)"
proof (cases "h = INVALID_SOCKET")
  case False
  obtain r w2 where 1: "wsys (Wsa_fionbio h True) w1 = (r, w2)" by force
  have q: "balance w1 w2 {#}" using 1 by (rule balance_quiet) simp_all
  obtain r' w3 where 2: "wsys (Wsa_closesocket h) w2 = (r', w3)" by force
  have "balance w w3 {#}" using balance_release [of w w1 "{#}" h w2 w3] assms q False 2 by simp
  then show ?thesis
    using False assms balance_then [OF _ q, of w "{#h#}"]
    by (auto simp: win_adopt_def win_set_non_blocking_def new_handle_def 1 2 split: wsa_reply.splits)
qed (use assms in \<open>simp add: win_adopt_def new_handle_def\<close>)

lemma open_descriptor_balance: "new_handle w (win_open_descriptor family kind w)"
proof -
  obtain r w1 where 1: "wsys (Wsa_socket family kind) (wsa_runtime w) = (r, w1)" by force
  have "balance (wsa_runtime w) w1 (if reply_handle r = INVALID_SOCKET then {#} else {#reply_handle r#})"
    using wsys_event [OF 1] by (auto simp: balance_def)
  from balance_step [OF balance_runtime this] show ?thesis
    by (simp add: win_open_descriptor_def 1 adopt_balance)
qed

lemma dual_stack_balance: "new_handle w q \<Longrightarrow> new_handle w (win_dual_stack family q)"
proof -
  assume a: "new_handle w q"
  obtain x w1 where q: "q = (x, w1)" by (cases q)
  show ?thesis
  proof (cases x)
    case (Inr h)
    obtain r w2 where 2: "wsys (Wsa_setsockopt h (Ipv6_only False)) w1 = (r, w2)" by force
    have "balance w1 w2 {#}" using 2 by (rule balance_quiet) simp_all
    then show ?thesis using a balance_then [of w w1 "{#h#}" w2]
      by (simp add: new_handle_def win_dual_stack_def q Inr 2)
  qed (use a in \<open>simp add: new_handle_def win_dual_stack_def q\<close>)
qed

lemma accept_balance: "new_handle w (win_listener_accept h w)"
proof -
  obtain r w1 where 1: "wsys (Wsa_accept h) w = (r, w1)" by force
  have "balance w w1 (if reply_handle r = INVALID_SOCKET then {#} else {#reply_handle r#})"
    using wsys_event [OF 1] by (auto simp: balance_def)
  then show ?thesis by (simp add: win_listener_accept_def 1 adopt_balance)
qed

text \<open>The operations on an existing descriptor open and close nothing.\<close>

lemma balance_more:
  "wsys c w1 = (r, w2) \<Longrightarrow> balance w w1 H \<Longrightarrow> wsa_opened [(c, r)] = {#} \<Longrightarrow> wsa_closed [(c, r)] = {#} \<Longrightarrow>
    balance w w2 H"
  using balance_quiet [of c w1 r w2] balance_then [of w w1 H w2] by simp

lemma connect_balance: "balance w w1 H \<Longrightarrow> balance w (snd (win_socket_connect h a w1)) H"
  unfolding win_socket_connect_def
  by (auto split: prod.splits wsa_reply.splits intro: balance_more)

lemma listen_balance:
  assumes "balance w w1 H"
  shows "balance w (snd (win_listener_listen h a n w1)) H"
proof -
  obtain r1 w2 where 1: "wsys (Wsa_setsockopt h (Reuse_addr True)) w1 = (r1, w2)" by force
  obtain r2 w3 where 2: "wsys (Wsa_bind h (win_to_sockaddr a)) w2 = (r2, w3)" by force
  obtain r3 w4 where 3: "wsys (Wsa_listen h n) w3 = (r3, w4)" by force
  have b2: "balance w w2 H" using 1 assms by (rule balance_more) simp_all
  have b3: "balance w w3 H" using 2 b2 by (rule balance_more) simp_all
  have b4: "balance w w4 H" using 3 b3 by (rule balance_more) simp_all
  show ?thesis using assms b3 b4
    by (simp add: win_listener_listen_def 1 2 3 split: wsa_reply.splits)
qed

lemma local_address_balance: "balance w w1 H \<Longrightarrow> balance w (snd (win_listener_local_address h w1)) H"
  unfolding win_listener_local_address_def
  by (auto split: prod.splits wsa_reply.splits intro: balance_more)

lemma close_balance:
  "balance w w1 (H + {#h#}) \<Longrightarrow> h \<noteq> INVALID_SOCKET \<Longrightarrow> balance w (snd (win_socket_close h w1)) H"
  "balance w w1 (H + {#h#}) \<Longrightarrow> h \<noteq> INVALID_SOCKET \<Longrightarrow> balance w (snd (win_listener_close h w1)) H"
  using balance_release [OF _ balance_refl, of w w1 H h]
  by (simp_all add: win_socket_close_def win_is_open_def win_listener_close_def)

text \<open>What a function that owns the handles \<open>H\<close> at its start and destroys them promises.\<close>

definition new_pair :: "winsock \<Rightarrow> handle multiset \<Rightarrow> (NetError + handle \<times> handle) \<times> winsock \<Rightarrow> bool" where
  "new_pair w H q = (case fst q of
     Inl e \<Rightarrow> balance w (snd q) H
   | Inr (c, s) \<Rightarrow> c \<noteq> INVALID_SOCKET \<and> s \<noteq> INVALID_SOCKET \<and> balance w (snd q) (H + {#c, s#}))"

lemma new_handle_after:
  "new_handle w1 q \<Longrightarrow> balance w w1 H \<Longrightarrow> (case fst q of
     Inl e \<Rightarrow> balance w (snd q) H | Inr h \<Rightarrow> h \<noteq> INVALID_SOCKET \<and> balance w (snd q) (H + {#h#}))"
  using balance_then [of w w1 H "snd q"] balance_step [of w w1 H "snd q"]
  by (force simp: new_handle_def split: sum.splits)

lemma pair_connect_balance:
  assumes own: "balance w w1 (H + {#c#})" and c: "c \<noteq> INVALID_SOCKET"
  shows "new_pair w H (win_pair_connect l a c w1)"
proof -
  obtain r w2 where 1: "wsys (Wsa_fionbio c False) w1 = (r, w2)" by force
  have b2: "balance w w2 (H + {#c#})" using 1 own by (rule balance_more) simp_all
  obtain q w3 where 2: "win_socket_connect c a w2 = (q, w3)" by force
  have b3: "balance w w3 (H + {#c#})" using connect_balance [OF b2, of c a] by (simp add: 2)
  obtain q' w4 where 3: "win_listener_accept l w3 = (q', w4)" by force
  have b4: "case q' of Inl e \<Rightarrow> balance w w4 (H + {#c#})
      | Inr h \<Rightarrow> h \<noteq> INVALID_SOCKET \<and> balance w w4 (H + {#c#} + {#h#})"
    using new_handle_after [OF accept_balance b3, of l] unfolding 3 fst_conv snd_conv .
  show ?thesis
  proof (cases q)
    case (Inl e)
    then show ?thesis using close_balance(1) [OF b3 c] by (simp add: win_pair_connect_def 1 2 new_pair_def)
  next
    case q: (Inr u)
    show ?thesis
    proof (cases q')
      case (Inl e)
      then show ?thesis using close_balance(1) [OF _ c, of w w4 H] b4
        by (simp add: win_pair_connect_def 1 2 3 q new_pair_def)
    next
      case (Inr s)
      obtain r5 w5 where 5: "wsys (Wsa_fionbio c False) w4 = (r5, w5)" by force
      obtain r6 w6 where 6: "wsys (Wsa_fionbio s False) w5 = (r6, w6)" by force
      have "balance w w6 (H + {#c#} + {#s#})"
        using b4 Inr 5 by (auto intro!: balance_more [OF 6] balance_more [OF 5])
      then show ?thesis using b4 c Inr
        by (simp add: win_pair_connect_def 1 2 3 5 6 q new_pair_def add_mset_commute)
    qed
  qed
qed

lemma pair_listen_balance:
  assumes own: "balance w w1 {#l#}" and l: "l \<noteq> INVALID_SOCKET"
  shows "new_pair w {#} (win_pair_listen l w1)"
proof -
  have close: "balance w (snd (win_listener_close l w')) H" if "balance w w' (H + {#l#})" for w' H
    using close_balance(2) [OF that l] .
  obtain q w2 where 1: "win_listener_listen l (ipv4_address 127 0 0 1 0) 16 w1 = (q, w2)" by force
  have b2: "balance w w2 {#l#}" using listen_balance [OF own, of l "ipv4_address 127 0 0 1 0" 16] by (simp add: 1)
  obtain q' w3 where 2: "win_listener_local_address l w2 = (q', w3)" by force
  have b3: "balance w w3 {#l#}" using local_address_balance [OF b2, of l] by (simp add: 2)
  obtain q'' w4 where 3: "win_socket_create_tcp Ipv4 w3 = (q'', w4)" by force
  have b4: "case q'' of Inl e \<Rightarrow> balance w w4 {#l#}
      | Inr h \<Rightarrow> h \<noteq> INVALID_SOCKET \<and> balance w w4 ({#l#} + {#h#})"
    using new_handle_after [OF open_descriptor_balance b3, of Ipv4 Stream] 3
    unfolding win_socket_create_tcp_def by (simp split: sum.splits)
  show ?thesis
  proof (cases "(\<exists>e. q = Inl e) \<or> (\<exists>e. q' = Inl e) \<or> (\<exists>e. q'' = Inl e)")
    case True
    then show ?thesis using close [of w2 "{#}"] close [of w3 "{#}"] close [of w4 "{#}"] b2 b3 b4
      by (auto simp: win_pair_listen_def new_pair_def 1 2 3 split: sum.splits)
  next
    case False
    then obtain u a c where ok: "q = Inr u" "q' = Inr a" "q'' = Inr c" by (cases q; cases q'; cases q'') auto
    obtain x w5 where 4: "win_pair_connect l a c w4 = (x, w5)" by force
    have "new_pair w {#l#} (x, w5)"
      using pair_connect_balance [of w w4 "{#l#}" c l a] b4 ok by (simp add: 4)
    then show ?thesis using close [of w5]
      by (cases x) (auto simp: win_pair_listen_def new_pair_def 1 2 3 4 ok add_mset_commute)
  qed
qed

lemma make_pair_balance: "new_pair w {#} (win_make_socket_pair w)"
proof -
  obtain q w1 where 1: "win_listener_create_tcp Ipv4 (wsa_runtime w) = (q, w1)" by force
  have "new_handle (wsa_runtime w) (q, w1)"
    using dual_stack_balance [OF open_descriptor_balance, of "wsa_runtime w" Ipv4 Ipv4 Stream] 1
    by (simp add: win_listener_create_tcp_def)
  from new_handle_after [OF this balance_runtime] show ?thesis
    using pair_listen_balance [of w w1]
    by (cases q) (auto simp: win_make_socket_pair_def 1 new_pair_def balance_runtime)
qed

section \<open>Blocking modes\<close>

text \<open>The last \<open>FIONBIO\<close> request on a handle, and whether the system granted it.\<close>

fun last_fionbio :: "(wsa_call \<times> wsa_reply) list \<Rightarrow> handle \<Rightarrow> (bool \<times> bool) option" where
  "last_fionbio [] h = None"
| "last_fionbio ((Wsa_fionbio g b, r) # es) h =
     (case last_fionbio es h of
        Some x \<Rightarrow> Some x
      | None \<Rightarrow> if g = h then Some (b, case r of Wsa_failed _ \<Rightarrow> False | Wsa_done _ _ _ _ \<Rightarrow> True) else None)"
| "last_fionbio (_ # es) h = last_fionbio es h"

lemma last_fionbio_append:
  "last_fionbio (xs @ ys) h = (case last_fionbio ys h of Some x \<Rightarrow> Some x | None \<Rightarrow> last_fionbio xs h)"
  by (induction xs h rule: last_fionbio.induct) (auto split: option.splits)

lemma adopt_mode:
  "win_adopt h w = (Inr h', w') \<Longrightarrow> h' = h \<and> last_fionbio (ws_trace w') h = Some (True, True)"
  by (auto simp: win_adopt_def win_set_non_blocking_def last_fionbio_append
      split: if_splits prod.splits wsa_reply.splits dest!: wsys_event)

lemma open_descriptor_mode:
  "win_open_descriptor family kind w = (Inr h, w') \<Longrightarrow> last_fionbio (ws_trace w') h = Some (True, True)"
  by (auto simp: win_open_descriptor_def split: prod.splits dest!: adopt_mode)

lemma dual_stack_mode:
  assumes "win_dual_stack f (win_open_descriptor family kind w) = (Inr h, w')"
  shows "last_fionbio (ws_trace w') h = Some (True, True)"
proof (cases "win_open_descriptor family kind w")
  case (Pair q w1)
  then show ?thesis using assms open_descriptor_mode [of family kind w h w1]
    by (auto simp: win_dual_stack_def last_fionbio_append split: sum.splits if_splits prod.splits
        dest!: wsys_event)
qed

lemma pair_connect_mode:
  assumes "win_pair_connect l a c w = (Inr (c', s), w')"
  shows "\<exists>g g'. last_fionbio (ws_trace w') c' = Some (False, g) \<and> last_fionbio (ws_trace w') s = Some (False, g')"
  using assms
  by (auto simp: win_pair_connect_def last_fionbio_append split: prod.splits sum.splits wsa_reply.splits
      dest!: wsys_event)

lemma listener_close_mode: "last_fionbio (ws_trace (snd (win_listener_close l w))) h = last_fionbio (ws_trace w) h"
  by (cases "wsys (Wsa_closesocket l) w")
    (auto simp: win_listener_close_def last_fionbio_append dest!: wsys_event)

lemma make_pair_mode:
  assumes "win_make_socket_pair w = (Inr (c, s), w')"
  shows "\<exists>g g'. last_fionbio (ws_trace w') c = Some (False, g) \<and> last_fionbio (ws_trace w') s = Some (False, g')"
proof -
  obtain l w1 where "win_pair_listen l w1 = (Inr (c, s), w')"
    using assms by (auto simp: win_make_socket_pair_def split: prod.splits sum.splits)
  then obtain a k w2 w3 where "win_pair_connect l a k w2 = (Inr (c, s), w3)" "w' = snd (win_listener_close l w3)"
    by (auto simp: win_pair_listen_def split: prod.splits sum.splits)
  then show ?thesis using pair_connect_mode listener_close_mode by metis
qed

end
