(* ===== verification/Net_Poller_Windows.thy ===== *)
theory Net_Poller_Windows
  imports Net_Poller Net_Socket_Windows
begin

unbundle bit_operations_syntax

text \<open>
  The readiness poller on Windows (the first half of \<open>appwarrior/net/poller.cpp\<close>) over the
  system of \<open>Net_Socket_Windows\<close>.  The registration map is the one of \<open>Net_Poller\<close>,
  ordered by the unsigned handle.
\<close>

definition WIN_POLLERR :: int where "WIN_POLLERR = 0x0001"
definition WIN_POLLHUP :: int where "WIN_POLLHUP = 0x0002"
definition WIN_POLLNVAL :: int where "WIN_POLLNVAL = 0x0004"
definition WIN_POLLWRNORM :: int where "WIN_POLLWRNORM = 0x0010"
definition WIN_POLLOUT :: int where "WIN_POLLOUT = 0x0010"
definition WIN_POLLRDNORM :: int where "WIN_POLLRDNORM = 0x0100"
definition WIN_POLLIN :: int where "WIN_POLLIN = 0x0300"

definition win_to_poll_mask :: "PollInterest \<Rightarrow> int" where
  "win_to_poll_mask interest =
     (let mask = 0;
          mask = (if (poll_interest_value interest AND poll_interest_value Poll_read) \<noteq> 0
                  then mask OR WIN_POLLRDNORM else mask);
          mask = (if (poll_interest_value interest AND poll_interest_value Poll_write) \<noteq> 0
                  then mask OR WIN_POLLWRNORM else mask)
      in mask)"

definition win_poller_add :: "handle \<Rightarrow> PollInterest \<Rightarrow> handle poller \<Rightarrow> handle poller" where
  "win_poller_add descriptor interest p =
     p\<lparr> pl_interests := map_put descriptor (win_to_poll_mask interest) (pl_interests p) \<rparr>"

definition win_poller_remove :: "handle \<Rightarrow> handle poller \<Rightarrow> handle poller" where
  "win_poller_remove descriptor p = p\<lparr> pl_interests := map_erase descriptor (pl_interests p) \<rparr>"

definition win_poller_contains :: "handle \<Rightarrow> handle poller \<Rightarrow> bool" where
  "win_poller_contains descriptor p = (map_of (pl_interests p) descriptor \<noteq> None)"

definition win_poll_event_of :: "handle \<Rightarrow> int \<Rightarrow> handle poll_event" where
  "win_poll_event_of fd revents = \<lparr> pe_descriptor = fd,
     pe_readable = ((revents AND (WIN_POLLRDNORM OR WIN_POLLIN)) \<noteq> 0),
     pe_writable = ((revents AND (WIN_POLLWRNORM OR WIN_POLLOUT)) \<noteq> 0),
     pe_closed = ((revents AND (WIN_POLLHUP OR WIN_POLLERR OR WIN_POLLNVAL)) \<noteq> 0) \<rparr>"

text \<open>\<open>Sleep\<close> cannot fail and takes the low 32 bits of the milliseconds; \<open>WSAPoll\<close> takes
  them as a signed 32-bit number.\<close>

definition win_poller_wait ::
    "int \<Rightarrow> handle poller \<Rightarrow> winsock \<Rightarrow> (NetError + handle poll_event list) \<times> winsock" where
  "win_poller_wait timeout p w =
     (let descriptors = pl_interests p in
      if descriptors = [] then
        (Inr [], (snd (wsys (Wsa_sleep (if timeout < 0 then 0 else of_int timeout)) w))
           \<lparr> ws_last_error := ws_last_error w \<rparr>)
      else case wsys (Wsa_poll descriptors (signed_take_bit 31 timeout)) w of
             (Wsa_failed _, w1) \<Rightarrow>
               (let error = ws_last_error w1 in
                (if error = WSAEINTR then Inr [] else Inl net_system, w1))
           | (Wsa_done _ _ _ revents, w1) \<Rightarrow>
               (Inr (map (\<lambda>(fd, rev). win_poll_event_of fd rev)
                  (filter (\<lambda>(fd, rev). rev \<noteq> 0)
                    (zip (map fst descriptors) (revents @ replicate (length descriptors) 0)))), w1))"

section \<open>Lemmas\<close>

lemma pe_descriptor_win_poll_event_of [simp]: "pe_descriptor (win_poll_event_of fd rv) = fd"
  by (simp add: win_poll_event_of_def)

text \<open>A mask asks for what the interest names, and an event reports it back under the same name:
  a mask echoed by the system makes the event readable or writable as registered, not closed.\<close>

lemma win_mask_echo:
  "win_poll_event_of fd (win_to_poll_mask i) = \<lparr> pe_descriptor = fd,
     pe_readable = (i = Poll_read \<or> i = Poll_read_write),
     pe_writable = (i = Poll_write \<or> i = Poll_read_write), pe_closed = False \<rparr>"
  by (cases i) (simp_all add: win_poll_event_of_def win_to_poll_mask_def poll_interest_value_def
      WIN_POLLERR_def WIN_POLLHUP_def WIN_POLLNVAL_def WIN_POLLWRNORM_def WIN_POLLOUT_def
      WIN_POLLRDNORM_def WIN_POLLIN_def)

lemma posix_mask_echo:
  "poll_event_of fd (to_poll_mask i) = \<lparr> pe_descriptor = fd,
     pe_readable = (i = Poll_read \<or> i = Poll_read_write),
     pe_writable = (i = Poll_write \<or> i = Poll_read_write), pe_closed = False \<rparr>"
  by (cases i) (simp_all add: poll_event_of_def to_poll_mask_def poll_interest_value_def
      POLLERR_def POLLHUP_def POLLNVAL_def POLLOUT_def POLLIN_def)

section \<open>Properties\<close>

text \<open>The Windows poller is a map from handles to interests, the invalid handle included, and
  every event of a wait is about a registered handle, in ascending order.\<close>

theorem windows_poller:
  assumes "map_wf (pl_interests p)" and "win_poller_wait timeout p w = (r, w')"
  shows "map_wf (pl_interests (win_poller_add d i p)) \<and> map_wf (pl_interests (win_poller_remove d p)) \<and>
    map_of (pl_interests (win_poller_add d i p)) = (map_of (pl_interests p))(d \<mapsto> win_to_poll_mask i) \<and>
    map_of (pl_interests (win_poller_remove d p)) = (map_of (pl_interests p))(d := None) \<and>
    (\<forall>events. r = Inr events \<longrightarrow> sorted_wrt (<) (map pe_descriptor events) \<and>
      (\<forall>e\<in>set events. win_poller_contains (pe_descriptor e) p))"
proof -
  let ?ds = "pl_interests p"
  have shape: "events = [] \<or> (\<exists>rs. length ?ds \<le> length rs \<and> events =
      map (\<lambda>(fd, rev). win_poll_event_of fd rev) (filter (\<lambda>(fd, rev). rev \<noteq> 0) (zip (map fst ?ds) rs)))"
    if "r = Inr events" for events
    using assms(2) that
    by (force simp: win_poller_wait_def Let_def split: if_splits prod.splits wsa_reply.splits)
  have "sorted_wrt (<) (map pe_descriptor events) \<and>
      (\<forall>e\<in>set events. win_poller_contains (pe_descriptor e) p)" if "r = Inr events" for events
    using polled_events [OF assms(1) _ shape [OF that]] by (simp add: win_poller_contains_def)
  then show ?thesis
    using assms(1) by (simp add: win_poller_add_def win_poller_remove_def imap.wf_put imap.wf_del
        imap.look_put imap.look_del)
qed

text \<open>A negative timeout waits without limit, except on Windows when nothing is registered: there
  the wait returns at once, where the POSIX backend blocks.\<close>

theorem empty_wait_timeouts:
  assumes "-(2 ^ 31) \<le> t" and "t < 0"
  shows "kn_trace (snd (poller_wait t poller_new k)) = kn_trace k @ [(Call_poll [] t, fst (sys (Call_poll [] t) k))] \<and>
    ws_trace (snd (win_poller_wait t poller_new w)) = ws_trace w @ [(Wsa_sleep 0, fst (wsys (Wsa_sleep 0) w))]"
proof -
  have "signed_take_bit 31 t = t"
    using assms by (simp add: signed_take_bit_int_eq_self)
  moreover obtain r k1 where 1: "sys (Call_poll [] t) k = (r, k1)" by force
  moreover obtain q w1 where 2: "wsys (Wsa_sleep 0) w = (q, w1)" by force
  ultimately show ?thesis using sys_event [OF 1] wsys_event [OF 2] assms
    by (simp add: poller_wait_def win_poller_wait_def poller_new_def)
qed

end
