(* ===== verification/Net_Windows_Properties.thy ===== *)
theory Net_Windows_Properties
  imports Net_Poller_Windows
begin

text \<open>
  What the Windows sockets promise: no descriptor is lost, which handles are non-blocking, and that
  the two backends of \<open>socket.cpp\<close> give their callers the same answers when the two systems
  give the same ones.
\<close>

section \<open>The two backends\<close>

text \<open>An error and its namesake on Windows.  \<open>EPIPE\<close> has none.  Errors neither backend
  names are all reported alike, whatever their numbers.\<close>

definition same_error :: "errno \<Rightarrow> wsa_error \<Rightarrow> bool" where
  "same_error e e' \<longleftrightarrow> (e, e') \<in> {(EAGAIN, WSAEWOULDBLOCK), (EINPROGRESS, WSAEINPROGRESS), (EINTR, WSAEINTR),
       (ECONNRESET, WSAECONNRESET), (ENOTCONN, WSAENOTCONN), (ECONNREFUSED, WSAECONNREFUSED),
       (EADDRINUSE, WSAEADDRINUSE), (EINVAL, WSAEINVAL), (EAFNOSUPPORT, WSAEAFNOSUPPORT)}
     \<or> (\<exists>n m. e = Other_errno n \<and> e' = Other_wsa_error m)"

lemma same_error_reported: "same_error e e' \<Longrightarrow> win_from_error e' = from_error e"
  by (auto simp: same_error_def win_from_error_def from_error_def)

fun same_reply :: "sys_result \<Rightarrow> wsa_reply \<Rightarrow> bool" where
  "same_reply (Sys_error e) (Wsa_failed e') = same_error e e'"
| "same_reply (Sys_value n data a xs) (Wsa_done n' data' a' xs') = (n = n' \<and> data = data' \<and> a = a' \<and> xs = xs')"
| "same_reply r r' = False"

text \<open>The two systems, on a little-endian host as Windows runs on, are going to answer alike, and two
  calls have answered alike.\<close>

definition mirrors :: "kernel \<Rightarrow> winsock \<Rightarrow> bool" where
  "mirrors k w \<longleftrightarrow> kn_little_endian k \<and> list_all2 same_reply (kn_script k) (ws_script w)"

definition agree :: "'a \<times> kernel \<Rightarrow> 'a \<times> winsock \<Rightarrow> bool" where
  "agree q q' \<longleftrightarrow> fst q = fst q' \<and> mirrors (snd q) (snd q')"

text \<open>One call on each side fails on both, with errors reported alike, or succeeds on both.\<close>

lemma matched_call:
  assumes "mirrors k w"
  obtains (failed) e e' k1 w1 where "sys c k = (Sys_error e, k1)" "wsys c' w = (Wsa_failed e', w1)"
    "ws_last_error w1 = e'" "win_from_error e' = from_error e" "mirrors k1 w1"
  | (success) n data a xs k1 w1 where "sys c k = (Sys_value n data a xs, k1)"
    "wsys c' w = (Wsa_done n data a xs, w1)" "mirrors k1 w1"
proof (cases "kn_script k")
  case Nil
  then show ?thesis using assms failed [of EAGAIN _ WSAEWOULDBLOCK]
    by (simp add: mirrors_def sys_def wsys_def same_error_reported same_error_def)
next
  case (Cons r rs)
  then obtain r' rs' where "ws_script w = r' # rs'" "same_reply r r'" "list_all2 same_reply rs rs'"
    using assms by (auto simp: mirrors_def list_all2_Cons1)
  then show ?thesis using assms Cons failed success
    by (cases "(r, r')" rule: same_reply.cases) (simp_all add: mirrors_def sys_def wsys_def same_error_reported)
qed

lemma agree_same: "mirrors k w \<Longrightarrow> agree (x, k) (x, w)"
  by (simp add: agree_def)

lemma win_sockaddr_posix:
  "win_to_sockaddr a = to_sockaddr True a" "win_from_sockaddr s = from_sockaddr True s"
  by (simp_all add: win_to_sockaddr_def to_sockaddr_def win_from_sockaddr_def from_sockaddr_def)

lemma c_int_size_small: "n < 2 ^ 31 \<Longrightarrow> c_int_size n = int n"
  by (simp add: c_int_size_def signed_take_bit_int_eq_self)

lemma handle_of_int_invalid:
  assumes "-1 \<le> s" and "s < 2 ^ 31"
  shows "(of_int s :: handle) = INVALID_SOCKET \<longleftrightarrow> s = kInvalid"
proof -
  have "(of_int s :: handle) = INVALID_SOCKET \<longleftrightarrow> (word_of_int s :: handle) = word_of_int (-1)"
    by (simp add: INVALID_SOCKET_def)
  also have "\<dots> \<longleftrightarrow> take_bit 64 s = take_bit 64 (-1)"
    unfolding word_of_int_eq_iff by simp
  also have "\<dots> \<longleftrightarrow> s = -1"
    using assms by (cases "s = -1") (simp_all add: take_bit_int_eq_self mask_eq_exp_minus_1)
  finally show ?thesis by (simp add: kInvalid_def)
qed

lemma handle_is_open:
  "-1 \<le> s \<Longrightarrow> s < 2 ^ 31 \<Longrightarrow> win_is_open (of_int s) \<longleftrightarrow> socket_is_open s"
  by (simp add: win_is_open_def socket_is_open_def handle_of_int_invalid)

text \<open>Every operation on a socket, one by one.\<close>

definition same_socket :: "socket \<Rightarrow> kernel \<Rightarrow> winsock \<Rightarrow> bool" where
  "same_socket s k w \<longleftrightarrow> mirrors k w \<and> -1 \<le> s \<and> s < 2 ^ 31"

lemma same_socketD:
  assumes "same_socket s k w"
  shows "win_is_open (of_int s) \<longleftrightarrow> socket_is_open s" "(of_int s :: handle) = INVALID_SOCKET \<longleftrightarrow> s = kInvalid"
    "mirrors k w" "kn_little_endian k"
  using assms handle_is_open handle_of_int_invalid by (simp_all add: same_socket_def mirrors_def)

lemma send_agrees:
  assumes "same_socket s k w" and "length buffer < 2 ^ 31"
  shows "agree (socket_send s buffer k) (win_socket_send (of_int s) buffer w)"
  by (rule matched_call [OF same_socketD(3) [OF assms(1)],
        of "Call_send s buffer" "Wsa_send (of_int s) buffer (int (length buffer))"])
    (use assms(2) in \<open>auto simp: socket_send_def win_socket_send_def same_socketD [OF assms(1)] agree_def c_int_size_small\<close>)

lemma receive_agrees:
  assumes "same_socket s k w" and "n < 2 ^ 31"
  shows "agree (socket_receive s n k) (win_socket_receive (of_int s) n w)"
  by (rule matched_call [OF same_socketD(3) [OF assms(1)],
        of "Call_recv s n" "Wsa_recv (of_int s) (int n)"])
    (use assms(2) in \<open>auto simp: socket_receive_def win_socket_receive_def same_socketD [OF assms(1)] agree_def Let_def c_int_size_small\<close>)

lemma send_to_agrees:
  assumes "same_socket s k w" and "length buffer < 2 ^ 31"
  shows "agree (socket_send_to s a buffer k) (win_socket_send_to (of_int s) a buffer w)"
  by (rule matched_call [OF same_socketD(3) [OF assms(1)],
        of "Call_sendto s buffer (to_sockaddr True a)" "Wsa_sendto (of_int s) buffer (int (length buffer)) (to_sockaddr True a)"])
    (use assms(2) in \<open>auto simp: socket_send_to_def win_socket_send_to_def same_socketD [OF assms(1)] agree_def win_sockaddr_posix c_int_size_small\<close>)

lemma receive_from_agrees:
  assumes "same_socket s k w" and "n < 2 ^ 31"
  shows "agree (socket_receive_from s n k) (win_socket_receive_from (of_int s) n w)"
  by (rule matched_call [OF same_socketD(3) [OF assms(1)],
        of "Call_recvfrom s n" "Wsa_recvfrom (of_int s) (int n)"])
    (use assms(2) in \<open>auto simp: socket_receive_from_def win_socket_receive_from_def same_socketD [OF assms(1)] agree_def win_sockaddr_posix c_int_size_small\<close>)

lemma bind_agrees:
  assumes "same_socket s k w"
  shows "agree (socket_bind s a k) (win_socket_bind (of_int s) a w)"
  by (rule matched_call [OF same_socketD(3) [OF assms(1)],
        of "Call_bind s (to_sockaddr True a)" "Wsa_bind (of_int s) (to_sockaddr True a)"])
    (auto simp: socket_bind_def win_socket_bind_def same_socketD [OF assms(1)] agree_def win_sockaddr_posix)

lemma connect_agrees:
  assumes "same_socket s k w"
  shows "agree (socket_connect s a k) (win_socket_connect (of_int s) a w)"
  by (rule matched_call [OF same_socketD(3) [OF assms(1)],
        of "Call_connect s (to_sockaddr True a)" "Wsa_connect (of_int s) (to_sockaddr True a)"])
    (auto simp: socket_connect_def win_socket_connect_def same_socketD [OF assms(1)] agree_def win_sockaddr_posix)

lemma local_address_agrees:
  assumes "same_socket s k w"
  shows "agree (socket_local_address s k) (win_socket_local_address (of_int s) w)"
  by (rule matched_call [OF same_socketD(3) [OF assms(1)],
        of "Call_getsockname s" "Wsa_getsockname (of_int s)"])
    (auto simp: socket_local_address_def win_socket_local_address_def same_socketD [OF assms(1)] agree_def win_sockaddr_posix)

text \<open>The failure of an option is ignored on both sides; what follows still meets systems that
  answer alike.\<close>

lemma listen_agrees:
  assumes "same_socket s k w"
  shows "agree (listener_listen s a backlog k) (win_listener_listen (of_int s) a backlog w)"
proof (cases "s = kInvalid \<or> backlog < 1")
  case True
  then show ?thesis using same_socketD [OF assms]
    by (auto simp: listener_listen_def win_listener_listen_def agree_def)
next
  case False
  obtain r k1 where 1: "sys (Call_setsockopt s (Reuse_addr True)) k = (r, k1)" by force
  obtain q w1 where 2: "wsys (Wsa_setsockopt (of_int s) (Reuse_addr True)) w = (q, w1)" by force
  have m: "mirrors k1 w1"
    by (rule matched_call [OF same_socketD(3) [OF assms],
          of "Call_setsockopt s (Reuse_addr True)" "Wsa_setsockopt (of_int s) (Reuse_addr True)"])
      (use 1 2 in auto)
  have le: "kn_little_endian k" by (rule same_socketD(4) [OF assms])
  show ?thesis
  proof (rule matched_call [OF m, of "Call_bind s (to_sockaddr True a)" "Wsa_bind (of_int s) (to_sockaddr True a)"],
      goal_cases)
    case (1 e k2 w2)
    then show ?case using False same_socketD(2) [OF assms] le \<open>sys (Call_setsockopt _ _) _ = _\<close> 2
      by (simp add: listener_listen_def win_listener_listen_def win_sockaddr_posix agree_def)
  next
    case (2 n data b xs k2 w2)
    show ?case
      by (rule matched_call [OF 2(3), of "Call_listen s backlog" "Wsa_listen (of_int s) backlog"])
        (use False same_socketD(2) [OF assms] le 2(1,2) \<open>sys (Call_setsockopt _ _) _ = _\<close>
          \<open>wsys (Wsa_setsockopt _ _) _ = _\<close> in
          \<open>simp_all add: listener_listen_def win_listener_listen_def win_sockaddr_posix agree_def\<close>)
  qed
qed

section \<open>Properties\<close>

text \<open>The two backends agree: on an open or closed socket, with the same arguments and with systems
  that are about to answer alike, every operation that transfers data, names an address or prepares
  a listener returns the same result and leaves systems that answer alike.\<close>

theorem backends_agree:
  assumes "mirrors k w" and "-1 \<le> s" and "s < 2 ^ 31"
    and "length buffer < 2 ^ 31" and "n < 2 ^ 31"
  shows "agree (socket_send s buffer k) (win_socket_send (of_int s) buffer w)
    \<and> agree (socket_receive s n k) (win_socket_receive (of_int s) n w)
    \<and> agree (socket_send_to s a buffer k) (win_socket_send_to (of_int s) a buffer w)
    \<and> agree (socket_receive_from s n k) (win_socket_receive_from (of_int s) n w)
    \<and> agree (socket_bind s a k) (win_socket_bind (of_int s) a w)
    \<and> agree (socket_connect s a k) (win_socket_connect (of_int s) a w)
    \<and> agree (listener_listen s a backlog k) (win_listener_listen (of_int s) a backlog w)
    \<and> agree (socket_local_address s k) (win_socket_local_address (of_int s) w)"
proof -
  have "same_socket s k w" using assms(1-3) by (simp add: same_socket_def)
  then show ?thesis
    using assms(4,5) by (simp add: send_agrees receive_agrees send_to_agrees receive_from_agrees
        bind_agrees connect_agrees local_address_agrees listen_agrees)
qed

theorem backends_agree_witness:
  "let k = \<lparr> kn_little_endian = True, kn_script = [Sys_error ECONNRESET], kn_trace = [] \<rparr>;
       w = \<lparr> ws_script = [Wsa_failed WSAECONNRESET], ws_trace = [], ws_last_error = WSAEINVAL, ws_started = True \<rparr>
   in fst (win_socket_send 3 [1, 2, 3] w) = fst (socket_send 3 [1, 2, 3] k)"
proof -
  let ?k = "\<lparr> kn_little_endian = True, kn_script = [Sys_error ECONNRESET], kn_trace = [] \<rparr>"
  let ?w = "\<lparr> ws_script = [Wsa_failed WSAECONNRESET], ws_trace = [], ws_last_error = WSAEINVAL, ws_started = True \<rparr>"
  have "mirrors ?k ?w" by (simp add: mirrors_def same_error_def)
  from backends_agree [OF this, of 3 "[1, 2, 3]" 4] show ?thesis by (simp add: agree_def)
qed

text \<open>No Windows constructor leaks a handle: whatever WinSock answers, a call that succeeds leaves
  exactly the handles it returns open, and one that fails none; the loopback pair, which opens up to
  three handles on the way, included.\<close>

theorem windows_handles_accounted:
  "new_handle w (win_socket_create_tcp family w) \<and> new_handle w (win_socket_create_udp family w) \<and>
   new_handle w (win_listener_create_tcp family w) \<and> new_handle w (win_listener_accept l w) \<and>
   new_pair w {#} (win_make_socket_pair w)"
  by (simp add: win_socket_create_tcp_def win_socket_create_udp_def win_listener_create_tcp_def
      open_descriptor_balance dual_stack_balance accept_balance make_pair_balance)

text \<open>C40: Every socket and listener made on Windows was switched to non-blocking last, and the system
  granted it, except the two ends of a socket pair: the last request made for either of them is to
  block.\<close>

theorem windows_handle_modes:
  "(win_socket_create_tcp family w = (Inr h, w') \<longrightarrow> last_fionbio (ws_trace w') h = Some (True, True)) \<and>
   (win_socket_create_udp family w = (Inr h, w') \<longrightarrow> last_fionbio (ws_trace w') h = Some (True, True)) \<and>
   (win_listener_create_tcp family w = (Inr h, w') \<longrightarrow> last_fionbio (ws_trace w') h = Some (True, True)) \<and>
   (win_listener_accept l w = (Inr h, w') \<longrightarrow> last_fionbio (ws_trace w') h = Some (True, True)) \<and>
   (win_make_socket_pair w = (Inr (c, s), w') \<longrightarrow>
      (\<exists>g g'. last_fionbio (ws_trace w') c = Some (False, g) \<and> last_fionbio (ws_trace w') s = Some (False, g')))"
  using open_descriptor_mode [of family Stream w h w'] dual_stack_mode [of family family Stream w h w']
    dual_stack_mode [of family family Dgram w h w'] make_pair_mode [of w c s w']
  by (auto simp: win_socket_create_tcp_def win_socket_create_udp_def win_listener_create_tcp_def
      win_listener_accept_def split: prod.splits dest!: adopt_mode)

text \<open>A pair made by a system that grants everything, with the listener 10 and the ends 11 and 12.\<close>

definition granted :: wsa_reply where
  "granted = Wsa_done 0 [] (Sockaddr_in 0 0) []"

definition handle_reply :: "nat \<Rightarrow> wsa_reply" where
  "handle_reply h = Wsa_done h [] (Sockaddr_in 0 0) []"

definition obliging :: winsock where
  "obliging = \<lparr> ws_script = [granted, handle_reply 10, granted, granted, granted, granted, granted,
       handle_reply 11, granted, granted, granted, handle_reply 12, granted, granted, granted, granted],
     ws_trace = [], ws_last_error = WSAEINVAL, ws_started = False \<rparr>"

lemma obliging_pair: "fst (win_make_socket_pair obliging) = Inr (11, 12)"
  by (simp add: obliging_def granted_def handle_reply_def win_make_socket_pair_def wsa_runtime_def wsys_def
      win_listener_create_tcp_def win_open_descriptor_def win_adopt_def reply_handle_def INVALID_SOCKET_def
      win_set_non_blocking_def win_dual_stack_def win_pair_listen_def win_listener_listen_def
      win_listener_local_address_def win_socket_create_tcp_def win_pair_connect_def win_socket_connect_def
      win_is_open_def win_listener_accept_def win_listener_close_def)

theorem windows_handle_modes_witness:
  "\<exists>g. last_fionbio (ws_trace (snd (win_make_socket_pair obliging))) 12 = Some (False, g)"
  using windows_handle_modes [of Ipv4 obliging _ "snd (win_make_socket_pair obliging)" 0 11 12] obliging_pair
  by (metis prod.collapse)

end
