(* ===== verification/Net_Sessions.thy ===== *)
theory Net_Sessions
  imports Net_Windows_Properties
begin

text \<open>
  Whole uses of a socket on the two backends of \<open>socket.cpp\<close>.  A client is a strategy: a function
  from what it has seen so far to what it does next.  The one-step agreement of the operations is
  lifted to all strategies and all lengths by a simulation.
\<close>

section \<open>Uses and observations\<close>

text \<open>The operations of a \<open>Socket\<close> and the listening of a \<open>Listener\<close>, and what their
  caller sees of them.\<close>

datatype socket_use =
    Use_send bytes
  | Use_receive nat
  | Use_send_to ip_address bytes
  | Use_receive_from nat
  | Use_bind ip_address
  | Use_connect ip_address
  | Use_listen ip_address int
  | Use_local_address
  | Use_remote_address
  | Use_no_delay bool
  | Use_shutdown
  | Use_close
  | Use_is_open

datatype seen =
    Seen_count "NetError + nat"
  | Seen_bytes "NetError + bytes"
  | Seen_datagram "NetError + bytes \<times> ip_address"
  | Seen_done "NetError + unit"
  | Seen_address "NetError + ip_address"
  | Seen_open bool
  | Seen_nothing

definition observe :: "('a \<Rightarrow> seen) \<Rightarrow> 'h \<Rightarrow> 'a \<times> 's \<Rightarrow> seen \<times> 'h \<times> 's" where
  "observe f h r = (f (fst r), h, snd r)"

definition posix_use :: "socket_use \<Rightarrow> socket \<times> kernel \<Rightarrow> seen \<times> socket \<times> kernel" where
  "posix_use u = (\<lambda>(s, k). case u of
     Use_send bs \<Rightarrow> observe Seen_count s (socket_send s bs k)
   | Use_receive n \<Rightarrow> observe Seen_bytes s (socket_receive s n k)
   | Use_send_to a bs \<Rightarrow> observe Seen_count s (socket_send_to s a bs k)
   | Use_receive_from n \<Rightarrow> observe Seen_datagram s (socket_receive_from s n k)
   | Use_bind a \<Rightarrow> observe Seen_done s (socket_bind s a k)
   | Use_connect a \<Rightarrow> observe Seen_done s (socket_connect s a k)
   | Use_listen a backlog \<Rightarrow> observe Seen_done s (listener_listen s a backlog k)
   | Use_local_address \<Rightarrow> observe Seen_address s (socket_local_address s k)
   | Use_remote_address \<Rightarrow> observe Seen_address s (socket_remote_address s k)
   | Use_no_delay enabled \<Rightarrow> (Seen_nothing, s, socket_set_tcp_no_delay s enabled k)
   | Use_shutdown \<Rightarrow> (Seen_nothing, s, socket_shutdown s k)
   | Use_close \<Rightarrow> (Seen_nothing, socket_close s k)
   | Use_is_open \<Rightarrow> (Seen_open (socket_is_open s), s, k))"

definition windows_use :: "socket_use \<Rightarrow> handle \<times> winsock \<Rightarrow> seen \<times> handle \<times> winsock" where
  "windows_use u = (\<lambda>(h, w). case u of
     Use_send bs \<Rightarrow> observe Seen_count h (win_socket_send h bs w)
   | Use_receive n \<Rightarrow> observe Seen_bytes h (win_socket_receive h n w)
   | Use_send_to a bs \<Rightarrow> observe Seen_count h (win_socket_send_to h a bs w)
   | Use_receive_from n \<Rightarrow> observe Seen_datagram h (win_socket_receive_from h n w)
   | Use_bind a \<Rightarrow> observe Seen_done h (win_socket_bind h a w)
   | Use_connect a \<Rightarrow> observe Seen_done h (win_socket_connect h a w)
   | Use_listen a backlog \<Rightarrow> observe Seen_done h (win_listener_listen h a backlog w)
   | Use_local_address \<Rightarrow> observe Seen_address h (win_socket_local_address h w)
   | Use_remote_address \<Rightarrow> observe Seen_address h (win_socket_remote_address h w)
   | Use_no_delay enabled \<Rightarrow> (Seen_nothing, h, win_socket_set_tcp_no_delay h enabled w)
   | Use_shutdown \<Rightarrow> (Seen_nothing, h, win_socket_shutdown h w)
   | Use_close \<Rightarrow> (Seen_nothing, win_socket_close h w)
   | Use_is_open \<Rightarrow> (Seen_open (win_is_open h), h, w))"

text \<open>A client in a dialogue of \<open>n\<close> rounds with a machine.\<close>

fun dialogue :: "('u \<Rightarrow> 's \<Rightarrow> 'o \<times> 's) \<Rightarrow> ('o list \<Rightarrow> 'u) \<Rightarrow> nat \<Rightarrow> 'o list \<Rightarrow> 's \<Rightarrow> 'o list \<times> 's" where
  "dialogue machine client 0 seen s = (seen, s)"
| "dialogue machine client (Suc n) seen s =
     (let (ob, s') = machine (client seen) s in dialogue machine client n (seen @ [ob]) s')"

section \<open>Two machines behave alike\<close>

locale alike =
  fixes left :: "'u \<Rightarrow> 's \<Rightarrow> 'o \<times> 's" and right :: "'u \<Rightarrow> 't \<Rightarrow> 'o \<times> 't"
    and related :: "'s \<Rightarrow> 't \<Rightarrow> bool" and admissible :: "'u \<Rightarrow> bool"
  assumes one_round: "related s t \<Longrightarrow> admissible u \<Longrightarrow>
    fst (left u s) = fst (right u t) \<and> related (snd (left u s)) (snd (right u t))"
begin

lemma dialogues_alike:
  assumes "\<forall>seen. admissible (client seen)" and "related s t"
  shows "fst (dialogue left client n seen s) = fst (dialogue right client n seen t) \<and>
    related (snd (dialogue left client n seen s)) (snd (dialogue right client n seen t))"
  using assms(2)
proof (induction n arbitrary: seen s t)
  case (Suc n)
  then show ?case using one_round [OF Suc.prems, of "client seen"] assms(1)
    by (auto simp: split_beta)
qed simp

end

section \<open>The two backends\<close>

text \<open>The same descriptor, on systems that are going to answer alike.\<close>

definition same_state :: "socket \<times> kernel \<Rightarrow> handle \<times> winsock \<Rightarrow> bool" where
  "same_state = (\<lambda>(s, k) (h, w). h = of_int s \<and> same_socket s k w)"

text \<open>Windows takes the size of a buffer as an \<open>int\<close>.\<close>

definition int_sized :: "socket_use \<Rightarrow> bool" where
  "int_sized u = (case u of Use_send bs \<Rightarrow> length bs < 2 ^ 31 | Use_send_to _ bs \<Rightarrow> length bs < 2 ^ 31
     | Use_receive n \<Rightarrow> n < 2 ^ 31 | Use_receive_from n \<Rightarrow> n < 2 ^ 31 | _ \<Rightarrow> True)"

lemma remote_address_agrees:
  assumes "same_socket s k w"
  shows "agree (socket_remote_address s k) (win_socket_remote_address (of_int s) w)"
  by (rule matched_call [OF same_socketD(3) [OF assms(1)],
        of "Call_getpeername s" "Wsa_getpeername (of_int s)"])
    (auto simp: socket_remote_address_def win_socket_remote_address_def same_socketD [OF assms(1)] agree_def win_sockaddr_posix)

text \<open>A call whose answer is ignored.\<close>

lemma ignored_call:
  assumes "mirrors k w"
  shows "mirrors (snd (sys c k)) (snd (wsys c' w))"
  by (rule matched_call [OF assms, of c c']) auto

definition same_step :: "seen \<times> socket \<times> kernel \<Rightarrow> seen \<times> handle \<times> winsock \<Rightarrow> bool" where
  "same_step r r' \<longleftrightarrow> fst r = fst r' \<and> same_state (snd r) (snd r')"

lemma same_step_observe:
  "same_socket s k w \<Longrightarrow> agree q q' \<Longrightarrow> same_step (observe f s q) (observe f (of_int s) q')"
  by (simp add: observe_def agree_def same_step_def same_state_def same_socket_def)

lemma same_step_silent:
  "same_socket s k w \<Longrightarrow> same_step (x, s, snd (sys c k)) (x, of_int s, snd (wsys c' w))"
  "same_socket s k w \<Longrightarrow> same_step (x, s, k) (x, of_int s, w)"
  "same_socket s k w \<Longrightarrow> same_step (x, kInvalid, snd (sys c k)) (x, INVALID_SOCKET, snd (wsys c' w))"
  using ignored_call [of k w c c']
  by (simp_all add: same_step_def same_state_def same_socket_def kInvalid_def INVALID_SOCKET_def)

lemmas operations_agree = send_agrees receive_agrees send_to_agrees receive_from_agrees bind_agrees
  connect_agrees listen_agrees local_address_agrees remote_address_agrees

lemmas silent_operations = socket_set_tcp_no_delay_def win_socket_set_tcp_no_delay_def
  socket_shutdown_def win_socket_shutdown_def socket_close_def win_socket_close_def

lemma uses_agree:
  assumes "same_socket s k w" and "int_sized u"
  shows "same_step (posix_use u (s, k)) (windows_use u (of_int s, w))"
  using assms(2)
  by (cases u; cases "socket_is_open s") (simp_all only: posix_use_def windows_use_def int_sized_def silent_operations
      socket_use.case prod.case if_True if_False same_step_observe [OF assms(1)] operations_agree [OF assms(1)]
      same_step_silent [OF assms(1)] same_socketD(1) [OF assms(1)] simp_thms)

interpretation backends: alike posix_use windows_use same_state int_sized
proof
  fix p q u
  assume "same_state p q" and "int_sized u"
  then show "fst (posix_use u p) = fst (windows_use u q) \<and> same_state (snd (posix_use u p)) (snd (windows_use u q))"
    using uses_agree [of "fst p" "snd p" "snd q" u]
    by (simp add: same_state_def same_step_def split: prod.splits)
qed

section \<open>The pair of the POSIX backend\<close>

definition pair_accounts :: "(NetError + socket \<times> socket) \<times> kernel \<Rightarrow> kernel \<Rightarrow> bool" where
  "pair_accounts r k \<longleftrightarrow> (\<exists>d. kn_trace (snd r) = kn_trace k @ d \<and>
     (case fst r of Inr (a, b) \<Rightarrow> opened d = [a, b] \<and> closed d = [] | Inl e \<Rightarrow> opened d = closed d))"

lemma posix_pair_accounts: "pair_accounts (make_socket_pair k) k"
proof -
  obtain r k1 where 1: "sys Call_socketpair k = (r, k1)" by force
  show ?thesis
  proof (cases r)
    case (Sys_error e)
    with sys_event [OF 1] show ?thesis by (simp add: pair_accounts_def make_socket_pair_def 1)
  next
    case (Sys_value d0 x y ds)
    let ?a = "int d0" and ?b = "hd (ds @ [-1])"
    obtain q k2 where 2: "set_non_blocking ?a k1 = (q, k2)" by force
    obtain p k3 where 3: "set_non_blocking ?b k2 = (p, k3)" by force
    have close: "\<exists>d. kn_trace (snd (sys (Call_close ?b) (snd (sys (Call_close ?a) k')))) = kn_trace k' @ d
        \<and> opened d = [] \<and> closed d = [?a, ?b]" for k'
    proof -
      obtain u k4 where 4: "sys (Call_close ?a) k' = (u, k4)" by force
      obtain v k5 where 5: "sys (Call_close ?b) k4 = (v, k5)" by force
      show ?thesis using sys_event [OF 4] sys_event [OF 5] by (simp add: 4 5)
    qed
    show ?thesis
      using set_non_blocking_event [OF 2] set_non_blocking_event [OF 3] sys_event [OF 1] Sys_value
        close [of k2] close [of k3]
      by (cases q; cases p) (auto simp: pair_accounts_def make_socket_pair_def 1 2 3 Let_def split_beta)
  qed
qed

section \<open>Properties\<close>

text \<open>C38: On a little-endian host and with buffers of less than 2 GiB, the size an \<open>int\<close> can hold, no
  client can tell the two backends apart: whatever strategy it follows, deciding each use of the
  socket by all it has seen so far, on two systems that give the same values and fail with errors
  of the same name it sees the same results round for round; and in the end the socket is open on
  both sides or on neither.  \<open>EPIPE\<close>, which WinSock does not have, does not occur.\<close>

theorem backends_indistinguishable:
  assumes "mirrors k w" and "-1 \<le> s" and "s < 2 ^ 31" and "\<forall>seen. int_sized (client seen)"
    and "dialogue posix_use client n [] (s, k) = (seen, s', k')"
    and "dialogue windows_use client n [] (of_int s, w) = (seen', h', w')"
  shows "seen = seen' \<and> h' = of_int s' \<and> (socket_is_open s' \<longleftrightarrow> win_is_open h') \<and> mirrors k' w'"
proof -
  have "same_state (s, k) (of_int s, w)" using assms(1-3) by (simp add: same_state_def same_socket_def)
  from backends.dialogues_alike [OF assms(4) this, of n "[]"]
  have "seen = seen'" "h' = of_int s'" "same_socket s' k' w'" by (simp_all add: assms(5,6) same_state_def)
  then show ?thesis using same_socketD(1,3) [of s' k' w'] by simp
qed

text \<open>A client that sends until it fails and then closes; the peer resets the connection.\<close>

definition persistent :: "seen list \<Rightarrow> socket_use" where
  "persistent seen = (case rev seen of Seen_count (Inl _) # _ \<Rightarrow> Use_close | Seen_nothing # _ \<Rightarrow> Use_is_open
     | _ \<Rightarrow> Use_send [1, 2, 3])"

theorem backends_indistinguishable_witness:
  "let w = \<lparr> ws_script = [Wsa_done 2 [] (Sockaddr_in 0 0) [], Wsa_failed WSAECONNRESET], ws_trace = [],
         ws_last_error = WSAEINVAL, ws_started = True \<rparr>
   in fst (dialogue windows_use persistent 4 [] (5, w))
     = [Seen_count (Inr 2), Seen_count (Inl connection_closed), Seen_nothing, Seen_open False]"
proof -
  let ?k = "\<lparr> kn_little_endian = True, kn_script = [Sys_value 2 [] (Sockaddr_in 0 0) [], Sys_error ECONNRESET],
    kn_trace = [] \<rparr>"
  let ?w = "\<lparr> ws_script = [Wsa_done 2 [] (Sockaddr_in 0 0) [], Wsa_failed WSAECONNRESET], ws_trace = [],
         ws_last_error = WSAEINVAL, ws_started = True \<rparr>"
  have m: "mirrors ?k ?w" by (simp add: mirrors_def same_error_def)
  have c: "\<forall>seen. int_sized (persistent seen)"
    by (auto simp: persistent_def int_sized_def split: list.splits seen.splits sum.splits)
  obtain seen s' k' where p: "dialogue posix_use persistent 4 [] (5, ?k) = (seen, s', k')"
    by (cases "dialogue posix_use persistent 4 [] (5, ?k)") auto
  obtain seen' h' w' where q: "dialogue windows_use persistent 4 [] (of_int 5, ?w) = (seen', h', w')"
    by (cases "dialogue windows_use persistent 4 [] (of_int 5, ?w)") auto
  have "seen = [Seen_count (Inr 2), Seen_count (Inl connection_closed), Seen_nothing, Seen_open False]"
    using p by (simp add: numeral_eq_Suc persistent_def posix_use_def observe_def socket_send_def sys_def
        socket_is_open_def kInvalid_def from_error_def socket_close_def)
  moreover have "seen = seen'" using backends_indistinguishable [OF m _ _ c p q] by simp
  ultimately show ?thesis using q by simp
qed

text \<open>C36: No constructor of a socket or listener leaks a descriptor on either backend: whatever the system
  answers, a call that succeeds leaves exactly the descriptors it returns open, and one that fails
  none.  This includes the socket pair of POSIX and the loopback pair of Windows, which opens up to
  three handles on the way and has six early returns.\<close>

theorem constructors_leak_nothing:
  "accounts (socket_create_tcp family k) k \<and> accounts (socket_create_udp family k) k \<and>
   accounts (listener_create_tcp family k) k \<and> accounts (listener_accept s k) k \<and>
   pair_accounts (make_socket_pair k) k \<and> new_handle w (win_socket_create_tcp family w) \<and> new_handle w (win_socket_create_udp family w) \<and>
   new_handle w (win_listener_create_tcp family w) \<and> new_handle w (win_listener_accept l w) \<and>
   new_pair w {#} (win_make_socket_pair w)"
  using descriptors_accounted [of family k s] windows_handles_accounted [of w family l]
    posix_pair_accounts [of k] by blast

end
