(* ===== verification/Poller_Histories.thy ===== *)
theory Poller_Histories
  imports Net_Poller_Windows
begin

text \<open>
  A poller over its whole life, on both backends of \<open>poller.cpp\<close>: the registrations made so far are
  a list, and what counts of a descriptor is its last registration.
\<close>

datatype 'h registration =
    Register 'h PollInterest
  | Unregister 'h

definition registered :: "'h registration list \<Rightarrow> 'h \<Rightarrow> PollInterest option" where
  "registered rs = foldl (\<lambda>m r. case r of Register d i \<Rightarrow> m(d \<mapsto> i) | Unregister d \<Rightarrow> m(d := None)) (\<lambda>_. None) rs"

definition posix_poller :: "int registration list \<Rightarrow> int poller" where
  "posix_poller rs = foldl (\<lambda>p r. case r of Register d i \<Rightarrow> poller_add d i p | Unregister d \<Rightarrow> poller_remove d p)
     poller_new rs"

definition windows_poller_after :: "handle registration list \<Rightarrow> handle poller" where
  "windows_poller_after rs = foldl (\<lambda>p r. case r of Register d i \<Rightarrow> win_poller_add d i p
     | Unregister d \<Rightarrow> win_poller_remove d p) poller_new rs"

section \<open>The registration map\<close>

lemma posix_poller_map:
  "poller_ok (posix_poller rs) \<and> map_of (pl_interests (posix_poller rs)) d =
     (if d < 0 then None else map_option to_poll_mask (registered rs d))"
proof (induction rs arbitrary: d rule: rev_induct)
  case Nil
  show ?case by (simp add: posix_poller_def registered_def poller_new_def poller_ok_def map_wf_def)
next
  case (snoc r rs)
  have ok: "poller_ok (posix_poller rs)" using snoc by blast
  show ?case
    using poller_is_map [OF ok] snoc by (cases r) (auto simp: posix_poller_def registered_def)
qed

lemma windows_poller_map:
  "map_wf (pl_interests (windows_poller_after rs)) \<and> map_of (pl_interests (windows_poller_after rs)) d =
     map_option win_to_poll_mask (registered rs d)"
proof (induction rs arbitrary: d rule: rev_induct)
  case Nil
  show ?case by (simp add: windows_poller_after_def registered_def poller_new_def map_wf_def)
next
  case (snoc r rs)
  have ok: "map_wf (pl_interests (windows_poller_after rs))" using snoc by blast
  show ?case
    using windows_poller [OF ok prod.collapse [symmetric]] snoc
    by (cases r) (auto simp: windows_poller_after_def registered_def)
qed

lemma contains_registered:
  "poller_contains d (posix_poller rs) \<longleftrightarrow> 0 \<le> d \<and> registered rs d \<noteq> None"
  "win_poller_contains h (windows_poller_after rs') \<longleftrightarrow> registered rs' h \<noteq> None"
  using posix_poller_map [of rs d] windows_poller_map [of rs' h]
  by (simp_all add: poller_contains_def win_poller_contains_def)

section \<open>What a wait asks the system\<close>

lemma posix_wait_asks:
  assumes "poller_wait t p k = (r, k')"
  shows "\<exists>x. kn_trace k' = kn_trace k @ [(Call_poll (pl_interests p) (signed_take_bit 31 t), x)]"
proof -
  obtain x k1 where s: "sys (Call_poll (pl_interests p) (signed_take_bit 31 t)) k = (x, k1)" by force
  then have "k' = k1" using assms by (auto simp: poller_wait_def Let_def split: if_splits sys_result.splits)
  then show ?thesis using sys_event [OF s] by blast
qed

section \<open>Properties\<close>

text \<open>C39: After any registrations, a poller asks the system about exactly the descriptors whose last
  registration added them, each once and with the mask of the interest given last, and every event
  it returns is about one of them, at most one for each, in ascending order.  This holds on POSIX,
  where negative descriptors are never registered, and on Windows, where an empty poller asks
  nothing.\<close>

theorem poller_reports_registered:
  "(poller_wait t (posix_poller rs) k = (r, k') \<longrightarrow>
      (\<exists>ds x. kn_trace k' = kn_trace k @ [(Call_poll ds (signed_take_bit 31 t), x)] \<and> distinct (map fst ds) \<and>
         (\<forall>d. map_of ds d = (if d < 0 then None else map_option to_poll_mask (registered rs d)))) \<and>
      (\<forall>events. r = Inr events \<longrightarrow> sorted_wrt (<) (map pe_descriptor events) \<and>
         (\<forall>e\<in>set events. 0 \<le> pe_descriptor e \<and> registered rs (pe_descriptor e) \<noteq> None)))
   \<and> (win_poller_wait t (windows_poller_after rs') w = (r', w') \<longrightarrow>
      (\<exists>d. registered rs' d \<noteq> None) \<longrightarrow>
      (\<exists>ds x. ws_trace w' = ws_trace w @ [(Wsa_poll ds (signed_take_bit 31 t), x)] \<and> distinct (map fst ds) \<and>
         (\<forall>d. map_of ds d = map_option win_to_poll_mask (registered rs' d))) \<and>
      (\<forall>events. r' = Inr events \<longrightarrow> sorted_wrt (<) (map pe_descriptor events) \<and>
         (\<forall>e\<in>set events. registered rs' (pe_descriptor e) \<noteq> None)))"
proof (intro conjI impI)
  note map = posix_poller_map [of rs]
  assume wait: "poller_wait t (posix_poller rs) k = (r, k')"
  show "\<exists>ds x. kn_trace k' = kn_trace k @ [(Call_poll ds (signed_take_bit 31 t), x)] \<and> distinct (map fst ds) \<and>
         (\<forall>d. map_of ds d = (if d < 0 then None else map_option to_poll_mask (registered rs d)))"
    using posix_wait_asks [OF wait] map imap.distinct_keys poller_ok_def by blast
  have "sorted_wrt (<) (map pe_descriptor events) \<and>
      (\<forall>e\<in>set events. poller_contains (pe_descriptor e) (posix_poller rs))" if "r = Inr events" for events
    using poller_wait_events [OF _ wait] map that by blast
  then show "\<forall>events. r = Inr events \<longrightarrow> sorted_wrt (<) (map pe_descriptor events) \<and>
         (\<forall>e\<in>set events. 0 \<le> pe_descriptor e \<and> registered rs (pe_descriptor e) \<noteq> None)"
    unfolding contains_registered by blast
next
  note map = windows_poller_map [of rs']
  let ?ds = "pl_interests (windows_poller_after rs')"
  assume wait: "win_poller_wait t (windows_poller_after rs') w = (r', w')" and some: "\<exists>d. registered rs' d \<noteq> None"
  have "?ds \<noteq> []" using map some by fastforce
  moreover obtain x w1 where s: "wsys (Wsa_poll ?ds (signed_take_bit 31 t)) w = (x, w1)" by force
  ultimately have "w' = w1"
    using wait by (auto simp: win_poller_wait_def Let_def split: if_splits wsa_reply.splits)
  then have "ws_trace w' = ws_trace w @ [(Wsa_poll ?ds (signed_take_bit 31 t), x)]" using wsys_event [OF s] by simp
  then show "\<exists>ds x. ws_trace w' = ws_trace w @ [(Wsa_poll ds (signed_take_bit 31 t), x)] \<and> distinct (map fst ds) \<and>
         (\<forall>d. map_of ds d = map_option win_to_poll_mask (registered rs' d))"
    using map imap.distinct_keys by blast
  have "sorted_wrt (<) (map pe_descriptor events) \<and>
      (\<forall>e\<in>set events. win_poller_contains (pe_descriptor e) (windows_poller_after rs'))" if "r' = Inr events" for events
    using windows_poller [OF _ wait] map that by blast
  then show "\<forall>events. r' = Inr events \<longrightarrow> sorted_wrt (<) (map pe_descriptor events) \<and>
         (\<forall>e\<in>set events. registered rs' (pe_descriptor e) \<noteq> None)"
    unfolding contains_registered by blast
qed

text \<open>Two descriptors of which the second is removed again; the system reports the first as readable.\<close>

theorem poller_reports_registered_witness:
  "\<exists>ds. kn_trace (snd (poller_wait 50 (posix_poller [Register 4 Poll_read, Register 7 Poll_write, Unregister 7])
        \<lparr> kn_little_endian = True, kn_script = [Sys_value 1 [] (Sockaddr_in 0 0) [1]], kn_trace = [] \<rparr>))
      = [(Call_poll ds 50, Sys_value 1 [] (Sockaddr_in 0 0) [1])]
    \<and> map_of ds 4 = Some POLLIN \<and> map_of ds 7 = None"
proof -
  let ?rs = "[Register (4 :: int) Poll_read, Register 7 Poll_write, Unregister 7]"
  let ?k = "\<lparr> kn_little_endian = True, kn_script = [Sys_value 1 [] (Sockaddr_in 0 0) [1]], kn_trace = [] \<rparr>"
  obtain r k' where w: "poller_wait 50 (posix_poller ?rs) ?k = (r, k')" by force
  from poller_reports_registered [of 50 ?rs ?k r k', THEN conjunct1, THEN mp, OF w] obtain ds x where
    d: "kn_trace k' = kn_trace ?k @ [(Call_poll ds (signed_take_bit 31 50), x)]"
    "\<forall>d. map_of ds d = (if d < 0 then None else map_option to_poll_mask (registered ?rs d))" by blast
  have "to_poll_mask Poll_read = POLLIN"
    by (simp add: to_poll_mask_def poll_interest_value_def)
  moreover have "x = Sys_value 1 [] (Sockaddr_in 0 0) [1]"
    using w d(1) by (auto simp: poller_wait_def sys_def Let_def split: if_splits)
  moreover have "signed_take_bit 31 (50 :: int) = 50" by (simp add: signed_take_bit_int_eq_self)
  ultimately show ?thesis using d w by (intro exI [of _ ds]) (simp add: registered_def)
qed

end
