(* ===== verification/Send_Liveness.thy ===== *)
theory Send_Liveness
  imports Connection_Properties
begin

text \<open>
  The send queue drains.  A kernel may take as little as one byte at a time, be interrupted and
  block as often as it likes: as long as it takes bytes often enough, \<open>flush_sends\<close> and the writable
  events that follow put everything on the wire, and a connection that waits for that to close
  (\<open>State::closing\<close>, after a refused handshake) ends only then.
\<close>

section \<open>What the kernel is going to answer\<close>

text \<open>Answers that are no failure: bytes taken, a call interrupted, or no room.\<close>

definition willing :: "sys_result list \<Rightarrow> bool" where
  "willing rs \<longleftrightarrow> (\<forall>r\<in>set rs. case r of Sys_value n _ _ _ \<Rightarrow> 0 < n
     | Sys_error e \<Rightarrow> from_error e = would_block \<or> from_error e = interrupted)"

text \<open>How often it takes bytes, and how often it has no room.\<close>

fun takes :: "sys_result list \<Rightarrow> nat" where
  "takes [] = 0"
| "takes (Sys_value _ _ _ _ # rs) = Suc (takes rs)"
| "takes (Sys_error _ # rs) = takes rs"

fun blocks :: "sys_result list \<Rightarrow> nat" where
  "blocks [] = 0"
| "blocks (Sys_value _ _ _ _ # rs) = blocks rs"
| "blocks (Sys_error e # rs) = (if from_error e = would_block then Suc (blocks rs) else blocks rs)"

text \<open>A connection with an open socket on such a kernel, which is going to take bytes at least as often
  as there are bytes left.\<close>

definition sending :: "'a connection \<Rightarrow> bool" where
  "sending c \<longleftrightarrow> queue_ok c \<and> socket_is_open (cn_socket c) \<and> cn_state c \<noteq> dead
     \<and> willing (kn_script (cn_kernel c)) \<and> length (unsent c) \<le> takes (kn_script (cn_kernel c))"

section \<open>One call\<close>

text \<open>What one \<open>send\<close> on a willing kernel does with the first entry of the queue.\<close>

lemma willing_send:
  assumes "willing (kn_script k)" and "socket_is_open s" and "b \<noteq> []"
  obtains (block) k' where "socket_send s b k = (Inl would_block, k')" "willing (kn_script k')"
      "takes (kn_script k') = takes (kn_script k)" "blocks (kn_script k') < blocks (kn_script k) \<or> kn_script k = []"
  | (again) k' where "socket_send s b k = (Inl interrupted, k')" "willing (kn_script k')"
      "takes (kn_script k') = takes (kn_script k)" "blocks (kn_script k') = blocks (kn_script k)"
  | (some) n k' where "socket_send s b k = (Inr n, k')" "0 < n" "n \<le> length b" "willing (kn_script k')"
      "takes (kn_script k) = Suc (takes (kn_script k'))" "blocks (kn_script k') = blocks (kn_script k)"
proof (cases "kn_script k")
  case Nil
  then show ?thesis using assms block by (simp add: socket_send_def sys_def from_error_def willing_def)
next
  case (Cons r rs)
  show ?thesis
  proof (cases r)
    case (Sys_error e)
    with Cons assms(1) have "from_error e = would_block \<or> from_error e = interrupted"
      by (simp add: willing_def)
    then show ?thesis using Cons Sys_error assms block again
      by (auto simp: socket_send_def sys_def willing_def)
  next
    case (Sys_value n data a xs)
    then have "0 < min n (length b)" using Cons assms by (simp add: willing_def)
    then show ?thesis using Cons Sys_value assms some [of "min n (length b)"]
      by (simp add: socket_send_def sys_def willing_def)
  qed
qed

section \<open>One flush\<close>

text \<open>Either the queue empties, or the kernel blocked and has one refusal less to give.\<close>

definition flushed :: "'a events \<Rightarrow> 'a connection \<Rightarrow> 'a connection \<Rightarrow> bool" where
  "flushed ev c d \<longleftrightarrow>
     (\<exists>k. wired (cn_socket c) (kn_trace k) = outflow c \<and>
        d = (if cn_state c = closing then mark_dead ev (c\<lparr> cn_kernel := k, cn_send_queue := [] \<rparr>)
             else c\<lparr> cn_kernel := k, cn_send_queue := [] \<rparr>)) \<or>
     (sending d \<and> outflow d = outflow c \<and> (\<exists>k q. d = c\<lparr> cn_kernel := k, cn_send_queue := q \<rparr>) \<and>
        blocks (kn_script (cn_kernel d)) < blocks (kn_script (cn_kernel c)))"

lemma flushed_same:
  assumes "outflow c' = outflow c" and "c' = c\<lparr> cn_kernel := k, cn_send_queue := q \<rparr>"
    and "blocks (kn_script k) = blocks (kn_script (cn_kernel c))" and "flushed ev c' d"
  shows "flushed ev c d"
  using assms by (auto simp: flushed_def)

lemma flush_progress: "sending c \<Longrightarrow> flushed ev c (flush_sends ev c)"
proof (induction "length (kn_script (cn_kernel c))" arbitrary: c rule: less_induct)
  case less
  note s = less.prems [unfolded sending_def]
  show ?case
  proof (cases "cn_send_queue c")
    case Nil
    have "flush_sends ev c = (if cn_state c = closing then mark_dead ev c else c)"
      using Nil by (simp add: flush_sends.simps [of ev c])
    moreover have "wired (cn_socket c) (kn_trace (cn_kernel c)) = outflow c" "c = c\<lparr> cn_kernel := cn_kernel c, cn_send_queue := [] \<rparr>"
      using Nil by (simp_all add: outflow_def unsent_def)
    ultimately show ?thesis unfolding flushed_def by metis
  next
    case (Cons p rest)
    let ?b = "drop (ps_offset p) (ps_bytes p)"
    have b: "?b \<noteq> []" using s Cons by (simp add: queue_ok_def)
    have u: "length (unsent c) = length ?b + length (concat (map (\<lambda>p. drop (ps_offset p) (ps_bytes p)) rest))"
      using Cons by (simp add: unsent_def)
    from s have w: "willing (kn_script (cn_kernel c))" "socket_is_open (cn_socket c)" by auto
    from w b show ?thesis
    proof (cases rule: willing_send)
      case (block k')
      have "kn_script (cn_kernel c) \<noteq> []" using s u b by auto
      then have "sending (c\<lparr> cn_kernel := k' \<rparr>)" "blocks (kn_script k') < blocks (kn_script (cn_kernel c))"
        using s block by (simp_all add: sending_def queue_ok_def unsent_def)
      moreover have "outflow (c\<lparr> cn_kernel := k' \<rparr>) = outflow c"
        using socket_send_wired(1) [OF block(1)] by (simp add: outflow_def unsent_def)
      moreover have "flush_sends ev c = c\<lparr> cn_kernel := k' \<rparr>" using Cons block by (simp add: flush_sends.simps [of ev c])
      moreover have "\<exists>k q. c\<lparr> cn_kernel := k' \<rparr> = c\<lparr> cn_kernel := k, cn_send_queue := q \<rparr>"
        by (intro exI [of _ k'] exI [of _ "cn_send_queue c"]) simp
      ultimately show ?thesis unfolding flushed_def by (intro disjI2) simp
    next
      case (again k')
      have "flush_sends ev c = flush_sends ev (c\<lparr> cn_kernel := k' \<rparr>)"
        using Cons again by (simp add: flush_sends.simps [of ev c])
      moreover have "length (kn_script k') < length (kn_script (cn_kernel c))"
        using send_uses_script [OF again(1)] by simp
      moreover have "sending (c\<lparr> cn_kernel := k' \<rparr>)"
        using s again by (simp add: sending_def queue_ok_def unsent_def)
      moreover have "outflow (c\<lparr> cn_kernel := k' \<rparr>) = outflow c"
        using socket_send_wired(1) [OF again(1)] by (simp add: outflow_def unsent_def)
      ultimately show ?thesis
        using less.hyps [of "c\<lparr> cn_kernel := k' \<rparr>"] flushed_same [of "c\<lparr> cn_kernel := k' \<rparr>" c "cn_send_queue c" k'] again(4)
        by simp
    next
      case (some n k')
      let ?q = "if length (ps_bytes p) \<le> ps_offset p + n then rest else p\<lparr> ps_offset := ps_offset p + n \<rparr> # rest"
      let ?c = "c\<lparr> cn_kernel := k', cn_send_queue := ?q \<rparr>"
      have f: "flush_sends ev c = flush_sends ev ?c"
        using Cons some(1) by (simp add: flush_sends.simps [of ev c] Let_def)
      let ?rest = "concat (map (\<lambda>p. drop (ps_offset p) (ps_bytes p)) rest)"
      have q: "unsent c = ?b @ ?rest" "unsent ?c = drop n ?b @ ?rest"
        using Cons some(3) by (simp_all add: unsent_def add.commute)
      have "length (unsent ?c) + n = length (unsent c)"
        unfolding q using some(3) by simp
      then have "length (unsent ?c) \<le> takes (kn_script k')" using s some(2,5) by linarith
      moreover have "take n ?b @ unsent ?c = unsent c"
        unfolding q append_assoc [symmetric] append_take_drop_id ..
      moreover have "queue_ok ?c" using s Cons by (auto simp: queue_ok_def)
      ultimately have "sending ?c" "outflow ?c = outflow c"
        using s some(4) socket_send_wired(1) [OF some(1)] by (simp_all add: sending_def outflow_def)
      moreover have "length (kn_script k') < length (kn_script (cn_kernel c))"
        using send_uses_script [OF some(1)] by simp
      ultimately show ?thesis
        using less.hyps [of ?c] flushed_same [of ?c c ?q k'] some(6) by (simp add: f)
    qed
  qed
qed

section \<open>A network that does not fail\<close>

text \<open>However little the kernel takes, flushing on a network that does not fail leaves the connection in
  its state and every byte on the wire or in the queue; a connection that waits for that to close
  is ended when the queue is empty, and only then.\<close>

definition reliable :: "'a connection \<Rightarrow> bool" where
  "reliable c \<longleftrightarrow> queue_ok c \<and> socket_is_open (cn_socket c) \<and> willing (kn_script (cn_kernel c))"

lemma flush_reliable:
  "reliable c \<Longrightarrow> \<exists>k q. reliable (c\<lparr> cn_kernel := k, cn_send_queue := q \<rparr>)
     \<and> outflow (c\<lparr> cn_kernel := k, cn_send_queue := q \<rparr>) = outflow c
     \<and> flush_sends ev c = (if q = [] \<and> cn_state c = closing then mark_dead ev (c\<lparr> cn_kernel := k, cn_send_queue := q \<rparr>)
         else c\<lparr> cn_kernel := k, cn_send_queue := q \<rparr>)"
proof (induction "length (kn_script (cn_kernel c))" arbitrary: c rule: less_induct)
  case less
  note r = less.prems [unfolded reliable_def]
  show ?case
  proof (cases "cn_send_queue c")
    case Nil
    then have same: "c\<lparr> cn_kernel := cn_kernel c, cn_send_queue := [] \<rparr> = c" by (cases c) simp
    have "flush_sends ev c = (if [] = ([] :: pending_send list) \<and> cn_state c = closing then mark_dead ev c else c)"
      using Nil by (simp add: flush_sends.simps [of ev c])
    then show ?thesis using less.prems
      by (intro exI [of _ "cn_kernel c"] exI [of _ "[]"]) (unfold same, blast)
  next
    case (Cons p rest)
    let ?b = "drop (ps_offset p) (ps_bytes p)"
    have b: "?b \<noteq> []" using r Cons by (simp add: queue_ok_def)
    from r have w: "willing (kn_script (cn_kernel c))" "socket_is_open (cn_socket c)" by auto
    from w b show ?thesis
    proof (cases rule: willing_send)
      case (block k')
      have "flush_sends ev c = c\<lparr> cn_kernel := k' \<rparr>" using Cons block by (simp add: flush_sends.simps [of ev c])
      moreover have "outflow (c\<lparr> cn_kernel := k', cn_send_queue := p # rest \<rparr>) = outflow c"
        using socket_send_wired(1) [OF block(1)] Cons by (simp add: outflow_def unsent_def)
      ultimately show ?thesis using r block(2) Cons
        by (intro exI [of _ k'] exI [of _ "cn_send_queue c"]) (simp add: reliable_def queue_ok_def)
    next
      case (again k')
      have f: "flush_sends ev c = flush_sends ev (c\<lparr> cn_kernel := k' \<rparr>)"
        using Cons again by (simp add: flush_sends.simps [of ev c])
      have "reliable (c\<lparr> cn_kernel := k' \<rparr>)" using r again by (simp add: reliable_def queue_ok_def)
      moreover have "length (kn_script k') < length (kn_script (cn_kernel c))"
        using send_uses_script [OF again(1)] by simp
      moreover have "outflow (c\<lparr> cn_kernel := k' \<rparr>) = outflow c"
        using socket_send_wired(1) [OF again(1)] by (simp add: outflow_def unsent_def)
      ultimately show ?thesis using less.hyps [of "c\<lparr> cn_kernel := k' \<rparr>"] by (simp add: f cong: if_cong)
    next
      case (some n k')
      let ?q = "if length (ps_bytes p) \<le> ps_offset p + n then rest else p\<lparr> ps_offset := ps_offset p + n \<rparr> # rest"
      let ?c = "c\<lparr> cn_kernel := k', cn_send_queue := ?q \<rparr>"
      have f: "flush_sends ev c = flush_sends ev ?c"
        using Cons some(1) by (simp add: flush_sends.simps [of ev c] Let_def)
      let ?rest = "concat (map (\<lambda>p. drop (ps_offset p) (ps_bytes p)) rest)"
      have q: "unsent c = ?b @ ?rest" "unsent ?c = drop n ?b @ ?rest"
        using Cons some(3) by (simp_all add: unsent_def add.commute)
      have "take n ?b @ unsent ?c = unsent c"
        unfolding q append_assoc [symmetric] append_take_drop_id ..
      then have "outflow ?c = outflow c"
        using socket_send_wired(1) [OF some(1)] by (simp add: outflow_def)
      moreover have "reliable ?c" using r some(4) Cons by (auto simp: reliable_def queue_ok_def)
      moreover have "length (kn_script k') < length (kn_script (cn_kernel c))"
        using send_uses_script [OF some(1)] by simp
      ultimately show ?thesis using less.hyps [of ?c] by (simp add: f cong: if_cong)
    qed
  qed
qed

lemma flush_stays:
  assumes "reliable c" and "cn_state c \<noteq> closing"
  shows "\<exists>k q. flush_sends ev c = c\<lparr> cn_kernel := k, cn_send_queue := q \<rparr>
    \<and> reliable (c\<lparr> cn_kernel := k, cn_send_queue := q \<rparr>)
    \<and> outflow (c\<lparr> cn_kernel := k, cn_send_queue := q \<rparr>) = outflow c"
  using flush_reliable [OF assms(1), of ev] assms(2) by auto

text \<open>An application that may send when the connection is established, and does not end it.\<close>

definition welcoming :: "'a events \<Rightarrow> bool" where
  "welcoming ev \<longleftrightarrow> (\<forall>g c. ev_established ev = Some g \<longrightarrow> reliable c \<longrightarrow> cn_state c = established
     \<longrightarrow> reliable (g c) \<and> cn_state (g c) = established \<and> cn_callbacks (g c) = cn_callbacks c
       \<and> prefix (outflow c) (outflow (g c)))"

lemma welcoming_queue:
  assumes "reliable c" and "cn_state c = established"
    and d_def: "d = queue_transaction ev kind tid data is_reply error c"
  shows "reliable d" and "cn_state d = established" and "cn_callbacks d = cn_callbacks c"
    and "prefix (outflow c) (outflow d)"
proof -
  obtain e bs where b: "transaction_bytes kind tid data is_reply error c = (e, bs)" by force
  let ?q = "queue_bytes bs (c\<lparr> cn_env := e \<rparr>)"
  have r: "reliable ?q" using assms(1) by (auto simp: reliable_def queue_ok_def queue_bytes_def)
  have "cn_state ?q \<noteq> closing" using assms(2) by (simp add: queue_bytes_def)
  from flush_stays [OF r this, of ev] obtain k q where f: "flush_sends ev ?q = ?q\<lparr> cn_kernel := k, cn_send_queue := q \<rparr>"
    "reliable (?q\<lparr> cn_kernel := k, cn_send_queue := q \<rparr>)"
    "outflow (?q\<lparr> cn_kernel := k, cn_send_queue := q \<rparr>) = outflow ?q"
    by blast
  have d: "d = ?q\<lparr> cn_kernel := k, cn_send_queue := q \<rparr>"
    by (simp add: d_def queue_transaction_bytes b f(1))
  show "reliable d" using f(2) by (simp add: d)
  show "cn_state d = established" "cn_callbacks d = cn_callbacks c"
    using assms(2) by (simp_all add: d queue_bytes_def)
  show "prefix (outflow c) (outflow d)"
    unfolding d f(3) by (simp add: queue_bytes_def outflow_def unsent_def)
qed

section \<open>Writable events\<close>

text \<open>Once drained, further writable events change nothing.\<close>

lemma drained_stays:
  assumes "cn_send_queue d = []" and "cn_state d \<noteq> closing"
  shows "(service_writable ev ^^ n) d = d"
  by (induction n) (use assms in \<open>simp_all add: service_writable_def flush_sends.simps [of ev d]\<close>)

lemma dead_stays: "cn_state d = dead \<Longrightarrow> (service_writable ev ^^ n) d = d"
  by (induction n) (simp_all add: service_writable_def)

lemma writable_events_drain:
  "sending c \<Longrightarrow> blocks (kn_script (cn_kernel c)) < n \<Longrightarrow>
     \<exists>k. wired (cn_socket c) (kn_trace k) = outflow c \<and>
       (cn_state c \<noteq> closing \<longrightarrow> (service_writable ev ^^ n) c = c\<lparr> cn_kernel := k, cn_send_queue := [] \<rparr>) \<and>
       (lawful_events ev \<longrightarrow> cn_state c = closing \<longrightarrow>
          (service_writable ev ^^ n) c = mark_dead ev (c\<lparr> cn_kernel := k, cn_send_queue := [] \<rparr>))"
proof (induction n arbitrary: c)
  case (Suc n)
  let ?d = "flush_sends ev c"
  have step: "(service_writable ev ^^ Suc n) c = (service_writable ev ^^ n) ?d"
    using Suc.prems(1) by (simp add: funpow_Suc_right service_writable_def sending_def del: funpow.simps)
  from flush_progress [OF Suc.prems(1), of ev] consider
    (empty) k where "wired (cn_socket c) (kn_trace k) = outflow c"
      "?d = (if cn_state c = closing then mark_dead ev (c\<lparr> cn_kernel := k, cn_send_queue := [] \<rparr>)
             else c\<lparr> cn_kernel := k, cn_send_queue := [] \<rparr>)"
    | (blocked) k q where "sending ?d" "outflow ?d = outflow c" "?d = c\<lparr> cn_kernel := k, cn_send_queue := q \<rparr>"
      "blocks (kn_script (cn_kernel ?d)) < blocks (kn_script (cn_kernel c))"
    unfolding flushed_def by blast
  then show ?case
  proof cases
    case empty
    have "cn_state (mark_dead ev (c\<lparr> cn_kernel := k, cn_send_queue := [] \<rparr>)) = dead" if "lawful_events ev"
      using application.mark_dead_dead that by (simp add: application_def)
    then show ?thesis
      using empty by (intro exI [of _ k]) (simp add: step drained_stays dead_stays del: funpow.simps)
  next
    case blocked
    then have "blocks (kn_script (cn_kernel ?d)) < n" using Suc.prems(2) by simp
    from Suc.IH [OF blocked(1) this] obtain k' where
      k': "wired (cn_socket ?d) (kn_trace k') = outflow c"
      "cn_state ?d \<noteq> closing \<longrightarrow> (service_writable ev ^^ n) ?d = ?d\<lparr> cn_kernel := k', cn_send_queue := [] \<rparr>"
      "lawful_events ev \<longrightarrow> cn_state ?d = closing \<longrightarrow>
          (service_writable ev ^^ n) ?d = mark_dead ev (?d\<lparr> cn_kernel := k', cn_send_queue := [] \<rparr>)"
      unfolding blocked(2) by blast
    have "?d\<lparr> cn_kernel := k', cn_send_queue := [] \<rparr> = c\<lparr> cn_kernel := k', cn_send_queue := [] \<rparr>"
      "cn_socket ?d = cn_socket c" "cn_state ?d = cn_state c"
      by (simp_all add: blocked(3))
    with k' show ?thesis unfolding step by metis
  qed
qed simp

section \<open>Properties\<close>

text \<open>C7: The send queue drains.  On a kernel that never fails and takes bytes, be it one at a time, as
  often as there are bytes left, one writable event more than the times it has no room puts
  everything on the wire: the queue is empty, the wire has what it had and all that waited, in
  order, and nothing else has changed.  A connection that is closing, because it refused a
  handshake, is then marked dead, and not before the last byte of the refusal is out.\<close>

theorem send_queue_drains:
  assumes "lawful_events ev" and "queue_ok c" and "socket_is_open (cn_socket c)" and "cn_state c \<noteq> dead"
    and "willing (kn_script (cn_kernel c))" and "length (unsent c) \<le> takes (kn_script (cn_kernel c))"
    and "blocks (kn_script (cn_kernel c)) < n"
  shows "\<exists>k. wired (cn_socket c) (kn_trace k) = outflow c
    \<and> (service_writable ev ^^ n) c =
        (if cn_state c = closing then mark_dead ev (c\<lparr> cn_kernel := k, cn_send_queue := [] \<rparr>)
         else c\<lparr> cn_kernel := k, cn_send_queue := [] \<rparr>)"
proof -
  have "sending c" using assms(2-6) by (simp add: sending_def)
  from writable_events_drain [OF this assms(7), of ev] assms(1) show ?thesis by auto
qed

text \<open>A refusal of three bytes on a kernel that takes one, has no room, is interrupted and takes the rest.\<close>

definition refusing :: "unit connection" where
  "refusing = (server_new 1000 () (scripted [Sys_value 1 [] (Sockaddr_in 0 0) [], Sys_error EAGAIN, Sys_error EINTR,
       Sys_value 5 [] (Sockaddr_in 0 0) [], Sys_value 1 [] (Sockaddr_in 0 0) []]))
     \<lparr> cn_socket := 3, cn_state := closing, cn_send_queue := [\<lparr> ps_bytes = [1, 2, 3], ps_offset = 0 \<rparr>] \<rparr>"

theorem send_queue_drains_witness:
  "\<exists>k. wired 3 (kn_trace k) = [1, 2, 3] \<and> (service_writable no_events ^^ 2) refusing
      = mark_dead no_events (refusing\<lparr> cn_kernel := k, cn_send_queue := [] \<rparr>)"
proof -
  have c: "queue_ok refusing" "socket_is_open (cn_socket refusing)" "cn_state refusing \<noteq> dead"
    "willing (kn_script (cn_kernel refusing))" "length (unsent refusing) \<le> takes (kn_script (cn_kernel refusing))"
    "blocks (kn_script (cn_kernel refusing)) < 2" "outflow refusing = [1, 2, 3]" "cn_state refusing = closing"
    "cn_socket refusing = 3"
    by (simp_all add: refusing_def scripted_def queue_ok_def socket_is_open_def kInvalid_def willing_def
        unsent_def outflow_def from_error_def)
  from send_queue_drains [OF quiet.lawful c(1-6)] show ?thesis unfolding c(7-9) by simp
qed

end
