(* ===== verification/Role_Properties.thy ===== *)
theory Role_Properties
  imports Send_Liveness
begin

text \<open>
  The properties of the two roles on networks that do not fail: how a server judges a client's
  handshake, and that a client and a server reach agreement.
\<close>

section \<open>The handshake\<close>

lemma parse_idle:
  "cn_stage c = stage_header \<Longrightarrow> length (cn_inbound c) < 20 \<Longrightarrow> parse_inbound ev h c = Some c"
  by (subst parse_inbound.simps) (simp add: parse_round_def transaction_header_size_def)

lemma parse_handshake:
  "alive c \<Longrightarrow> cn_stage c = stage_handshake \<Longrightarrow> cn_expected c \<le> length (cn_inbound c) \<Longrightarrow>
   parse_inbound ev h c = parse_inbound ev h ((h c)\<lparr> cn_stage := stage_header, cn_expected := transaction_header_size \<rparr>)"
  by (subst parse_inbound.simps) (simp add: parse_round_def alive_def)

lemma decode_reply [simp]:
  "try_decode_server_handshake_reply (encode_server_handshake_reply r) = Some (Inr r)"
  using shr.accepts_exactly [of "encode_server_handshake_reply r" r]
  by (simp add: try_decode_server_handshake_reply_fixed)

lemma decode_handshake [simp]:
  "try_decode_client_handshake (encode_client_handshake hs) = Some (Inr hs)"
  using chs.accepts_exactly [of "encode_client_handshake hs" hs]
  by (simp add: try_decode_client_handshake_fixed)

text \<open>The three ways a server goes on after a handshake.\<close>

definition told :: "client_handshake \<Rightarrow> 'a connection \<Rightarrow> 'a connection" where
  "told hs c = c\<lparr> cn_remote_sub_protocol := ch_sub_protocol hs, cn_remote_version := ch_sub_version hs \<rparr>"

definition answering :: "u32 \<Rightarrow> client_handshake \<Rightarrow> bytes \<Rightarrow> 'a connection \<Rightarrow> 'a connection" where
  "answering error hs rest c = (queue_bytes (encode_server_handshake_reply
     \<lparr> sr_protocol = kProtocolTrTp, sr_error = error \<rparr>) (told hs c))\<lparr> cn_inbound := rest \<rparr>"

lemma server_handshake_cases:
  assumes "cn_inbound c = encode_client_handshake hs @ rest"
  shows "server_handle_handshake ev c =
    (if ch_protocol hs \<noteq> kProtocolTrTp \<and> ch_protocol hs \<noteq> kProtocolNick
     then mark_dead ev ((told hs c)\<lparr> cn_inbound := rest \<rparr>)
     else if ch_version hs \<noteq> kProtocolVersion
     then flush_sends ev ((answering 1 hs rest c)\<lparr> cn_state := closing \<rparr>)
     else flush_sends ev (mark_established ev (answering 0 hs rest c)))"
  by (simp add: server_handle_handshake_def assms validate_client_handshake_def Let_def
      normalize_reject_reason_def default_server_handshake_reply_def told_def answering_def)

lemma answering_fields:
  "cn_inbound (answering error hs rest c) = rest" "cn_state (answering error hs rest c) = cn_state c"
  "cn_remote_sub_protocol (answering error hs rest c) = ch_sub_protocol hs"
  "cn_remote_version (answering error hs rest c) = ch_sub_version hs"
  "cn_callbacks (answering error hs rest c) = cn_callbacks c"
  by (simp_all add: answering_def told_def queue_bytes_def)

lemma answering_output:
  assumes "queue_ok c" and "st \<noteq> dead"
  shows "queue_ok ((answering error hs rest c)\<lparr> cn_state := st \<rparr>)"
    and "outflow ((answering error hs rest c)\<lparr> cn_state := st \<rparr>)
      = outflow c @ encode_server_handshake_reply \<lparr> sr_protocol = kProtocolTrTp, sr_error = error \<rparr>"
  using assms by (auto simp: answering_def told_def queue_ok_def queue_bytes_def outflow_def unsent_def)

lemma answering_reliable:
  "reliable c \<Longrightarrow> st \<noteq> dead \<Longrightarrow> reliable ((answering error hs rest c)\<lparr> cn_state := st \<rparr>)"
  by (auto simp: reliable_def answering_def told_def queue_ok_def queue_bytes_def)

text \<open>An application whose \<open>on_closed\<close> leaves the network alone.\<close>

definition silent_closing :: "'a events \<Rightarrow> bool" where
  "silent_closing ev \<longleftrightarrow>
     (\<forall>f c. ev_closed ev = Some f \<longrightarrow> cn_state c = dead \<longrightarrow> cn_kernel (f c) = cn_kernel c)"

lemma died_wired: "wired s (kn_trace (cn_kernel (died c))) = wired s (kn_trace (cn_kernel c))"
  by (simp add: died_def close_connection_def socket_close_def sys_def Let_def split: prod.split list.split)

lemma mark_dead_wired:
  "silent_closing ev \<Longrightarrow> wired s (kn_trace (cn_kernel (mark_dead ev c))) = wired s (kn_trace (cn_kernel c))"
  using died_wired [of s c]
  by (auto simp: mark_dead_died invoke_def silent_closing_def split: option.split)

definition calls_if :: "callback \<Rightarrow> 'b option \<Rightarrow> callback list" where
  "calls_if e f = (case f of None \<Rightarrow> [] | Some _ \<Rightarrow> [e])"

context application
begin

lemma mark_dead_outcome:
  assumes "cn_state c \<noteq> dead"
  shows "same_receive c (mark_dead ev c)" and "cn_state (mark_dead ev c) = dead"
    and "cn_callbacks (mark_dead ev c) = cn_callbacks c @ calls_if Closed (ev_closed ev)"
proof -
  show "same_receive c (mark_dead ev c)" using keeps_mark_dead [of c] by (simp add: keeps_def)
  show "cn_state (mark_dead ev c) = dead" by (rule mark_dead_dead)
  show "cn_callbacks (mark_dead ev c) = cn_callbacks c @ calls_if Closed (ev_closed ev)"
  proof (cases "ev_closed ev")
    case (Some f)
    let ?d = "(died c)\<lparr> cn_callbacks := cn_callbacks c @ [Closed] \<rparr>"
    have "keeps ?d (f ?d)" by (rule send_side_keeps [OF closed_law [OF Some]])
    then have "cn_callbacks (f ?d) = cn_callbacks c @ [Closed]" by (auto simp: keeps_def may_die_def)
    then show ?thesis using assms Some by (simp add: mark_dead_died invoke_def calls_if_def)
  qed (use assms in \<open>simp add: mark_dead_died invoke_def calls_if_def\<close>)
qed

lemma refuses:
  fixes c :: "'a connection" and hs rest
  assumes "reliable c" and "silent_closing ev"
  defines "d \<equiv> flush_sends ev ((answering 1 hs rest c)\<lparr> cn_state := closing \<rparr>)"
    and "refusal \<equiv> encode_server_handshake_reply \<lparr> sr_protocol = kProtocolTrTp, sr_error = 1 \<rparr>"
  shows "same_receive (answering 1 hs rest c) d"
    and "cn_state d = closing \<and> cn_callbacks d = cn_callbacks c \<and> outflow d = outflow c @ refusal \<or>
      cn_state d = dead \<and> cn_callbacks d = cn_callbacks c @ calls_if Closed (ev_closed ev)
        \<and> wired (cn_socket c) (kn_trace (cn_kernel d)) = outflow c @ refusal"
proof -
  let ?q = "(answering 1 hs rest c)\<lparr> cn_state := closing \<rparr>"
  have q: "reliable ?q" by (rule answering_reliable [OF assms(1)]) simp
  have out: "outflow ?q = outflow c @ refusal"
    unfolding refusal_def by (rule answering_output(2)) (use assms(1) in \<open>simp_all add: reliable_def\<close>)
  from flush_reliable [OF q, of ev] obtain k p where
    x: "outflow (?q\<lparr> cn_kernel := k, cn_send_queue := p \<rparr>) = outflow ?q"
    and f: "d = (if p = [] \<and> cn_state ?q = closing then mark_dead ev (?q\<lparr> cn_kernel := k, cn_send_queue := p \<rparr>)
         else ?q\<lparr> cn_kernel := k, cn_send_queue := p \<rparr>)"
    unfolding d_def by blast
  let ?x = "?q\<lparr> cn_kernel := k, cn_send_queue := p \<rparr>"
  have sx: "same_receive (answering 1 hs rest c) ?x" "cn_state ?x = closing" "cn_callbacks ?x = cn_callbacks c"
    "cn_socket ?x = cn_socket c" by (simp_all add: same_receive_def answering_def told_def queue_bytes_def)
  have dx: "d = (if p = [] then mark_dead ev ?x else ?x)" using f by simp
  note m = mark_dead_outcome [of ?x]
  have m1: "same_receive ?x (mark_dead ev ?x)" by (rule m(1)) simp
  show "same_receive (answering 1 hs rest c) d"
    using sx(1) m1 unfolding dx same_receive_def by (cases "p = []") simp_all
  show "cn_state d = closing \<and> cn_callbacks d = cn_callbacks c \<and> outflow d = outflow c @ refusal \<or>
      cn_state d = dead \<and> cn_callbacks d = cn_callbacks c @ calls_if Closed (ev_closed ev)
        \<and> wired (cn_socket c) (kn_trace (cn_kernel d)) = outflow c @ refusal"
  proof (cases "p = []")
    case True
    then have "wired (cn_socket c) (kn_trace k) = outflow c @ refusal"
      using x out sx(4) by (simp add: outflow_def unsent_def)
    then have "wired (cn_socket c) (kn_trace (cn_kernel (mark_dead ev ?x))) = outflow c @ refusal"
      by (simp add: mark_dead_wired [OF assms(2)])
    then show ?thesis using True m(2,3) sx(2,3) by (simp add: dx)
  next
    case False
    then have "d = ?x" by (simp add: dx)
    then show ?thesis using sx(2,3) x out by metis
  qed
qed

lemma accepts:
  fixes c :: "'a connection" and hs rest
  assumes "reliable c" and "welcoming ev"
  defines "d \<equiv> flush_sends ev (mark_established ev (answering 0 hs rest c))"
    and "acceptance \<equiv> encode_server_handshake_reply \<lparr> sr_protocol = kProtocolTrTp, sr_error = 0 \<rparr>"
  shows "same_receive (answering 0 hs rest c) d"
    and "cn_state d = established" and "cn_callbacks d = cn_callbacks c @ calls_if Established (ev_established ev)"
    and "prefix (outflow c @ acceptance) (outflow d)"
    and "ev_established ev = None \<Longrightarrow> outflow d = outflow c @ acceptance"
proof -
  let ?q = "answering 0 hs rest c"
  let ?m = "mark_established ev ?q"
  have est: "same_receive ?q ?m" using mark_established_keeps [of ?q] by blast
  have r: "reliable ?m \<and> cn_state ?m = established \<and> cn_callbacks ?m = cn_callbacks c @ calls_if Established (ev_established ev)
    \<and> prefix (outflow c @ acceptance) (outflow ?m) \<and> (ev_established ev = None \<longrightarrow> outflow ?m = outflow c @ acceptance)"
  proof (cases "ev_established ev")
    case None
    then have m: "?m = ?q\<lparr> cn_state := established \<rparr>" by (simp add: mark_established_def invoke_def)
    show ?thesis unfolding m using None answering_reliable [OF assms(1), of established 0 hs rest]
        answering_output [of c established 0 hs rest] assms(1)
      by (simp add: reliable_def acceptance_def calls_if_def answering_fields)
  next
    case (Some g)
    let ?e = "?q\<lparr> cn_state := established, cn_callbacks := cn_callbacks ?q @ [Established] \<rparr>"
    have m: "?m = g ?e" using Some by (simp add: mark_established_def invoke_def)
    have e: "reliable ?e" "cn_state ?e = established" "cn_callbacks ?e = cn_callbacks c @ [Established]"
      "outflow ?e = outflow c @ acceptance"
      using answering_reliable [OF assms(1), of established 0 hs rest]
        answering_output(2) [of c established 0 hs rest] assms(1)
      by (simp_all add: reliable_def queue_ok_def acceptance_def answering_fields outflow_def unsent_def)
    have "reliable (g ?e) \<and> cn_state (g ?e) = established \<and> cn_callbacks (g ?e) = cn_callbacks ?e
       \<and> prefix (outflow ?e) (outflow (g ?e))"
      using assms(2) Some e(1,2) unfolding welcoming_def by blast
    then show ?thesis unfolding m using Some e(3,4) by (simp add: calls_if_def)
  qed
  then have "cn_state ?m \<noteq> closing" by simp
  from flush_stays [OF _ this, of ev] r obtain k p where f: "d = ?m\<lparr> cn_kernel := k, cn_send_queue := p \<rparr>"
    "outflow (?m\<lparr> cn_kernel := k, cn_send_queue := p \<rparr>) = outflow ?m"
    unfolding d_def by blast
  show "same_receive ?q d" using est by (simp add: f(1) same_receive_def)
  show "cn_state d = established" "cn_callbacks d = cn_callbacks c @ calls_if Established (ev_established ev)"
    using r by (simp_all add: f(1))
  have o: "outflow d = outflow ?m" using f by simp
  show "prefix (outflow c @ acceptance) (outflow d)" using r by (simp add: o)
  show "outflow d = outflow c @ acceptance" if "ev_established ev = None" using r that by (simp add: o)
qed

end


text \<open>A server that greets whoever is established with a keepalive; on a kernel that takes three bytes
  at a time and then has no room it refuses a client of version 2, which stays until the
  refusal is out.\<close>

definition greeting :: "unit events" where
  "greeting = no_events\<lparr> ev_established := Some (queue_keepalive no_events) \<rparr>"

lemma keepalive_bytes:
  "queue_keepalive ev = queue_transaction ev (transaction_type_value TT_KeepConnectionAlive) 0 [0, 0] False 0"
proof -
  have "encode_field_list [] = Inr [0, 0]" by (simp add: encode_field_list_def write_u16be_def)
  then show ?thesis by (intro ext) (simp add: queue_keepalive_def)
qed

lemma greeting_laws: "lawful_events greeting" "welcoming greeting" "silent_closing greeting"
proof -
  have e: "ev_established greeting = Some (queue_keepalive no_events)" "ev_transaction greeting = None" "ev_closed greeting = None"
    by (simp_all add: greeting_def)
  show "lawful_events greeting" unfolding lawful_events_def e keepalive_bytes
    using quiet.send_side_queue_transaction by simp
  show "silent_closing greeting" by (simp add: silent_closing_def e)
  show "welcoming greeting" unfolding welcoming_def e keepalive_bytes option.inject
    using welcoming_queue [OF _ _ refl] by auto
qed

definition slow :: kernel where
  "slow = scripted [Sys_value 3 [] (Sockaddr_in 0 0) [], Sys_error EAGAIN]"



text \<open>A client on a network that does not fail waits for the reply; its handshake is all it has sent.\<close>

lemma client_start_waits:
  assumes "application ev" and "socket_is_open s" and "willing (kn_script k)"
    and c_def: "c = client_start ev s sub version (client_new M env k)"
  shows "alive c" and "cn_stage c = stage_handshake" and "cn_expected c = 8" and "cn_inbound c = []"
    and "reliable c" and "cn_callbacks c = []" and "outflow c = wired s (kn_trace k) @ encode_client_handshake
      \<lparr> ch_protocol = kProtocolTrTp, ch_sub_protocol = sub, ch_version = kProtocolVersion, ch_sub_version = version \<rparr>"
proof -
  let ?hs = "encode_client_handshake \<lparr> ch_protocol = kProtocolTrTp, ch_sub_protocol = sub,
    ch_version = kProtocolVersion, ch_sub_version = version \<rparr>"
  let ?q = "queue_bytes ?hs ((client_new M env k)\<lparr> cn_socket := s, cn_state := awaiting_handshake_reply \<rparr>)"
  have c: "c = flush_sends ev ?q"
    by (simp add: c_def client_start_def attach_socket_def socket_move_assign_def socket_close_def
        socket_is_open_def client_new_def connection_new_def)
  have "?hs \<noteq> []" by (metis length_encode_client_handshake list.size(3) zero_neq_numeral)
  then have q: "reliable ?q" "outflow ?q = wired s (kn_trace k) @ ?hs" "cn_state ?q \<noteq> closing"
    using assms(2,3) by (simp_all add: reliable_def queue_ok_def queue_bytes_def client_new_def connection_new_def
        outflow_def unsent_def)
  from flush_stays [OF q(1,3), of ev] obtain k' p where f: "c = ?q\<lparr> cn_kernel := k', cn_send_queue := p \<rparr>"
    "reliable (?q\<lparr> cn_kernel := k', cn_send_queue := p \<rparr>)"
    "outflow (?q\<lparr> cn_kernel := k', cn_send_queue := p \<rparr>) = outflow ?q"
    unfolding c by blast
  show "alive c" "cn_stage c = stage_handshake" "cn_expected c = 8" "cn_inbound c = []" "cn_callbacks c = []"
    by (simp_all add: f(1) alive_def queue_bytes_def client_new_def connection_new_def)
  show "reliable c" "outflow c = wired s (kn_trace k) @ ?hs" using f(2,3) q(2) by (simp_all only: f(1))
qed

lemma established_event:
  assumes "welcoming ev" and "reliable c"
  shows "cn_state (mark_established ev c) = established"
    and "cn_callbacks (mark_established ev c) = cn_callbacks c @ calls_if Established (ev_established ev)"
proof -
  let ?e = "c\<lparr> cn_state := established, cn_callbacks := cn_callbacks c @ [Established] \<rparr>"
  have "reliable ?e" using assms(2) by (simp add: reliable_def queue_ok_def)
  then have "cn_state (g ?e) = established" "cn_callbacks (g ?e) = cn_callbacks c @ [Established]"
    if "ev_established ev = Some g" for g
    using assms(1) that unfolding welcoming_def by fastforce+
  then show "cn_state (mark_established ev c) = established"
    "cn_callbacks (mark_established ev c) = cn_callbacks c @ calls_if Established (ev_established ev)"
    by (simp_all add: mark_established_def invoke_def calls_if_def split: option.split)
qed

lemma client_accepted:
  assumes app: "application ev" and greets: "welcoming ev" and reliable: "reliable c"
    and c: "alive c" "cn_stage c = stage_handshake" "cn_expected c = 8" "cn_inbound c = []"
  shows "\<exists>c'. parse_inbound ev (client_handle_handshake ev)
      (feed (encode_server_handshake_reply \<lparr> sr_protocol = kProtocolTrTp, sr_error = 0 \<rparr>) c) = Some c'
    \<and> cn_state c' = established \<and> cn_callbacks c' = cn_callbacks c @ calls_if Established (ev_established ev)"
proof -
  let ?reply = "encode_server_handshake_reply \<lparr> sr_protocol = kProtocolTrTp, sr_error = 0 \<rparr>"
  let ?m = "mark_established ev (c\<lparr> cn_inbound := [] \<rparr>)"
  have h: "client_handle_handshake ev (feed ?reply c) = ?m"
    using c(4) by (simp add: client_handle_handshake_def validate_server_handshake_reply_def feed_def)
  have "reliable (c\<lparr> cn_inbound := [] \<rparr>)" using reliable by (simp add: reliable_def queue_ok_def)
  note e = established_event [OF greets this]
  have m: "same_receive (c\<lparr> cn_inbound := [] \<rparr>) ?m"
    using application.mark_established_keeps [OF app] by blast
  have "parse_inbound ev (client_handle_handshake ev) (feed ?reply c)
      = parse_inbound ev (client_handle_handshake ev) (?m\<lparr> cn_stage := stage_header, cn_expected := transaction_header_size \<rparr>)"
    unfolding h [symmetric] by (rule parse_handshake) (use c in \<open>simp_all add: alive_def\<close>)
  also have "\<dots> = Some (?m\<lparr> cn_stage := stage_header, cn_expected := transaction_header_size \<rparr>)"
    by (rule parse_idle) (use m in \<open>simp_all add: same_receive_def\<close>)
  finally show ?thesis using e by simp
qed

lemma server_accepts:
  assumes app: "application ev" and greets: "welcoming ev" and reliable: "reliable c"
    and c: "alive c" "cn_stage c = stage_handshake" "cn_expected c = 12" "cn_inbound c = []"
    and good: "ch_protocol hs = kProtocolTrTp" "ch_version hs = kProtocolVersion"
  shows "\<exists>d. parse_inbound ev (server_handle_handshake ev) (feed (encode_client_handshake hs) c) = Some d
    \<and> cn_state d = established \<and> cn_callbacks d = cn_callbacks c @ calls_if Established (ev_established ev)
    \<and> cn_remote_sub_protocol d = ch_sub_protocol hs \<and> cn_remote_version d = ch_sub_version hs
    \<and> prefix (outflow c @ encode_server_handshake_reply \<lparr> sr_protocol = kProtocolTrTp, sr_error = 0 \<rparr>) (outflow d)"
proof -
  let ?N = "\<lambda>c. c\<lparr> cn_stage := stage_header, cn_expected := transaction_header_size \<rparr>"
  let ?f = "feed (encode_client_handshake hs) c"
  let ?d = "server_handle_handshake ev ?f"
  have f: "reliable ?f" "cn_inbound ?f = encode_client_handshake hs @ []" "cn_callbacks ?f = cn_callbacks c"
    "outflow ?f = outflow c"
    using reliable c(4) by (simp_all add: reliable_def queue_ok_def feed_def outflow_def unsent_def)
  have d: "?d = flush_sends ev (mark_established ev (answering 0 hs [] ?f))"
    using good server_handshake_cases [OF f(2), of ev] by simp
  note r = application.accepts [OF app f(1) greets, of hs "[]", folded d, unfolded same_receive_def answering_fields f(3,4)]
  have "parse_inbound ev (server_handle_handshake ev) ?f = parse_inbound ev (server_handle_handshake ev) (?N ?d)"
    by (rule parse_handshake) (use c in \<open>simp_all add: alive_def\<close>)
  also have "\<dots> = Some (?N ?d)"
    by (rule parse_idle) (use r(1) in simp_all)
  finally show ?thesis using r by (simp add: outflow_def unsent_def)
qed

text \<open>C10: A client and a server on networks that do not fail reach agreement.  The handshake a client
  queues when it starts, cut as the network likes, establishes the server, which then knows the
  client's sub-protocol and version and has put its acceptance first on the wire, before anything
  its application sends on establishment; those bytes, cut as the network likes, establish the
  client.  Each side hears of its establishment once.  The applications may send when they are
  told, and do not end the connection then.\<close>

theorem handshake_agreement:
  assumes "lawful_events cev" and "welcoming cev" and "lawful_events sev" and "welcoming sev"
    and "socket_is_open s" and "willing (kn_script k)" and "socket_is_open s'" and "willing (kn_script k')"
  shows "\<exists>hello. outflow (client_start cev s sub version (client_new M env k)) = wired s (kn_trace k) @ hello
    \<and> (\<forall>up. concat up = hello \<longrightarrow> (\<exists>d.
        serve server_role sev up (role_open server_role sev M' s' env' k') = Some d
        \<and> cn_state d = established \<and> cn_callbacks d = calls_if Established (ev_established sev)
        \<and> cn_remote_sub_protocol d = sub \<and> cn_remote_version d = version
        \<and> (\<exists>answer later. outflow d = wired s' (kn_trace k') @ answer @ later
            \<and> (\<forall>down. concat down = answer \<longrightarrow> (\<exists>c.
                  serve client_role cev down (client_start cev s sub version (client_new M env k)) = Some c
                  \<and> cn_state c = established \<and> cn_callbacks c = calls_if Established (ev_established cev))))))"
proof -
  have capp: "application cev" and sapp: "application sev" using assms(1,3) by (simp_all add: application_def)
  let ?hs = "\<lparr> ch_protocol = kProtocolTrTp, ch_sub_protocol = sub, ch_version = kProtocolVersion, ch_sub_version = version \<rparr>"
  let ?answer = "encode_server_handshake_reply \<lparr> sr_protocol = kProtocolTrTp, sr_error = 0 \<rparr>"
  let ?c = "client_start cev s sub version (client_new M env k)"
  let ?s = "role_open server_role sev M' s' env' k'"
  note c = client_start_waits [OF capp assms(5,6) refl, of sub version M env]
  have s: "alive ?s" "cn_stage ?s = stage_handshake" "cn_expected ?s = 12" "cn_inbound ?s = []" "reliable ?s"
    "outflow ?s = wired s' (kn_trace k')" "cn_callbacks ?s = []"
    using assms(7,8) by (simp_all add: role_open_server alive_def reliable_def queue_ok_def outflow_def unsent_def)
  obtain d where d: "parse_inbound sev (server_handle_handshake sev) (feed (encode_client_handshake ?hs) ?s) = Some d"
    "cn_state d = established" "cn_callbacks d = calls_if Established (ev_established sev)"
    "cn_remote_sub_protocol d = sub" "cn_remote_version d = version"
    "prefix (wired s' (kn_trace k') @ ?answer) (outflow d)"
    using server_accepts [OF sapp assms(4) s(5,1-4), of ?hs] s(6,7) by auto
  have up: "serve server_role sev up ?s = Some d" if "concat up = encode_client_handshake ?hs" for up
    using serve_whole [OF assms(3), of server_role ?s up] that d(1) s(3)
    by (simp add: stage_ok_def role_size_def role_handler_def)
  obtain c' where c': "parse_inbound cev (client_handle_handshake cev) (feed ?answer ?c) = Some c'"
    "cn_state c' = established" "cn_callbacks c' = calls_if Established (ev_established cev)"
    using client_accepted [OF capp assms(2) c(5,1-4)] c(6) by auto
  have down: "serve client_role cev down ?c = Some c'" if "concat down = ?answer" for down
    using serve_whole [OF assms(1), of client_role ?c down] that c'(1) c(3)
    by (simp add: stage_ok_def role_size_def role_handler_def)
  have "\<exists>answer later. outflow d = wired s' (kn_trace k') @ answer @ later
        \<and> (\<forall>down. concat down = answer \<longrightarrow> (\<exists>c. serve client_role cev down ?c = Some c
              \<and> cn_state c = established \<and> cn_callbacks c = calls_if Established (ev_established cev)))"
    using d(6) down c'(2,3) unfolding prefix_def append_assoc by blast
  then show ?thesis using c(7) up d(2-5) by blast
qed

text \<open>A client, and a server that greets; the client's kernel takes three bytes and then has no room.\<close>

theorem handshake_agreement_witness:
  "\<exists>hello d answer later c. outflow (client_start no_events 4 kSubProtocolHotl 123 (client_new 1000 () slow)) = hello
     \<and> serve server_role greeting [take 1 hello, drop 1 hello] (role_open server_role greeting 1000 3 () (scripted [])) = Some d
     \<and> cn_state d = established \<and> cn_callbacks d = [Established] \<and> cn_remote_version d = 123
     \<and> outflow d = answer @ later
     \<and> serve client_role no_events [answer] (client_start no_events 4 kSubProtocolHotl 123 (client_new 1000 () slow)) = Some c
     \<and> cn_state c = established"
proof -
  have quiet: "welcoming no_events" by (simp add: welcoming_def)
  have open4: "socket_is_open 4" "willing (kn_script slow)" and open3: "socket_is_open 3" "willing (kn_script (scripted []))"
    by (simp_all add: socket_is_open_def kInvalid_def slow_def scripted_def willing_def from_error_def)
  have start: "wired 4 (kn_trace slow) = []" "wired 3 (kn_trace (scripted [])) = []" by (simp_all add: slow_def scripted_def)
  have calls: "calls_if Established (ev_established greeting) = [Established]"
    "calls_if Established (ev_established (no_events :: unit events)) = []" by (simp_all add: greeting_def calls_if_def)
  let ?c = "client_start no_events 4 kSubProtocolHotl 123 (client_new 1000 () slow)"
  let ?s = "role_open server_role greeting 1000 3 () (scripted [])"
  note all = handshake_agreement [OF quiet.lawful quiet greeting_laws(1,2) open4 open3,
      of kSubProtocolHotl 123 1000 "()" 1000 "()", unfolded start calls append_Nil]
  obtain hello where h: "outflow ?c = hello" and
    up: "\<forall>up. concat up = hello \<longrightarrow> (\<exists>d. serve server_role greeting up ?s = Some d \<and> cn_state d = established
        \<and> cn_callbacks d = [Established] \<and> cn_remote_sub_protocol d = kSubProtocolHotl \<and> cn_remote_version d = 123
        \<and> (\<exists>answer later. outflow d = answer @ later \<and> (\<forall>down. concat down = answer \<longrightarrow>
            (\<exists>c. serve client_role no_events down ?c = Some c \<and> cn_state c = established
              \<and> cn_callbacks c = []))))"
    by (rule exE [OF all]) (erule conjE, rule that, assumption, assumption)
  from up [rule_format, of "[take 1 hello, drop 1 hello]"]
  obtain d where d: "serve server_role greeting [take 1 hello, drop 1 hello] ?s = Some d"
    "cn_state d = established" "cn_callbacks d = [Established]" "cn_remote_version d = 123"
    and more: "\<exists>answer later. outflow d = answer @ later \<and> (\<forall>down. concat down = answer \<longrightarrow>
            (\<exists>c. serve client_role no_events down ?c = Some c \<and> cn_state c = established
              \<and> cn_callbacks c = []))" by auto
  from more obtain answer later where out: "outflow d = answer @ later"
    and down: "\<forall>down. concat down = answer \<longrightarrow> (\<exists>c. serve client_role no_events down ?c = Some c
        \<and> cn_state c = established \<and> cn_callbacks c = [])" by (elim exE conjE)
  from down [rule_format, of "[answer]"]
  obtain c where "serve client_role no_events [answer] ?c = Some c" "cn_state c = established" by auto
  with h d out show ?thesis by blast
qed

end
