(* ===== verification/Tracker.thy ===== *)
theory Tracker
  imports Payloads
begin

text \<open>
  The tracker messages (\<open>hotline/protocol/tracker.h\<close>, \<open>tracker.cpp\<close>): registration,
  handshake and its reply, server lists and lookups.
\<close>

definition kTrackerProtocolTag :: u32 where
  "kTrackerProtocolTag = four_cc CHR ''H'' CHR ''T'' CHR ''R'' CHR ''K''"
definition kTrackerHandshakeVersion1 :: u16 where "kTrackerHandshakeVersion1 = 1"
definition kTrackerHandshakeVersion2 :: u16 where "kTrackerHandshakeVersion2 = 2"
definition kTrackerLoginFieldSize :: nat where "kTrackerLoginFieldSize = 32"
definition kTrackerHandshakeSizeV1 :: nat where "kTrackerHandshakeSizeV1 = 6"
definition kTrackerHandshakeSizeV2 :: nat where "kTrackerHandshakeSizeV2 = 70"
definition kRegistrationTypeAdd :: u16 where "kRegistrationTypeAdd = 1"
definition kRegistrationTypeRemove :: u16 where "kRegistrationTypeRemove = 2"
definition kServerListType :: u16 where "kServerListType = 1"
definition kLookupTypeFound :: u16 where "kLookupTypeFound = 4"
definition kLookupTypeNotFound :: u16 where "kLookupTypeNotFound = 5"

lemmas tracker_constants [simp] =
  kTrackerHandshakeVersion1_def kTrackerHandshakeVersion2_def kTrackerLoginFieldSize_def
  kTrackerHandshakeSizeV1_def kTrackerHandshakeSizeV2_def kRegistrationTypeAdd_def
  kRegistrationTypeRemove_def kServerListType_def kLookupTypeFound_def kLookupTypeNotFound_def

section \<open>Pascal strings and server entries\<close>

definition append_pstring :: "bytes \<Rightarrow> string \<Rightarrow> bytes" where
  "append_pstring out text = append_raw (out @ [word_of_nat (length text)]) text"

text \<open>The out parameter \<open>consumed\<close> is the second component of the result.\<close>

definition read_pstring :: "bytes \<Rightarrow> (DecodeError, string \<times> nat) checked" where
  "read_pstring bs =
     (if bs = [] then Some (Inl truncated)
      else do {
        len \<leftarrow> span_at 0 bs;
        if length bs < unat len + 1 then Some (Inl truncated)
        else do {
          text \<leftarrow> span_sub 1 (unat len) bs;
          Some (Inr (read_raw_name text, unat len + 1)) } })"

record tracker_server_entry =
  te_address :: "u8 list"
  te_port :: u16
  te_user_count :: u16
  te_flags :: u16
  te_name :: string
  te_description :: string

definition append_server_entry :: "bytes \<Rightarrow> tracker_server_entry \<Rightarrow> bytes" where
  "append_server_entry out e =
     append_pstring (append_pstring
       (out @ te_address e @ write_u16be (te_port e) @ write_u16be (te_user_count e) @
        write_u16be (te_flags e))
       (te_name e)) (te_description e)"

definition read_server_entry :: "bytes \<Rightarrow> (DecodeError, tracker_server_entry \<times> nat) checked" where
  "read_server_entry bs =
     (if length bs < 12 then Some (Inl truncated)
      else do {
        address \<leftarrow> span_first 4 bs;
        port \<leftarrow> u16be_at 4 bs;
        user_count \<leftarrow> u16be_at 6 bs;
        flags \<leftarrow> u16be_at 8 bs;
        tail1 \<leftarrow> span_from 10 bs;
        and_then (read_pstring tail1) (\<lambda>(name, name_consumed). do {
          tail2 \<leftarrow> span_from (10 + name_consumed) bs;
          and_then (read_pstring tail2) (\<lambda>(description, desc_consumed).
            Some (Inr (\<lparr> te_address = address, te_port = port, te_user_count = user_count,
              te_flags = flags, te_name = name, te_description = description \<rparr>,
              10 + name_consumed + desc_consumed))) }) })"

section \<open>Registration\<close>

record tracker_registration =
  tr_port :: u16
  tr_user_count :: u16
  tr_flags :: u16
  tr_pass_id :: u32
  tr_name :: string
  tr_description :: string
  tr_password :: string

record tracker_registration_message =
  trm_type :: u16
  trm_registration :: tracker_registration

definition encode_tracker_registration :: "u16 \<Rightarrow> tracker_registration \<Rightarrow> EncodeError + bytes" where
  "encode_tracker_registration type r =
     (if length (tr_name r) > 255 \<or> length (tr_description r) > 255 \<or> length (tr_password r) > 255
      then Inl string_too_long
      else Inr (append_pstring (append_pstring (append_pstring
        (write_u16be type @ write_u16be (tr_port r) @ write_u16be (tr_user_count r) @
         write_u16be (tr_flags r) @ write_u32be (tr_pass_id r))
        (tr_name r)) (tr_description r)) (tr_password r)))"

definition try_decode_tracker_registration ::
    "bytes \<Rightarrow> (DecodeError, tracker_registration_message) checked" where
  "try_decode_tracker_registration bs =
     (if length bs \<le> 14 then Some (Inl truncated)
      else do {
        type \<leftarrow> u16be_at 0 bs;
        if type \<noteq> kRegistrationTypeAdd \<and> type \<noteq> kRegistrationTypeRemove
        then Some (Inl wrong_format_tag)
        else do {
          port \<leftarrow> u16be_at 2 bs;
          user_count \<leftarrow> u16be_at 4 bs;
          flags \<leftarrow> u16be_at 6 bs;
          pass_id \<leftarrow> u32be_at 8 bs;
          t1 \<leftarrow> span_from 12 bs;
          and_then (read_pstring t1) (\<lambda>(name, c1). do {
            t2 \<leftarrow> span_from (12 + c1) bs;
            and_then (read_pstring t2) (\<lambda>(description, c2). do {
              t3 \<leftarrow> span_from (12 + c1 + c2) bs;
              and_then (read_pstring t3) (\<lambda>(password, c3).
                if 12 + c1 + c2 + c3 \<noteq> length bs then Some (Inl trailing_bytes)
                else Some (Inr \<lparr> trm_type = type, trm_registration =
                  \<lparr> tr_port = port, tr_user_count = user_count, tr_flags = flags,
                    tr_pass_id = pass_id, tr_name = name, tr_description = description,
                    tr_password = password \<rparr> \<rparr>)) }) }) } })"

section \<open>Handshake\<close>

record tracker_handshake =
  tk_version :: u16
  tk_login :: string
  tk_password :: string

definition login_field :: "string \<Rightarrow> bytes" where
  "login_field text =
     (let n = min (length text) 31
      in [word_of_nat n] @ map byte_of_char (take n text) @ replicate (kTrackerLoginFieldSize - 1 - n) 0)"

definition encode_tracker_handshake :: "u16 \<Rightarrow> string \<Rightarrow> string \<Rightarrow> bytes" where
  "encode_tracker_handshake version login password =
     write_u32be kTrackerProtocolTag @ write_u16be version @
     (if version = kTrackerHandshakeVersion2 then login_field login @ login_field password else [])"

definition parse_login_field :: "bytes \<Rightarrow> (DecodeError, string) checked" where
  "parse_login_field f = do {
     len \<leftarrow> span_at 0 f;
     if unat len > 31 then Some (Inl truncated)
     else do { text \<leftarrow> span_sub 1 (unat len) f; Some (Inr (read_raw_name text)) } }"

definition try_decode_tracker_handshake :: "bytes \<Rightarrow> (DecodeError, tracker_handshake) checked" where
  "try_decode_tracker_handshake bs =
     (if length bs < kTrackerHandshakeSizeV1 then Some (Inl truncated)
      else do {
        tag \<leftarrow> u32be_at 0 bs;
        if tag \<noteq> kTrackerProtocolTag then Some (Inl wrong_format_tag)
        else do {
          version \<leftarrow> u16be_at 4 bs;
          if version = kTrackerHandshakeVersion1 then
            (if length bs \<noteq> kTrackerHandshakeSizeV1 then Some (Inl trailing_bytes)
             else Some (Inr \<lparr> tk_version = version, tk_login = [], tk_password = [] \<rparr>))
          else if version \<noteq> kTrackerHandshakeVersion2 then Some (Inl unsupported_version)
          else if length bs < kTrackerHandshakeSizeV2 then Some (Inl truncated)
          else if length bs > kTrackerHandshakeSizeV2 then Some (Inl trailing_bytes)
          else do {
            f1 \<leftarrow> span_sub 6 kTrackerLoginFieldSize bs;
            f2 \<leftarrow> span_sub (6 + kTrackerLoginFieldSize) kTrackerLoginFieldSize bs;
            and_then (parse_login_field f1) (\<lambda>login.
              and_then (parse_login_field f2) (\<lambda>password.
                Some (Inr \<lparr> tk_version = version, tk_login = login, tk_password = password \<rparr>))) } } })"

definition encode_tracker_handshake_reply :: "u16 \<Rightarrow> bytes" where
  "encode_tracker_handshake_reply version = write_u32be kTrackerProtocolTag @ write_u16be version"

definition try_decode_tracker_handshake_reply :: "bytes \<Rightarrow> (DecodeError, u16) checked" where
  "try_decode_tracker_handshake_reply bs =
     (if length bs < kTrackerHandshakeSizeV1 then Some (Inl truncated)
      else if length bs > kTrackerHandshakeSizeV1 then Some (Inl trailing_bytes)
      else do {
        tag \<leftarrow> u32be_at 0 bs;
        if tag \<noteq> kTrackerProtocolTag then Some (Inl wrong_format_tag)
        else do { version \<leftarrow> u16be_at 4 bs; Some (Inr version) } })"

section \<open>Server lists and lookups\<close>

record tracker_server_list =
  sl_total_count :: u16
  sl_servers :: "tracker_server_entry list"

fun encode_server_entries :: "bytes \<Rightarrow> tracker_server_entry list \<Rightarrow> EncodeError + bytes" where
  "encode_server_entries entries [] = Inr entries"
| "encode_server_entries entries (e # es) =
     (if length (te_name e) > 255 \<or> length (te_description e) > 255 then Inl string_too_long
      else encode_server_entries (append_server_entry entries e) es)"

definition encode_tracker_server_list :: "tracker_server_list \<Rightarrow> EncodeError + bytes" where
  "encode_tracker_server_list m =
     (if length (sl_servers m) > kMaxFieldCount then Inl count_too_large
      else case encode_server_entries [] (sl_servers m) of
             Inl e \<Rightarrow> Inl e
           | Inr entries \<Rightarrow>
               (let sz = 4 + length entries in
                if sz > kMaxFieldDataSize then Inl element_too_large
                else Inr (write_u16be kServerListType @ write_u16be (word_of_nat sz) @
                  write_u16be (sl_total_count m) @ write_u16be (word_of_nat (length (sl_servers m))) @
                  entries)))"

definition decode_server_entry :: "bytes \<Rightarrow> (DecodeError, tracker_server_entry \<times> bytes) checked" where
  "decode_server_entry entries =
     and_then (read_server_entry entries) (\<lambda>(e, consumed). do {
       rest \<leftarrow> span_from consumed entries;
       Some (Inr (e, rest)) })"

definition try_decode_tracker_server_list :: "bytes \<Rightarrow> (DecodeError, tracker_server_list) checked" where
  "try_decode_tracker_server_list bs =
     (if length bs < 4 then Some (Inl truncated)
      else do {
        type \<leftarrow> u16be_at 0 bs;
        if type \<noteq> kServerListType then Some (Inl wrong_format_tag)
        else do {
          sz \<leftarrow> u16be_at 2 bs;
          if unat sz < 4 then Some (Inl truncated)
          else if length bs < 4 + unat sz then Some (Inl truncated)
          else if length bs > 4 + unat sz then Some (Inl trailing_bytes)
          else do {
            total_count \<leftarrow> u16be_at 4 bs;
            count \<leftarrow> u16be_at 6 bs;
            entries \<leftarrow> span_sub 8 (unat sz - 4) bs;
            and_then (read_many decode_server_entry (unat count) entries) (\<lambda>(servers, rest).
              if rest \<noteq> [] then Some (Inl trailing_bytes)
              else Some (Inr \<lparr> sl_total_count = total_count, sl_servers = servers \<rparr>)) } } })"

record tracker_lookup_reply =
  lr_found :: bool
  lr_entry :: tracker_server_entry

definition default_server_entry :: tracker_server_entry where
  "default_server_entry = \<lparr> te_address = replicate 4 0, te_port = 0, te_user_count = 0, te_flags = 0,
     te_name = [], te_description = [] \<rparr>"

definition encode_tracker_lookup_reply :: "tracker_lookup_reply \<Rightarrow> EncodeError + bytes" where
  "encode_tracker_lookup_reply r =
     (if lr_found r then
        (if length (te_name (lr_entry r)) > 255 \<or> length (te_description (lr_entry r)) > 255
         then Inl string_too_long
         else (let entry_bytes = append_server_entry [] (lr_entry r) in
           if length entry_bytes > kMaxFieldDataSize then Inl element_too_large
           else Inr (write_u16be kLookupTypeFound @ write_u16be (word_of_nat (length entry_bytes)) @
             entry_bytes)))
      else Inr (write_u16be kLookupTypeNotFound @ write_u16be 0))"

definition try_decode_tracker_lookup_reply :: "bytes \<Rightarrow> (DecodeError, tracker_lookup_reply) checked" where
  "try_decode_tracker_lookup_reply bs =
     (if length bs < 4 then Some (Inl truncated)
      else do {
        type \<leftarrow> u16be_at 0 bs;
        sz \<leftarrow> u16be_at 2 bs;
        if type = kLookupTypeNotFound then
          (if sz \<noteq> 0 then Some (Inl trailing_bytes)
           else if length bs \<noteq> 4 then Some (Inl trailing_bytes)
           else Some (Inr \<lparr> lr_found = False, lr_entry = default_server_entry \<rparr>))
        else if type \<noteq> kLookupTypeFound then Some (Inl wrong_format_tag)
        else if length bs \<noteq> 4 + unat sz then
          Some (Inl (if length bs < 4 + unat sz then truncated else trailing_bytes))
        else do {
          body \<leftarrow> span_sub 4 (unat sz) bs;
          and_then (read_server_entry body) (\<lambda>(entry, consumed).
            if consumed \<noteq> unat sz then Some (Inl trailing_bytes)
            else Some (Inr \<lparr> lr_found = True, lr_entry = entry \<rparr>)) } })"

section \<open>Strings and entries, as elements\<close>

definition emit_pstring :: "string \<Rightarrow> bytes" where
  "emit_pstring s = word_of_nat (length s) # map byte_of_char s"

definition emit_server_entry :: "tracker_server_entry \<Rightarrow> bytes" where
  "emit_server_entry e = te_address e @ write_u16be (te_port e) @ write_u16be (te_user_count e) @
     write_u16be (te_flags e) @ emit_pstring (te_name e) @ emit_pstring (te_description e)"

definition entry_ok :: "tracker_server_entry \<Rightarrow> bool" where
  "entry_ok e \<longleftrightarrow> length (te_address e) = 4 \<and> length (te_name e) \<le> 255 \<and> length (te_description e) \<le> 255"

lemma append_pstring_emit: "append_pstring out s = out @ emit_pstring s"
  by (simp add: append_pstring_def append_raw_def emit_pstring_def)

lemma append_server_entry_emit: "append_server_entry out e = out @ emit_server_entry e"
  by (simp add: append_server_entry_def append_pstring_emit emit_server_entry_def)

lemma length_emit_pstring [simp]: "length (emit_pstring s) = length s + 1"
  by (simp add: emit_pstring_def)

lemma read_pstring_emit:
  "length s \<le> 255 \<Longrightarrow> read_pstring (emit_pstring s @ rest) = Some (Inr (s, length s + 1))"
  by (simp add: read_pstring_def emit_pstring_def span_simps)

lemma read_pstring_inv:
  assumes "read_pstring bs = Some (Inr (s, n))"
  shows "length s \<le> 255 \<and> n = length s + 1 \<and> n \<le> length bs \<and> bs = emit_pstring s @ drop n bs"
proof -
  obtain b body where bs: "bs = b # body"
    using assms by (cases bs) (auto simp: read_pstring_def)
  obtain l where l: "unat b = l" by simp
  have le: "l \<le> 255" and w: "word_of_nat l = b" unfolding l [symmetric] by simp_all
  from assms have "l \<le> length body" "s = read_raw_name (take l body)" "n = l + 1"
    unfolding bs by (simp_all add: read_pstring_def span_simps l split: if_splits)
  then show ?thesis using le w by (simp add: bs emit_pstring_def)
qed

lemma read_pstring_safe: "read_pstring bs \<noteq> None"
  by (cases bs) (simp_all add: read_pstring_def span_simps)

lemma read_server_entry_emit:
  assumes "entry_ok e"
  shows "read_server_entry (emit_server_entry e @ rest) = Some (Inr (e, length (emit_server_entry e)))"
proof -
  obtain bs where bs: "bs = emit_server_entry e @ rest" by simp
  have a: "length (te_address e) = 4" and ok: "length (te_name e) \<le> 255" "length (te_description e) \<le> 255"
    using assms by (simp_all add: entry_ok_def)
  have head: "span_first 4 bs = Some (te_address e)" "u16be_at 4 bs = Some (te_port e)"
    "u16be_at 6 bs = Some (te_user_count e)" "u16be_at 8 bs = Some (te_flags e)"
    and tails: "span_from 10 bs = Some (emit_pstring (te_name e) @ emit_pstring (te_description e) @ rest)"
    "span_from (10 + (length (te_name e) + 1)) bs = Some (emit_pstring (te_description e) @ rest)"
    and len: "\<not> length bs < 12"
    using a by (simp_all add: bs emit_server_entry_def span_simps)
  have size: "length (emit_server_entry e) = 10 + (length (te_name e) + 1) + (length (te_description e) + 1)"
    using a by (simp add: emit_server_entry_def)
  show ?thesis
    unfolding size bs [symmetric] read_server_entry_def
    using len head tails by (simp add: read_pstring_emit [OF ok(1)] read_pstring_emit [OF ok(2)])
qed

lemma read_server_entry_inv:
  assumes "read_server_entry bs = Some (Inr (e, n))"
  shows "entry_ok e \<and> n = length (emit_server_entry e) \<and> n \<le> length bs \<and> bs = emit_server_entry e @ drop n bs"
proof -
  have l12: "\<not> length bs < 12" using assms by (auto simp: read_server_entry_def)
  from assms l12 obtain name n1 desc n2 where
    r1: "read_pstring (drop 10 bs) = Some (Inr (name, n1))" and l1: "10 + n1 \<le> length bs"
    and r2: "read_pstring (drop (10 + n1) bs) = Some (Inr (desc, n2))"
    and e: "e = \<lparr> te_address = take 4 bs, te_port = read_u16be (take 2 (drop 4 bs)),
      te_user_count = read_u16be (take 2 (drop 6 bs)), te_flags = read_u16be (take 2 (drop 8 bs)),
      te_name = name, te_description = desc \<rparr>" and n: "n = 10 + n1 + n2"
    by (auto simp: read_server_entry_def span_simps and_then_Ok span_from_def bind_eq_Some_conv
        split: if_splits)
  note i1 = read_pstring_inv [OF r1] and i2 = read_pstring_inv [OF r2]
  have "bs = take 4 bs @ take 2 (drop 4 bs) @ take 2 (drop 6 bs) @ take 2 (drop 8 bs) @ drop 10 bs"
    using take_drop_join [of 10 8 2 bs] take_drop_join [of 8 6 2 bs] take_drop_join [of 6 4 2 bs] by simp
  also have "drop 10 bs = emit_pstring name @ drop (10 + n1) bs" using i1 by (simp add: add.commute)
  also have "drop (10 + n1) bs = emit_pstring desc @ drop n bs" using i2 n by (simp add: ac_simps)
  finally have "bs = emit_server_entry e @ drop n bs"
    using l12 by (simp add: e emit_server_entry_def)
  moreover have "n = length (emit_server_entry e)" using i1 i2 l12 by (simp add: e n emit_server_entry_def)
  moreover have "entry_ok e" using i1 i2 l12 by (simp add: e entry_ok_def)
  moreover have "n2 \<le> length bs - (10 + n1)" using i2 by simp
  then have "n \<le> length bs" using l1 n by linarith
  ultimately show ?thesis by blast
qed

lemma read_server_entry_safe: "read_server_entry bs \<noteq> None"
proof (cases "length bs < 12")
  case False
  then show ?thesis
    by (auto simp: read_server_entry_def span_simps and_then_def read_pstring_safe split: option.splits sum.splits
        dest!: read_pstring_inv)
qed (simp add: read_server_entry_def)

interpretation entry: canonical_element emit_server_entry decode_server_entry entry_ok
proof (unfold_locales, goal_cases)
  case (1 e rest)
  then show ?case by (simp add: decode_server_entry_def read_server_entry_emit span_simps)
next
  case (2 bs)
  show ?case unfolding decode_server_entry_def
    by (rule and_then_safe [OF read_server_entry_safe])
      (auto dest!: read_server_entry_inv simp: span_simps)
next
  case (3 bs e rest)
  then show ?case
    by (auto simp: decode_server_entry_def and_then_Ok span_from_def bind_eq_Some_conv split: if_splits
        dest!: read_server_entry_inv)
qed

section \<open>Message codecs\<close>

definition registration_ok :: "tracker_registration_message \<Rightarrow> bool" where
  "registration_ok m \<longleftrightarrow> trm_type m \<in> {kRegistrationTypeAdd, kRegistrationTypeRemove}
     \<and> length (tr_name (trm_registration m)) \<le> 255 \<and> length (tr_description (trm_registration m)) \<le> 255
     \<and> length (tr_password (trm_registration m)) \<le> 255"

definition encode_registration_message :: "tracker_registration_message \<Rightarrow> EncodeError + bytes" where
  "encode_registration_message m = encode_tracker_registration (trm_type m) (trm_registration m)"

definition registration_head :: "u16 \<Rightarrow> tracker_registration \<Rightarrow> bytes" where
  "registration_head type r = write_u16be type @ write_u16be (tr_port r) @ write_u16be (tr_user_count r) @
     write_u16be (tr_flags r) @ write_u32be (tr_pass_id r)"

lemma length_registration_head [simp]: "length (registration_head type r) = 12"
  by (simp add: registration_head_def)

lemma encode_registration_wire:
  assumes "registration_ok m"
  shows "encode_registration_message m = Inr (registration_head (trm_type m) (trm_registration m) @
    emit_pstring (tr_name (trm_registration m)) @ emit_pstring (tr_description (trm_registration m)) @
    emit_pstring (tr_password (trm_registration m)))"
  using assms by (simp add: encode_registration_message_def encode_tracker_registration_def
      registration_ok_def append_pstring_emit registration_head_def)

lemma try_decode_registration_wire:
  assumes ok: "registration_ok m"
  shows "try_decode_tracker_registration (registration_head (trm_type m) (trm_registration m) @
    emit_pstring (tr_name (trm_registration m)) @ emit_pstring (tr_description (trm_registration m)) @
    emit_pstring (tr_password (trm_registration m)) @ xs)
    = (if xs = [] then Some (Inr m) else Some (Inl trailing_bytes))"
proof -
  obtain t r where m: "m = \<lparr> trm_type = t, trm_registration = r \<rparr>" by (cases m) simp
  define bs where "bs = registration_head t r @ emit_pstring (tr_name r) @
      emit_pstring (tr_description r) @ emit_pstring (tr_password r) @ xs"
  have head: "u16be_at 0 bs = Some t" "u16be_at 2 bs = Some (tr_port r)"
    "u16be_at 4 bs = Some (tr_user_count r)" "u16be_at 6 bs = Some (tr_flags r)"
    "u32be_at 8 bs = Some (tr_pass_id r)"
    by (simp_all add: bs_def registration_head_def span_simps)
  have tails: "span_from 12 bs = Some (emit_pstring (tr_name r) @ emit_pstring (tr_description r) @
      emit_pstring (tr_password r) @ xs)"
    "span_from (12 + (length (tr_name r) + 1)) bs = Some (emit_pstring (tr_description r) @
      emit_pstring (tr_password r) @ xs)"
    "span_from (12 + (length (tr_name r) + 1) + (length (tr_description r) + 1)) bs
      = Some (emit_pstring (tr_password r) @ xs)"
    by (simp_all add: bs_def span_simps)
  have len: "\<not> length bs \<le> 14" "length bs = 12 + (length (tr_name r) + 1) + (length (tr_description r) + 1)
      + (length (tr_password r) + 1) + length xs"
    by (simp_all add: bs_def)
  have oks: "length (tr_name r) \<le> 255" "length (tr_description r) \<le> 255" "length (tr_password r) \<le> 255"
    and type: "t = 1 \<or> t = 2"
    using ok by (simp_all add: registration_ok_def m)
  note reads = read_pstring_emit [OF oks(1)] read_pstring_emit [OF oks(2)] read_pstring_emit [OF oks(3)]
    read_pstring_emit [OF oks(3), of "[]", simplified]
  have "try_decode_tracker_registration bs = (if xs = [] then Some (Inr m) else Some (Inl trailing_bytes))"
    unfolding try_decode_tracker_registration_def
    using len(1) type head tails
    by (auto simp add: reads len(2) m)
  then show ?thesis by (simp add: bs_def m)
qed

lemma try_decode_registration_inv:
  assumes "try_decode_tracker_registration bs = Some (Inr m)"
  shows "registration_ok m \<and> encode_registration_message m = Inr bs"
proof -
  have l: "\<not> length bs \<le> 14" using assms by (auto simp: try_decode_tracker_registration_def)
  from assms l obtain s1 n1 s2 n2 s3 n3 where
    type: "read_u16be (take 2 bs) \<in> {1, 2}"
    and r1: "read_pstring (drop 12 bs) = Some (Inr (s1, n1))" and l1: "12 + n1 \<le> length bs"
    and r2: "read_pstring (drop (12 + n1) bs) = Some (Inr (s2, n2))" and l2: "12 + n1 + n2 \<le> length bs"
    and r3: "read_pstring (drop (12 + n1 + n2) bs) = Some (Inr (s3, n3))"
    and total: "12 + n1 + n2 + n3 = length bs"
    and m: "m = \<lparr> trm_type = read_u16be (take 2 bs), trm_registration =
      \<lparr> tr_port = read_u16be (take 2 (drop 2 bs)), tr_user_count = read_u16be (take 2 (drop 4 bs)),
        tr_flags = read_u16be (take 2 (drop 6 bs)), tr_pass_id = read_u32be (take 4 (drop 8 bs)),
        tr_name = s1, tr_description = s2, tr_password = s3 \<rparr> \<rparr>"
    by (auto simp: try_decode_tracker_registration_def span_simps and_then_Ok span_from_def
        bind_eq_Some_conv split: if_splits)
  note i1 = read_pstring_inv [OF r1] and i2 = read_pstring_inv [OF r2] and i3 = read_pstring_inv [OF r3]
  have ok: "registration_ok m" using i1 i2 i3 type by (simp add: m registration_ok_def)
  have "bs = take 2 bs @ take 2 (drop 2 bs) @ take 2 (drop 4 bs) @ take 2 (drop 6 bs) @
      take 4 (drop 8 bs) @ drop 12 bs"
    using take_drop_join [of 12 8 4 bs] take_drop_join [of 8 6 2 bs] take_drop_join [of 6 4 2 bs]
      take_drop_join [of 4 2 2 bs] by simp
  also have "drop 12 bs = emit_pstring s1 @ drop (12 + n1) bs" using i1 by (simp add: add.commute)
  also have "drop (12 + n1) bs = emit_pstring s2 @ drop (12 + n1 + n2) bs"
    using i2 by (simp add: ac_simps)
  also have "drop (12 + n1 + n2) bs = emit_pstring s3"
    using i3 total by (metis add_diff_cancel_left' append_Nil2 drop_all length_drop order_refl)
  finally have "bs = registration_head (trm_type m) (trm_registration m) @ emit_pstring s1 @
      emit_pstring s2 @ emit_pstring s3"
    using l by (simp add: registration_head_def m)
  then show ?thesis using ok encode_registration_wire [OF ok] by (simp add: m)
qed

lemma try_decode_registration_safe: "try_decode_tracker_registration bs \<noteq> None"
proof (cases "length bs \<le> 14")
  case False
  then show ?thesis
    by (auto simp: try_decode_tracker_registration_def span_simps and_then_def read_pstring_safe
        split: option.splits sum.splits dest!: read_pstring_inv)
qed (simp add: try_decode_tracker_registration_def)

interpretation treg: canonical_codec encode_registration_message try_decode_tracker_registration
  registration_ok
proof (unfold_locales, goal_cases)
  case (1 m)
  then show ?case by (simp add: encode_registration_wire)
next
  case (2 m bs)
  then show ?case using try_decode_registration_wire [of m "[]"] by (simp add: encode_registration_wire)
next
  case (3 bs)
  show ?case by (rule try_decode_registration_safe)
next
  case (4 m bs xs)
  then show ?case using try_decode_registration_wire [of m xs] by (auto simp: encode_registration_wire)
next
  case (5 bs m)
  then show ?case by (rule try_decode_registration_inv)
qed

end
