(* ===== verification/Tracker_Codecs.thy ===== *)
theory Tracker_Codecs
  imports Tracker
begin

text \<open>
  The contracts of the tracker messages of \<open>hotline/protocol/tracker.cpp\<close>: handshake and
  reply, server lists and lookup replies, and the properties of the component.
\<close>

section \<open>Server lists\<close>

definition server_list_ok :: "tracker_server_list \<Rightarrow> bool" where
  "server_list_ok m \<longleftrightarrow> list_all entry_ok (sl_servers m)
     \<and> 4 + length (concat (map emit_server_entry (sl_servers m))) \<le> kMaxFieldDataSize"

text \<open>The sources keep four octets in a \<open>std::array\<close>, so an entry always has four.\<close>

definition entry_shape :: "tracker_server_entry \<Rightarrow> bool" where
  "entry_shape e \<longleftrightarrow> length (te_address e) = 4"

lemma entry_ok_shape: "entry_ok e \<longleftrightarrow> entry_shape e \<and>
    \<not> (length (te_name e) > 255 \<or> length (te_description e) > 255)"
  by (auto simp: entry_ok_def entry_shape_def)

lemma encode_server_entries_emit:
  "list_all entry_shape es \<Longrightarrow> encode_server_entries out es =
     (if list_all entry_ok es then Inr (out @ concat (map emit_server_entry es)) else Inl string_too_long)"
  by (induction es arbitrary: out) (auto simp: append_server_entry_emit entry_ok_shape)

lemma entry_count_bound:
  "list_all entry_ok es \<Longrightarrow> length (concat (map emit_server_entry es)) \<le> n \<Longrightarrow> 12 * length es \<le> n"
  by (induction es arbitrary: n) (fastforce simp: emit_server_entry_def entry_ok_def)+

definition list_wire :: "tracker_server_list \<Rightarrow> bytes" where
  "list_wire m = write_u16be kServerListType @
     write_u16be (word_of_nat (4 + length (concat (map emit_server_entry (sl_servers m))))) @
     write_u16be (sl_total_count m) @ write_u16be (word_of_nat (length (sl_servers m))) @
     concat (map emit_server_entry (sl_servers m))"

lemma server_list_ok_count: "server_list_ok m \<Longrightarrow> length (sl_servers m) \<le> 65535"
  using entry_count_bound [of "sl_servers m" 65535] by (simp add: server_list_ok_def)

lemma list_all_mono: "list_all P xs \<Longrightarrow> (\<And>x. P x \<Longrightarrow> Q x) \<Longrightarrow> list_all Q xs"
  by (simp add: list_all_iff)

lemma encode_server_list_wire:
  assumes "server_list_ok m"
  shows "encode_tracker_server_list m = Inr (list_wire m)"
proof -
  have "list_all entry_shape (sl_servers m)"
    using assms list_all_mono [of entry_ok "sl_servers m" entry_shape]
    by (simp add: server_list_ok_def entry_ok_shape)
  then show ?thesis
    using assms server_list_ok_count [OF assms]
    by (simp add: encode_tracker_server_list_def encode_server_entries_emit server_list_ok_def
        list_wire_def Let_def)
qed

lemma try_decode_list_pieces:
  assumes "unat sz = 4 + l" and "l \<le> length entries"
  shows "try_decode_tracker_server_list (write_u16be kServerListType @ write_u16be sz @
      write_u16be tot @ write_u16be n @ entries) =
    (if length entries > l then Some (Inl trailing_bytes)
     else and_then (read_many decode_server_entry (unat n) entries) (\<lambda>(servers, rest).
       if rest \<noteq> [] then Some (Inl trailing_bytes)
       else Some (Inr \<lparr> sl_total_count = tot, sl_servers = servers \<rparr>)))"
  using assms by (simp add: try_decode_tracker_server_list_def span_simps)

lemma try_decode_list_wire:
  assumes "server_list_ok m"
  shows "try_decode_tracker_server_list (list_wire m @ xs) =
    (if xs = [] then Some (Inr m) else Some (Inl trailing_bytes))"
proof -
  let ?p = "concat (map emit_server_entry (sl_servers m))"
  have ok: "list_all entry_ok (sl_servers m)" and le: "4 + length ?p \<le> 65535"
    using assms by (simp_all add: server_list_ok_def)
  then have u: "unat (word_of_nat (4 + length ?p) :: u16) = 4 + length ?p"
    by (intro word_of_nat_inverse16)
  have n: "unat (word_of_nat (length (sl_servers m)) :: u16) = length (sl_servers m)"
    using server_list_ok_count [OF assms] by simp
  show ?thesis
    unfolding list_wire_def append_assoc
    by (subst try_decode_list_pieces [OF u]) (simp_all add: n entry.many_emit_all [OF ok] del: length_concat)
qed

lemma try_decode_list_split:
  assumes "\<not> length bs < 4" and l: "unat (read_u16be (take 2 (drop 2 bs))) = l"
  shows "try_decode_tracker_server_list bs =
    (if read_u16be (take 2 bs) \<noteq> 1 then Some (Inl wrong_format_tag)
     else if l < 4 \<or> length bs < 4 + l then Some (Inl truncated)
     else if length bs > 4 + l then Some (Inl trailing_bytes)
     else and_then (read_many decode_server_entry (unat (read_u16be (take 2 (drop 6 bs)))) (drop 8 bs))
       (\<lambda>(servers, rest). if rest \<noteq> [] then Some (Inl trailing_bytes)
         else Some (Inr \<lparr> sl_total_count = read_u16be (take 2 (drop 4 bs)), sl_servers = servers \<rparr>)))"
proof -
  have at: "u16be_at 0 bs = Some (read_u16be (take 2 bs))"
    "u16be_at 2 bs = Some (read_u16be (take 2 (drop 2 bs)))" using assms(1) by (simp_all add: span_simps)
  consider "l < 4 \<or> length bs < 4 + l" | "l \<ge> 4" "length bs > 4 + l" | "l \<ge> 4" "length bs = 4 + l"
    by linarith
  then show ?thesis
  proof cases
    case 3
    then have at2: "u16be_at 4 bs = Some (read_u16be (take 2 (drop 4 bs)))"
      "u16be_at 6 bs = Some (read_u16be (take 2 (drop 6 bs)))"
      "span_sub 8 (l - 4) bs = Some (drop 8 bs)" by (simp_all add: span_simps)
    from 3 assms(1) show ?thesis by (simp add: try_decode_tracker_server_list_def at at2 l)
  qed (use assms(1) in \<open>auto simp: try_decode_tracker_server_list_def at l\<close>)
qed

lemma try_decode_list_safe: "try_decode_tracker_server_list bs \<noteq> None"
proof (cases "length bs < 4")
  case False
  have loop: "and_then (read_many decode_server_entry n path) (\<lambda>(servers, rest).
      if rest \<noteq> [] then Some (Inl trailing_bytes)
      else Some (Inr \<lparr> sl_total_count = t, sl_servers = servers \<rparr>)) \<noteq> None" for n path t
    by (rule and_then_safe [OF entry.many_safe]) (auto split: prod.splits)
  obtain l where l: "unat (read_u16be (take 2 (drop 2 bs))) = l" by simp
  show ?thesis using loop by (simp add: try_decode_list_split [OF False l])
qed (simp add: try_decode_tracker_server_list_def)

lemma try_decode_list_inv:
  assumes "try_decode_tracker_server_list bs = Some (Inr m)"
  shows "server_list_ok m \<and> list_wire m = bs"
proof -
  have l4: "\<not> length bs < 4" using assms by (auto simp: try_decode_tracker_server_list_def)
  obtain l where l: "unat (read_u16be (take 2 (drop 2 bs))) = l" by simp
  obtain n where n: "unat (read_u16be (take 2 (drop 6 bs))) = n" by simp
  from assms have tag: "read_u16be (take 2 bs) = 1" and l_ge: "l \<ge> 4" and len: "length bs = 4 + l"
    and r: "read_many decode_server_entry n (drop 8 bs) = Some (Inr (sl_servers m, []))"
    and t: "sl_total_count m = read_u16be (take 2 (drop 4 bs))"
    by (auto simp: try_decode_list_split [OF l4 l] n and_then_Ok split: if_splits)
  from entry.many_inv [OF r] have ok: "list_all entry_ok (sl_servers m)"
    and c: "length (sl_servers m) = n" and body: "concat (map emit_server_entry (sl_servers m)) = drop 8 bs"
    by simp_all
  have w: "word_of_nat l = read_u16be (take 2 (drop 2 bs))" "word_of_nat n = read_u16be (take 2 (drop 6 bs))"
    unfolding l [symmetric] n [symmetric] by simp_all
  have le: "l \<le> 65535" using unat_u16_le [of "read_u16be (take 2 (drop 2 bs))"] l by simp
  have size: "4 + length (drop 8 bs) = l" using len l_ge by simp
  have "write_u16be (read_u16be (take 2 bs)) = take 2 bs" using l4 by simp
  then have type: "write_u16be 1 = take 2 bs" by (simp only: tag)
  with size have "list_wire m = take 2 bs @ take 2 (drop 2 bs) @ take 2 (drop 4 bs) @ take 2 (drop 6 bs) @ drop 8 bs"
    unfolding list_wire_def body c t w
    using len l_ge type by (simp add: w)
  also have "\<dots> = bs"
    using take_drop_join [of 8 6 2 bs] take_drop_join [of 6 4 2 bs] take_drop_join [of 4 2 2 bs] by simp
  finally have "list_wire m = bs" .
  moreover have "server_list_ok m"
    using ok le size by (simp add: server_list_ok_def body)
  ultimately show ?thesis by simp
qed

interpretation tlist: canonical_codec encode_tracker_server_list try_decode_tracker_server_list server_list_ok
proof (unfold_locales, goal_cases)
  case (1 m)
  then show ?case by (simp add: encode_server_list_wire)
next
  case (2 m bs)
  then show ?case using try_decode_list_wire [of m "[]"] by (simp add: encode_server_list_wire)
next
  case (3 bs)
  show ?case by (rule try_decode_list_safe)
next
  case (4 m bs xs)
  then show ?case using try_decode_list_wire [of m xs] by (auto simp: encode_server_list_wire)
next
  case (5 bs m)
  then show ?case using try_decode_list_inv encode_server_list_wire by metis
qed

section \<open>Lookup replies\<close>

definition lookup_ok :: "tracker_lookup_reply \<Rightarrow> bool" where
  "lookup_ok r \<longleftrightarrow> (if lr_found r then entry_ok (lr_entry r) else lr_entry r = default_server_entry)"

definition lookup_wire :: "tracker_lookup_reply \<Rightarrow> bytes" where
  "lookup_wire r =
     (if lr_found r
      then write_u16be kLookupTypeFound @ write_u16be (word_of_nat (length (emit_server_entry (lr_entry r)))) @
        emit_server_entry (lr_entry r)
      else write_u16be kLookupTypeNotFound @ write_u16be 0)"

lemma length_emit_server_entry:
  "entry_ok e \<Longrightarrow> length (emit_server_entry e) \<le> 522"
  by (simp add: entry_ok_def emit_server_entry_def)

lemma encode_lookup_wire: "lookup_ok r \<Longrightarrow> encode_tracker_lookup_reply r = Inr (lookup_wire r)"
  using length_emit_server_entry [of "lr_entry r"]
  by (auto simp: encode_tracker_lookup_reply_def lookup_ok_def lookup_wire_def Let_def
      append_server_entry_emit entry_ok_def)

lemma try_decode_lookup_split:
  assumes "\<not> length bs < 4" and l: "unat (read_u16be (take 2 (drop 2 bs))) = l"
  shows "try_decode_tracker_lookup_reply bs =
    (if read_u16be (take 2 bs) = 5 then
       (if l \<noteq> 0 \<or> length bs \<noteq> 4 then Some (Inl trailing_bytes)
        else Some (Inr \<lparr> lr_found = False, lr_entry = default_server_entry \<rparr>))
     else if read_u16be (take 2 bs) \<noteq> 4 then Some (Inl wrong_format_tag)
     else if length bs \<noteq> 4 + l then Some (Inl (if length bs < 4 + l then truncated else trailing_bytes))
     else and_then (read_server_entry (drop 4 bs)) (\<lambda>(entry, consumed).
            if consumed \<noteq> l then Some (Inl trailing_bytes)
            else Some (Inr \<lparr> lr_found = True, lr_entry = entry \<rparr>)))"
proof -
  have at: "u16be_at 0 bs = Some (read_u16be (take 2 bs))"
    "u16be_at 2 bs = Some (read_u16be (take 2 (drop 2 bs)))" using assms(1) by (simp_all add: span_simps)
  have z: "read_u16be (take 2 (drop 2 bs)) = 0 \<longleftrightarrow> l = 0"
    unfolding l [symmetric] by (simp add: unat_eq_0)
  show ?thesis
  proof (cases "length bs = 4 + l")
    case True
    then have "span_sub 4 l bs = Some (drop 4 bs)" by (simp add: span_simps)
    with True show ?thesis by (simp add: try_decode_tracker_lookup_reply_def at z l)
  next
    case False
    with assms(1) show ?thesis by (simp add: try_decode_tracker_lookup_reply_def at z l)
  qed
qed

lemma try_decode_lookup_wire:
  assumes "lookup_ok r"
  shows "try_decode_tracker_lookup_reply (lookup_wire r @ xs) =
    (if xs = [] then Some (Inr r) else Some (Inl trailing_bytes))"
proof (cases "lr_found r")
  case False
  with assms have "r = \<lparr> lr_found = False, lr_entry = default_server_entry \<rparr>" by (simp add: lookup_ok_def)
  then show ?thesis
    by (simp add: try_decode_tracker_lookup_reply_def lookup_wire_def span_simps)
next
  case True
  obtain e where e: "r = \<lparr> lr_found = True, lr_entry = e \<rparr>" using True by (cases r) simp
  have ok: "entry_ok e" using assms by (simp add: lookup_ok_def e)
  define bs where "bs = lookup_wire r @ xs"
  obtain l where l: "length (emit_server_entry e) = l" by simp
  have le: "l \<le> 65535" using length_emit_server_entry [OF ok] l by simp
  have bs: "bs = write_u16be 4 @ write_u16be (word_of_nat l) @ emit_server_entry e @ xs"
    by (simp add: bs_def lookup_wire_def e l)
  have facts: "\<not> length bs < 4" "unat (read_u16be (take 2 (drop 2 bs))) = l"
    "read_u16be (take 2 bs) = 4" "length bs = 4 + l + length xs" "drop 4 bs = emit_server_entry e @ xs"
    using le by (simp_all add: bs l)
  have "try_decode_tracker_lookup_reply bs =
      (if xs = [] then Some (Inr r) else Some (Inl trailing_bytes))"
    unfolding try_decode_lookup_split [OF facts(1,2)]
    using read_server_entry_emit [OF ok, of xs] read_server_entry_emit [OF ok, of "[]"]
    by (simp add: facts e l)
  then show ?thesis by (simp add: bs_def)
qed

lemma try_decode_lookup_safe: "try_decode_tracker_lookup_reply bs \<noteq> None"
proof (cases "length bs < 4")
  case False
  have "and_then (read_server_entry b) (\<lambda>(entry, consumed).
      if consumed \<noteq> l then Some (Inl trailing_bytes)
      else Some (Inr \<lparr> lr_found = True, lr_entry = entry \<rparr>)) \<noteq> None" for b l
    by (rule and_then_safe [OF read_server_entry_safe]) (auto split: prod.splits)
  moreover obtain l where l: "unat (read_u16be (take 2 (drop 2 bs))) = l" by simp
  ultimately show ?thesis by (simp add: try_decode_lookup_split [OF False l])
qed (simp add: try_decode_tracker_lookup_reply_def)

lemma try_decode_lookup_inv:
  assumes "try_decode_tracker_lookup_reply bs = Some (Inr r)"
  shows "lookup_ok r \<and> lookup_wire r = bs"
proof -
  have l4: "\<not> length bs < 4" using assms by (auto simp: try_decode_tracker_lookup_reply_def)
  obtain l where l: "unat (read_u16be (take 2 (drop 2 bs))) = l" by simp
  have w: "word_of_nat l = read_u16be (take 2 (drop 2 bs))" unfolding l [symmetric] by simp
  have bs: "bs = take 2 bs @ take 2 (drop 2 bs) @ drop 4 bs"
    using take_drop_join [of 4 2 2 bs] by simp
  have t: "write_u16be (read_u16be (take 2 bs)) = take 2 bs"
    "write_u16be (read_u16be (take 2 (drop 2 bs))) = take 2 (drop 2 bs)" using l4 by simp_all
  show ?thesis
  proof (cases "read_u16be (take 2 bs) = 5")
    case True
    with assms have r: "r = \<lparr> lr_found = False, lr_entry = default_server_entry \<rparr>" "l = 0" "length bs = 4"
      by (auto simp: try_decode_lookup_split [OF l4 l] split: if_splits)
    have "write_u16be 5 = take 2 bs" "write_u16be 0 = take 2 (drop 2 bs)"
      using t True w r(2) by simp_all
    then have "lookup_wire r = take 2 bs @ take 2 (drop 2 bs)" by (simp add: lookup_wire_def r(1))
    also have "\<dots> = bs" using bs r(3) by simp
    finally show ?thesis by (simp add: lookup_ok_def r)
  next
    case False
    with assms have tag: "read_u16be (take 2 bs) = 4" and len: "length bs = 4 + l" and found: "lr_found r"
      and e: "read_server_entry (drop 4 bs) = Some (Inr (lr_entry r, l))"
      by (auto simp: try_decode_lookup_split [OF l4 l] and_then_Ok split: if_splits)
    from read_server_entry_inv [OF e] len have ok: "entry_ok (lr_entry r)"
      and b: "emit_server_entry (lr_entry r) = drop 4 bs" and n: "length (emit_server_entry (lr_entry r)) = l"
      by simp_all
    have "lookup_wire r = take 2 bs @ take 2 (drop 2 bs) @ drop 4 bs"
      using found t tag by (simp add: lookup_wire_def n w) (simp add: b)
    then show ?thesis using ok found bs by (simp add: lookup_ok_def)
  qed
qed

interpretation tlook: canonical_codec encode_tracker_lookup_reply try_decode_tracker_lookup_reply lookup_ok
proof (unfold_locales, goal_cases)
  case (1 r)
  then show ?case by (simp add: encode_lookup_wire)
next
  case (2 r bs)
  then show ?case using try_decode_lookup_wire [of r "[]"] by (simp add: encode_lookup_wire)
next
  case (3 bs)
  show ?case by (rule try_decode_lookup_safe)
next
  case (4 r bs xs)
  then show ?case using try_decode_lookup_wire [of r xs] by (auto simp: encode_lookup_wire)
next
  case (5 bs r)
  then show ?case using try_decode_lookup_inv encode_lookup_wire by metis
qed

section \<open>Handshake and reply\<close>

definition tracker_handshake_ok :: "tracker_handshake \<Rightarrow> bool" where
  "tracker_handshake_ok h \<longleftrightarrow>
     (tk_version h = 1 \<and> tk_login h = [] \<and> tk_password h = []) \<or>
     (tk_version h = 2 \<and> length (tk_login h) \<le> 31 \<and> length (tk_password h) \<le> 31)"

definition encode_handshake_message :: "tracker_handshake \<Rightarrow> EncodeError + bytes" where
  "encode_handshake_message h = Inr (encode_tracker_handshake (tk_version h) (tk_login h) (tk_password h))"

lemma length_login_field [simp]: "length (login_field s) = 32"
  by (simp add: login_field_def Let_def min_def)

lemma parse_login_field_wire: "parse_login_field (login_field s) = Some (Inr (take 31 s))"
proof -
  have "take (min (length s) 31) s = take 31 s" by (simp add: min_def)
  moreover have "min (length s) 31 \<le> 31" by simp
  moreover obtain n where n: "min (length s) 31 = n" by simp
  ultimately show ?thesis
    by (simp add: parse_login_field_def login_field_def Let_def span_simps n)
qed

lemma parse_login_field_safe: "length f = 32 \<Longrightarrow> parse_login_field f \<noteq> None"
  by (simp add: parse_login_field_def span_simps)

lemma try_decode_handshake_wire:
  "try_decode_tracker_handshake (encode_tracker_handshake version login password @ xs) =
     (if version = 1 then
        (if xs = [] then Some (Inr \<lparr> tk_version = 1, tk_login = [], tk_password = [] \<rparr>)
         else Some (Inl trailing_bytes))
      else if version = 2 then
        (if xs = [] then Some (Inr \<lparr> tk_version = 2, tk_login = take 31 login, tk_password = take 31 password \<rparr>)
         else Some (Inl trailing_bytes))
      else Some (Inl unsupported_version))"
  by (simp add: try_decode_tracker_handshake_def encode_tracker_handshake_def span_simps
      parse_login_field_wire)

lemma try_decode_handshake_safe: "try_decode_tracker_handshake bs \<noteq> None"
proof (cases "length bs = 70")
  case True
  then have "parse_login_field (take 32 (drop 6 bs)) \<noteq> None" "parse_login_field (take 32 (drop 38 bs)) \<noteq> None"
    by (simp_all add: parse_login_field_safe)
  then have "and_then (parse_login_field (take 32 (drop 6 bs))) (\<lambda>login.
      and_then (parse_login_field (take 32 (drop 38 bs))) (\<lambda>password.
        Some (Inr \<lparr> tk_version = v, tk_login = login, tk_password = password \<rparr>))) \<noteq> None" for v
    by (auto simp: and_then_def split: sum.split)
  then show ?thesis using True by (simp add: try_decode_tracker_handshake_def span_simps)
next
  case False
  then have "length bs < 70 \<or> length bs > 70" by linarith
  then show ?thesis by (auto simp: try_decode_tracker_handshake_def span_simps)
qed

interpretation thand: codec encode_handshake_message try_decode_tracker_handshake tracker_handshake_ok
proof (unfold_locales, goal_cases)
  case (1 h)
  then show ?case by (simp add: encode_handshake_message_def)
next
  case (2 h bs)
  then show ?case using try_decode_handshake_wire [of "tk_version h" "tk_login h" "tk_password h" "[]"]
    by (auto simp: encode_handshake_message_def tracker_handshake_ok_def)
next
  case (3 bs)
  show ?case by (rule try_decode_handshake_safe)
next
  case (4 h bs xs)
  then show ?case by (auto simp: encode_handshake_message_def tracker_handshake_ok_def try_decode_handshake_wire)
qed

interpretation treply: canonical_codec "\<lambda>v. Inr (encode_tracker_handshake_reply v)"
  try_decode_tracker_handshake_reply "\<lambda>_. True"
proof (unfold_locales, goal_cases)
  case (5 bs v)
  have l: "length bs = 6"
    using 5 by (auto simp: try_decode_tracker_handshake_reply_def split: if_splits)
  have tag: "read_u32be (take 4 bs) = kTrackerProtocolTag" "v = read_u16be (take 2 (drop 4 bs))"
    using 5 l by (auto simp: try_decode_tracker_handshake_reply_def span_simps split: if_splits)
  have "encode_tracker_handshake_reply v = take 4 bs @ drop 4 bs"
    using l unfolding encode_tracker_handshake_reply_def tag(1) [symmetric] tag(2) by simp
  then show ?case by simp
qed (auto simp: try_decode_tracker_handshake_reply_def encode_tracker_handshake_reply_def span_simps)

section \<open>Properties\<close>

text \<open>C28: Registrations, server lists, lookup replies and handshake replies are accepted exactly in
  their one wire form: the announced sizes and counts must match the entries that follow to the
  byte.  No byte string makes one of these decoders, or that of handshakes, read out of bounds.\<close>

theorem tracker_codecs_exact:
  "(try_decode_tracker_registration bs = Some (Inr m) \<longleftrightarrow>
      registration_ok m \<and> encode_tracker_registration (trm_type m) (trm_registration m) = Inr bs) \<and>
   (try_decode_tracker_server_list bs = Some (Inr l) \<longleftrightarrow>
      server_list_ok l \<and> encode_tracker_server_list l = Inr bs) \<and>
   (try_decode_tracker_lookup_reply bs = Some (Inr r) \<longleftrightarrow>
      lookup_ok r \<and> encode_tracker_lookup_reply r = Inr bs) \<and>
   (try_decode_tracker_handshake_reply bs = Some (Inr v) \<longleftrightarrow> encode_tracker_handshake_reply v = bs) \<and>
   try_decode_tracker_registration bs \<noteq> None \<and> try_decode_tracker_server_list bs \<noteq> None \<and>
   try_decode_tracker_lookup_reply bs \<noteq> None \<and> try_decode_tracker_handshake_reply bs \<noteq> None \<and>
   try_decode_tracker_handshake bs \<noteq> None"
  using treg.accepts_iff [of bs m] tlist.accepts_iff [of bs l] tlook.accepts_iff [of bs r]
    treply.accepts_iff [of bs v] treg.dec_safe [of bs] tlist.dec_safe [of bs] tlook.dec_safe [of bs]
    treply.dec_safe [of bs] thand.dec_safe [of bs]
  by (simp add: encode_registration_message_def)

text \<open>C29: A handshake of version 2 reaches the tracker with login and password cut to 31
  characters, one of version 1 without them, and any other version is refused by the decoder
  although the encoder writes it.\<close>

theorem tracker_handshake_received:
  "try_decode_tracker_handshake (encode_tracker_handshake version login password) =
     (if version = 1 then Some (Inr \<lparr> tk_version = 1, tk_login = [], tk_password = [] \<rparr>)
      else if version = 2 then
        Some (Inr \<lparr> tk_version = 2, tk_login = take 31 login, tk_password = take 31 password \<rparr>)
      else Some (Inl unsupported_version))"
  using try_decode_handshake_wire [of version login password "[]"] by simp

end
