(* ===== verification/Spec2Isabelle.thy ===== *)
theory Spec2Isabelle
  imports Address_Text Connection_Lifecycle Core_Properties Guid_Codec Harc_Archive Hope_Channel Keepalive_Properties Legacy_Header Login_Properties Net_Sessions Poller_Histories Role_Properties Tracker_Codecs
begin

text \<open>
  A verification development of Slopline, a C++23 modernisation of the Hotline client and server
  and of the AppWarrior framework below them.  Paths are relative to \<open>src/src\<close>.

  \<^bold>\<open>The program.\<close>  \<open>appwarrior/core\<close> has byte order, bit arrays, GUIDs and id-variable
  arrays; \<open>appwarrior/crypto\<close> has Blowfish with an OFB-64 stream, MD5, SHA-1 and HMAC;
  \<open>appwarrior/net\<close> has addresses, non-blocking sockets, listeners and a poller.
  \<open>hotline/protocol\<close> has the wire formats: transaction header, handshake, field list, payload
  records, file and folder transfer, archives, tracker messages, the HOPE negotiation and the
  transaction cipher.  \<open>hotline/net\<close> has the connection both roles share and the login session;
  \<open>hotline/client\<close> and \<open>hotline/server\<close> have one handshake handler each.  Data flow from the
  poller to \<open>service_readable\<close>, through the receive loop and the parser, the decoding hooks and
  the reassembly to the application's callbacks; replies go through \<open>queue_transaction\<close>, the
  encoding hooks and the send queue to the socket.

  \<^bold>\<open>Correspondence.\<close>  One theory per component; definitions keep the names of the sources, with a
  prefix where a name is used twice.
  \<^item> \<open>Prelude\<close>, \<open>Codec\<close>: machine integers, checked spans (\<^const>\<open>None\<close> is undefined
    behaviour), decoder results, the locales of codecs, and \<open>core/decode_error.h\<close>,
    \<open>encode_error.h\<close>.
  \<^item> \<open>Endian\<close>, \<open>Bit_Array\<close>, \<open>Guid_Codec\<close>, \<open>Ivar_Array\<close>: \<open>core/endian.h\<close>,
    \<open>bits.h\<close> and \<open>align.h\<close>, \<open>guid.h\<close>, \<open>ivar_array.cpp\<close>.
  \<^item> \<open>Blowfish_Tables\<close>, \<open>Blowfish\<close>, \<open>Digest_Common\<close>, \<open>Digest_MD5\<close>, \<open>Digest_SHA1\<close>,
    \<open>Hmac\<close>: the files of \<open>crypto\<close>.
  \<^item> \<open>Net_Address\<close>, \<open>Net_Socket\<close>, \<open>Net_Poller\<close>: \<open>net/address.cpp\<close> and the POSIX halves of
    \<open>socket.cpp\<close> and \<open>poller.cpp\<close>, over a kernel that answers system calls from a script and
    keeps a trace of them.  \<open>Net_Socket_Windows\<close>, \<open>Net_Poller_Windows\<close>: the Windows halves, over
    a WinSock of the same kind with the per-thread error; the connection runs on the POSIX half.
  \<^item> \<open>Wire_Constants\<close>, \<open>Transaction_Codec\<close>, \<open>Handshake\<close>, \<open>Field_List\<close>, \<open>Payloads\<close>,
    \<open>File_Transfer\<close>, \<open>Folder_Download\<close>, \<open>Harc_Archive\<close>, \<open>Tracker\<close>, \<open>Tracker_Codecs\<close>,
    \<open>Hope\<close>, \<open>Login_Keys\<close>, \<open>Transaction_Cipher\<close>: the files of \<open>hotline/protocol\<close>.
  \<^item> \<open>Legacy_Header\<close>: the historical header kept as \<open>audit/HotlineClientServerCommon.utf8.h\<close>
    (at the top of the repository), whose tables and access rights the protocol reproduces.
  \<^item> \<open>Connection\<close>: \<open>hotline/net/connection.cpp\<close>.  \<open>ConnectionBase\<close> is the record
    \<open>connection\<close>; a callback is a function on it, since callbacks call back into it;
    \<open>handle_handshake\<close> is an argument, as it is virtual.  \<open>Connection_Lifecycle\<close>: its moves and
    destructor.
  \<^item> \<open>Session\<close>: \<open>hotline/net/session.cpp\<close>.  \<open>Endpoints\<close>: the client's and the server's
    \<open>connection.cpp\<close>.

  \<^bold>\<open>Lemmas.\<close>  The codec theories prove that a decoder accepts what its encoder writes (and, where
  it is canonical, nothing else) and never reads out of bounds, through the locales of \<open>Codec\<close>.
  \<open>Core_Properties\<close> has the properties of core and crypto.  \<open>Address_Text\<close> shows that parsing
  an address undoes printing it and which texts are IPv4 addresses.
  \<open>Net_Windows_Properties\<close> accounts for the handles and the blocking modes on Windows and
  relates the operations of the two backends one by one; \<open>Net_Sessions\<close> lifts this to clients that
  decide what to do by what they have seen, through a simulation in the locale \<open>alike\<close>, and
  \<open>Poller_Histories\<close> follows a poller through all its registrations.  The
  interface of a stream socket is a locale of \<open>Net_Socket\<close> that both backends interpret.
  \<open>Secure_Channel\<close> has two cipher ends as a step relation, and \<open>Hope_Channel\<close> follows an encrypted
  login from the server's reply to two such ends.  \<open>Connection_Laws\<close> states the contract between a connection and the
  owner of its callbacks (\<open>lawful_events\<close>: a callback works on the send side and may end the
  connection) and the locale \<open>application\<close>; \<open>Connection_Parse\<close> proves on the locale
  \<open>endpoint\<close> that parsing terminates and does not depend on the cuts of the byte stream;
  \<open>Connection_Receive\<close> refines the receive side to a list of frames and reassembly, of which
  only the application can fall short, by ending the connection in the callback of a transaction
  it is handed (\<open>owner_ends\<close>);
  \<open>Connection_Send\<close> refines the send queue to a queue of bytes and \<open>Send_Liveness\<close> shows that
  it drains and that a connection on a network that does not fail (\<open>reliable\<close>) outlives
  flushing; \<open>Message_Flow\<close> joins the two for plain and encrypted hooks; \<open>Connection_Runs\<close> carries an invariant through every run;
  \<open>Connection_Lifecycle\<close> has what a serviced and a moved connection promise;
  \<open>Login_Server\<close> states the contract of an owner with a session (\<open>runs_session\<close>), carries
  properties of the owner's environment through runs, and has the one owner the instances use; \<open>Role_Contracts\<close> interprets the contracts on both roles.  The properties are in
  \<open>Connection_Properties\<close>, \<open>Delivery_Properties\<close>, \<open>Keepalive_Properties\<close>,
  \<open>Role_Properties\<close>, \<open>Login_Properties\<close> (over \<open>Role_Runs\<close>) and, for the codecs, at the end of
  their theories.

  \<^bold>\<open>Bounds.\<close>  There is no fuel.  The send and receive loops make one system call per round and
  the script of a kernel is finite; a kernel with no answer left would block, so every finite
  behaviour of the network within one event is a script: a peer that sends faster than the
  receive loop reads, without end, is not expressible.  The parser is a partial function proved total for both
  roles.  Container sizes are natural numbers; every conversion to a field of 16 or 32 bits wraps
  as in the code, and the theorems state the sizes for which it does not.  That the 64-bit sizes of
  the containers do not wrap is assumed.

  \<^bold>\<open>Parameters.\<close>  \<open>uncompress\<close> of zlib (assumed to do what zlib documents), the user database of a session, the owner's callbacks and
  hooks, and the answers of the kernel.

  \<^bold>\<open>Not modelled.\<close>  Memory exhaustion and exceptions of the standard library; what it leaves in
  the containers and functions of a moved-from connection, which is a parameter of the move; an
  \<open>on_closed\<close> callback that destroys the connection it is called from; a connection over the
  Windows sockets as a whole, for which only the agreement of the two backends in every use of one
  socket is proved; the compile errors of the Windows socket pair, whose moves out of constant
  objects are read as moves; the test framework; the export macro; the other historical excerpts under \<open>audit\<close>, which are not
  built.
\<close>

end
